(* ===== verification/Prelude.thy ===== *)
theory Prelude
  imports Main "HOL-Library.Signed_Division"
begin

section \<open>Prelude: Go integers, time and shared lemmas\<close>

text \<open>
  What the components share: Go's 64-bit integers, durations and instants, decimal printing,
  and generic lemmas on lists and options.

  Go's \<open>int64\<close> (an offset, an epoch, a \<open>time.Duration\<close>) is an \<open>int\<close>; where an operation of
  the source can leave the range, the wrap-around is written out with \<open>i64_wrap\<close>.
  A \<open>time.Duration\<close> counts nanoseconds. A \<open>time.Time\<close> is an \<open>int\<close>: nanoseconds since Go's
  zero time (1 January of year 1), so the zero \<open>Time\<close> is \<open>0\<close>. Go's \<open>Time\<close> spans billions of
  years and its \<open>Add\<close> does not overflow for any clock reading, so \<open>Add\<close> is plain addition,
  while \<open>Sub\<close> saturates at the range of a \<open>Duration\<close>, as Go's does.
\<close>

subsection \<open>Collections of simplification rules\<close>

named_theorems go_simps \<open>Go integers and times\<close>
named_theorems view_simps \<open>operations of the view\<close>
named_theorems agent_simps \<open>operations of the agent\<close>

subsection \<open>Go's 64-bit integers\<close>

type_synonym duration = int
type_synonym gtime = int

definition i64_min :: int where
  "i64_min = - 9223372036854775808"

definition i64_max :: int where
  "i64_max = 9223372036854775807"

definition is_i64 :: "int \<Rightarrow> bool" where
  "is_i64 x \<longleftrightarrow> i64_min \<le> x \<and> x \<le> i64_max"

definition i64_wrap :: "int \<Rightarrow> int" where
  "i64_wrap x = (x + 9223372036854775808) mod 18446744073709551616 - 9223372036854775808"

definition i64_sat :: "int \<Rightarrow> int" where
  "i64_sat x = max i64_min (min i64_max x)"

definition i64_add :: "int \<Rightarrow> int \<Rightarrow> int" where
  "i64_add a b = i64_wrap (a + b)"

definition i64_sub :: "int \<Rightarrow> int \<Rightarrow> int" where
  "i64_sub a b = i64_wrap (a - b)"

definition i64_mul :: "int \<Rightarrow> int \<Rightarrow> int" where
  "i64_mul a b = i64_wrap (a * b)"

text \<open>Go's integer division truncates towards zero; every divisor of the source is a constant.\<close>

definition i64_div :: "int \<Rightarrow> int \<Rightarrow> int" where
  "i64_div a b = a sdiv b"

lemma is_i64_wrap [simp]: "is_i64 (i64_wrap x)"
proof -
  have "0 \<le> (x + 9223372036854775808) mod 18446744073709551616"
    and "(x + 9223372036854775808) mod 18446744073709551616 < 18446744073709551616"
    by simp_all
  then show ?thesis
    unfolding is_i64_def i64_wrap_def i64_min_def i64_max_def by linarith
qed

lemma i64_wrap_id: "is_i64 x \<Longrightarrow> i64_wrap x = x"
  by (simp add: is_i64_def i64_wrap_def i64_min_def i64_max_def)

lemma i64_add_exact [go_simps]: "is_i64 (a + b) \<Longrightarrow> i64_add a b = a + b"
  by (simp add: i64_add_def i64_wrap_id)

lemma i64_sub_exact [go_simps]: "is_i64 (a - b) \<Longrightarrow> i64_sub a b = a - b"
  by (simp add: i64_sub_def i64_wrap_id)

lemma i64_mul_exact [go_simps]: "is_i64 (a * b) \<Longrightarrow> i64_mul a b = a * b"
  by (simp add: i64_mul_def i64_wrap_id)

lemma i64_div_nonneg [go_simps]: "0 \<le> a \<Longrightarrow> 0 < b \<Longrightarrow> i64_div a b = a div b"
  by (auto simp: i64_div_def signed_divide_int_def sgn_if)

lemma i64_div_le: "0 \<le> a \<Longrightarrow> 0 < b \<Longrightarrow> i64_div a b \<le> a"
  using zdiv_mono2 [of a 1 b] by (simp add: go_simps)

lemma i64_div_ge0: "0 \<le> a \<Longrightarrow> 0 < b \<Longrightarrow> 0 \<le> i64_div a b"
  by (simp add: go_simps pos_imp_zdiv_nonneg_iff)

subsection \<open>Instants and durations\<close>

definition Millisecond :: duration where
  "Millisecond = 1000000"

definition Second :: duration where
  "Second = 1000000000"

definition Milliseconds :: "duration \<Rightarrow> int" where
  "Milliseconds d = i64_div d Millisecond"

definition time_zero :: gtime where
  "time_zero = 0"

definition time_Add :: "gtime \<Rightarrow> duration \<Rightarrow> gtime" where
  "time_Add t d = t + d"

definition time_Sub :: "gtime \<Rightarrow> gtime \<Rightarrow> duration" where
  "time_Sub t u = i64_sat (t - u)"

definition time_Before :: "gtime \<Rightarrow> gtime \<Rightarrow> bool" where
  "time_Before t u \<longleftrightarrow> t < u"

definition time_After :: "gtime \<Rightarrow> gtime \<Rightarrow> bool" where
  "time_After t u \<longleftrightarrow> u < t"

definition time_IsZero :: "gtime \<Rightarrow> bool" where
  "time_IsZero t \<longleftrightarrow> t = time_zero"

lemmas time_defs [go_simps] =
  time_Add_def time_Before_def time_After_def time_IsZero_def time_zero_def

lemma time_Sub_ge [go_simps]:
  "d \<le> i64_max \<Longrightarrow> i64_min < d \<Longrightarrow> d \<le> time_Sub t u \<longleftrightarrow> d \<le> t - u"
  by (auto simp: time_Sub_def i64_sat_def i64_min_def i64_max_def)

lemma time_Sub_exact: "is_i64 (t - u) \<Longrightarrow> time_Sub t u = t - u"
  by (auto simp: time_Sub_def i64_sat_def is_i64_def)

lemma Milliseconds_mult: "0 \<le> m \<Longrightarrow> Milliseconds (m * Millisecond) = m"
  by (simp add: Milliseconds_def Millisecond_def go_simps)

lemma Milliseconds_floor:
  "0 \<le> d \<Longrightarrow> Milliseconds d * Millisecond = d - d mod Millisecond"
  by (simp add: Milliseconds_def Millisecond_def go_simps minus_mod_eq_div_mult)

subsection \<open>Decimal digits\<close>

definition digit_char :: "nat \<Rightarrow> char" where
  "digit_char d = ''0123456789'' ! d"

fun dec_nat :: "nat \<Rightarrow> string" where
  "dec_nat n = (if n < 10 then [digit_char n] else dec_nat (n div 10) @ [digit_char (n mod 10)])"

declare dec_nat.simps [simp del]

definition dec_int :: "int \<Rightarrow> string" where
  "dec_int i = (if i < 0 then CHR ''-'' # dec_nat (nat (- i)) else dec_nat (nat i))"

subsection \<open>Lists\<close>

lemma dropWhile_eq_drop: "\<exists>k \<le> length xs. dropWhile P xs = drop k xs"
proof (induction xs)
  case (Cons x xs)
  then obtain k where "k \<le> length xs" "dropWhile P xs = drop k xs" by blast
  then have "Suc k \<le> length (x # xs) \<and> dropWhile P xs = drop (Suc k) (x # xs)" by simp
  then show ?case by (cases "P x") force+
qed simp

lemma set_dropWhile_subset: "set (dropWhile P xs) \<subseteq> set xs"
  by (induction xs) auto

lemma sorted_wrt_dropWhile: "sorted_wrt R xs \<Longrightarrow> sorted_wrt R (dropWhile P xs)"
  by (induction xs) auto

end
