(* ===== verification/LeaseRecord.thy ===== *)
theory LeaseRecord
  imports Prelude
begin

section \<open>Lease records (lease/record.go)\<close>

text \<open>
  The kinds of a lease record and the record itself, as lease/record.go declares them.
\<close>

text \<open>
  \<open>Kind\<close> is a \<open>uint8\<close>: the three declared constants are 1, 2 and 3, and every other value
  (the zero value among them) is \<open>KindOther\<close>.
\<close>

datatype kind = Claim | Renew | Release | KindOther nat

fun kind_String :: "kind \<Rightarrow> string" where
  "kind_String Claim = ''claim''"
| "kind_String Renew = ''renew''"
| "kind_String Release = ''release''"
| "kind_String (KindOther n) = ''kind('' @ dec_nat n @ '')''"

fun known_kind :: "kind \<Rightarrow> bool" where
  "known_kind Claim = True"
| "known_kind Renew = True"
| "known_kind Release = True"
| "known_kind (KindOther n) = False"

record lrecord =
  r_Offset :: int
  r_Timestamp :: gtime
  r_Kind :: kind
  r_Holder :: string
  r_Epoch :: int
  r_TTL :: duration

text \<open>\<open>Record.term\<close>: the term the record belongs to or, for a claim, would start.\<close>

definition rec_term :: "lrecord \<Rightarrow> string \<times> int" where
  "rec_term r = (if r_Kind r = Claim then (r_Holder r, r_Offset r) else (r_Holder r, r_Epoch r))"

lemma known_kind_iff: "known_kind k \<longleftrightarrow> k = Claim \<or> k = Renew \<or> k = Release"
  by (cases k) auto

end
