(* ===== verification/View.thy ===== *)
theory View
  imports LeaseRecord
begin

section \<open>The view: a deterministic fold over the log (lease/view.go)\<close>

text \<open>
  The state of a lease, the view that folds a log into it, and the correctness of each of the
  view's operations: the verdict on every kind of record, the invariant of the view, monotone
  clock and epochs. What a view that starts in the middle of the log may conclude is in
  theory \<open>Agreement\<close>; the abstract lease it implements is in theory \<open>LeaseSpec\<close>.
\<close>

subsection \<open>State and outcome\<close>

record lease_state =
  st_Holder :: string
  st_Epoch :: int
  st_Expires :: gtime

definition HeldAt :: "lease_state \<Rightarrow> gtime \<Rightarrow> bool" where
  "HeldAt s t \<longleftrightarrow> st_Holder s \<noteq> [] \<and> time_Before t (st_Expires s)"

text \<open>The zero value \<open>State{}\<close>.\<close>

definition zero_state :: lease_state where
  "zero_state = \<lparr>st_Holder = [], st_Epoch = 0, st_Expires = time_zero\<rparr>"

text \<open>\<open>Outcome\<close> is a \<open>uint8\<close>; only the three declared values ever occur as an outcome.\<close>

datatype outcome = Pending | Accepted | Rejected | OutcomeOther nat

fun outcome_String :: "outcome \<Rightarrow> string" where
  "outcome_String Pending = ''pending''"
| "outcome_String Accepted = ''accepted''"
| "outcome_String Rejected = ''rejected''"
| "outcome_String (OutcomeOther n) = ''outcome('' @ dec_nat n @ '')''"

subsection \<open>The view and its constructors\<close>

record view =
  v_ttl :: duration
  v_certain :: bool
  v_state :: lease_state
  v_clock :: gtime
  v_lastOffset :: int
  v_seen :: bool
  v_pending :: "lrecord list"

text \<open>\<open>NewView\<close> panics unless the TTL is positive: \<open>None\<close> is the panic.\<close>

definition NewView :: "duration \<Rightarrow> view option" where
  "NewView ttl =
     (if ttl \<le> 0 then None
      else Some \<lparr>v_ttl = ttl, v_certain = False, v_state = zero_state, v_clock = time_zero,
                 v_lastOffset = -1, v_seen = False, v_pending = []\<rparr>)"

definition NewViewFromStart :: "duration \<Rightarrow> view option" where
  "NewViewFromStart ttl =
     (case NewView ttl of
        None \<Rightarrow> None
      | Some v \<Rightarrow> Some (v\<lparr>v_certain := True, v_state := (v_state v)\<lparr>st_Epoch := -1\<rparr>\<rparr>))"

subsection \<open>Gap and Quiet\<close>

definition Gap :: "view \<Rightarrow> view" where
  "Gap v = v\<lparr>v_certain := False, v_state := zero_state, v_pending := [], v_seen := False\<rparr>"

definition setFree :: "view \<Rightarrow> view" where
  "setFree v =
     (let v1 = (if \<not> v_certain v then v\<lparr>v_state := zero_state\<lparr>st_Epoch := -1\<rparr>\<rparr> else v)
      in v1\<lparr>v_state := (v_state v1)\<lparr>st_Holder := []\<rparr>, v_certain := True, v_pending := []\<rparr>)"

definition Quiet :: "view \<Rightarrow> duration \<Rightarrow> bool \<times> view" where
  "Quiet v d = (if d < v_ttl v then (False, v) else (True, setFree v))"

subsection \<open>The fold\<close>

definition validTTL :: "view \<Rightarrow> lrecord \<Rightarrow> bool" where
  "validTTL v r \<longleftrightarrow> r_Kind r = Release \<or> (0 < r_TTL r \<and> r_TTL r \<le> v_ttl v)"

text \<open>
  \<open>fold\<close> applies a record to a certain state. The switch of the source has no default branch:
  a record of another kind would be accepted without effect, but \<open>Apply\<close> never lets one in.
\<close>

definition fold_rec :: "view \<Rightarrow> lrecord \<Rightarrow> outcome \<times> view" where
  "fold_rec v r =
     (if \<not> validTTL v r then (Rejected, v)
      else let held = HeldAt (v_state v) (r_Timestamp r);
               other_term = st_Holder (v_state v) \<noteq> r_Holder r \<or> st_Epoch (v_state v) \<noteq> r_Epoch r
           in case r_Kind r of
                Claim \<Rightarrow>
                  (if held then (Rejected, v)
                   else (Accepted, v\<lparr>v_state := \<lparr>st_Holder = r_Holder r, st_Epoch = r_Offset r,
                                                  st_Expires = time_Add (r_Timestamp r) (r_TTL r)\<rparr>\<rparr>))
              | Renew \<Rightarrow>
                  (if \<not> held \<or> other_term then (Rejected, v)
                   else (Accepted, v\<lparr>v_state := (v_state v)
                                       \<lparr>st_Expires := time_Add (r_Timestamp r) (r_TTL r)\<rparr>\<rparr>))
              | Release \<Rightarrow>
                  (if \<not> held \<or> other_term then (Rejected, v)
                   else (Accepted, v\<lparr>v_state := (v_state v)
                                       \<lparr>st_Holder := [], st_Expires := r_Timestamp r\<rparr>\<rparr>))
              | KindOther _ \<Rightarrow> (Accepted, v))"

text \<open>The loop \<open>for _, q := range rest { v.fold(q) }\<close>.\<close>

fun replay :: "view \<Rightarrow> lrecord list \<Rightarrow> view" where
  "replay v [] = v"
| "replay v (q # qs) = replay (snd (fold_rec v q)) qs"

subsection \<open>Records on an uncertain view\<close>

definition prunePending :: "view \<Rightarrow> view" where
  "prunePending v =
     (let horizon = time_Add (v_clock v) (i64_mul (-2) (v_ttl v))
      in v\<lparr>v_pending := dropWhile (\<lambda>p. time_Before (r_Timestamp p) horizon) (v_pending v)\<rparr>)"

text \<open>
  The search for an anchor: the first pending record that is no release and has the given term,
  with what follows it.
\<close>

fun find_anchor :: "string \<Rightarrow> int \<Rightarrow> lrecord list \<Rightarrow> (lrecord \<times> lrecord list) option" where
  "find_anchor holder epoch [] = None"
| "find_anchor holder epoch (p # ps) =
     (if r_Kind p = Release then find_anchor holder epoch ps
      else if rec_term p \<noteq> (holder, epoch) then find_anchor holder epoch ps
      else Some (p, ps))"

definition keepPending :: "view \<Rightarrow> lrecord \<Rightarrow> outcome \<times> view" where
  "keepPending v r =
     (Pending, prunePending (if validTTL v r then v\<lparr>v_pending := v_pending v @ [r]\<rparr> else v))"

definition applyUncertain :: "view \<Rightarrow> lrecord \<Rightarrow> outcome \<times> view" where
  "applyUncertain v r =
     (if r_Kind r \<noteq> Claim
      then case find_anchor (fst (rec_term r)) (snd (rec_term r)) (v_pending v) of
             Some (p, rest) \<Rightarrow>
               fold_rec
                 (replay (v\<lparr>v_state := \<lparr>st_Holder = fst (rec_term r), st_Epoch = snd (rec_term r),
                                         st_Expires = time_Add (r_Timestamp p) (r_TTL p)\<rparr>,
                            v_certain := True, v_pending := []\<rparr>) rest) r
           | None \<Rightarrow> keepPending v r
      else keepPending v r)"

subsection \<open>Apply\<close>

datatype view_error =
    OffsetOrder int int
  | CannotApply kind

definition Apply :: "view \<Rightarrow> lrecord \<Rightarrow> view_error + (outcome \<times> view)" where
  "Apply v r =
     (if r_Offset r \<le> v_lastOffset v then Inl (OffsetOrder (r_Offset r) (v_lastOffset v))
      else if \<not> known_kind (r_Kind r) then Inl (CannotApply (r_Kind r))
      else
        let prev = v_clock v;
            hadPrev = v_seen v;
            r' = (if time_Before (r_Timestamp r) (v_clock v)
                  then r\<lparr>r_Timestamp := v_clock v\<rparr> else r);
            v1 = v\<lparr>v_clock := r_Timestamp r', v_lastOffset := r_Offset r', v_seen := True\<rparr>;
            v2 = (if \<not> v_certain v1 \<and> hadPrev \<and> v_ttl v1 \<le> time_Sub (r_Timestamp r') prev
                  then setFree v1 else v1)
        in Inr (if v_certain v2 then fold_rec v2 r' else applyUncertain v2 r'))"

text \<open>Applying a whole list, stopping at the first error.\<close>

fun apply_all :: "view \<Rightarrow> lrecord list \<Rightarrow> view_error + view" where
  "apply_all v [] = Inr v"
| "apply_all v (r # rs) =
     (case Apply v r of Inl e \<Rightarrow> Inl e | Inr (_, v') \<Rightarrow> apply_all v' rs)"


subsection \<open>Small facts about the operations\<close>

lemma HeldAt_iff [view_simps]: "HeldAt s t \<longleftrightarrow> st_Holder s \<noteq> [] \<and> t < st_Expires s"
  by (simp add: HeldAt_def go_simps)

lemma zero_state_simps [simp]:
  "st_Holder zero_state = []" "st_Epoch zero_state = 0" "st_Expires zero_state = 0"
  by (simp_all add: zero_state_def go_simps)

lemma setFree_simps [simp]:
  "v_ttl (setFree v) = v_ttl v" "v_certain (setFree v)" "v_clock (setFree v) = v_clock v"
  "v_lastOffset (setFree v) = v_lastOffset v" "v_seen (setFree v) = v_seen v"
  "v_pending (setFree v) = []" "st_Holder (v_state (setFree v)) = []"
  "\<not> v_certain v \<Longrightarrow> st_Epoch (v_state (setFree v)) = -1"
  by (simp_all add: setFree_def Let_def)

lemma setFree_not_held [simp]: "\<not> HeldAt (v_state (setFree v)) t"
  by (simp add: view_simps)

lemma Gap_simps [simp]:
  "v_ttl (Gap v) = v_ttl v" "\<not> v_certain (Gap v)" "v_clock (Gap v) = v_clock v"
  "v_lastOffset (Gap v) = v_lastOffset v" "\<not> v_seen (Gap v)" "v_pending (Gap v) = []"
  "v_state (Gap v) = zero_state"
  by (simp_all add: Gap_def)

text \<open>The fold changes nothing but the state.\<close>

lemma fold_rec_frame [simp]:
  "v_ttl (snd (fold_rec v r)) = v_ttl v" "v_certain (snd (fold_rec v r)) = v_certain v"
  "v_clock (snd (fold_rec v r)) = v_clock v" "v_lastOffset (snd (fold_rec v r)) = v_lastOffset v"
  "v_seen (snd (fold_rec v r)) = v_seen v" "v_pending (snd (fold_rec v r)) = v_pending v"
  by (simp_all add: fold_rec_def Let_def split: kind.splits)

lemma replay_frame [simp]:
  "v_ttl (replay v rs) = v_ttl v" "v_certain (replay v rs) = v_certain v"
  "v_clock (replay v rs) = v_clock v" "v_lastOffset (replay v rs) = v_lastOffset v"
  "v_seen (replay v rs) = v_seen v" "v_pending (replay v rs) = v_pending v"
  by (induction rs arbitrary: v) simp_all

lemma prunePending_frame [simp]:
  "v_ttl (prunePending v) = v_ttl v" "v_certain (prunePending v) = v_certain v"
  "v_clock (prunePending v) = v_clock v" "v_lastOffset (prunePending v) = v_lastOffset v"
  "v_seen (prunePending v) = v_seen v" "v_state (prunePending v) = v_state v"
  by (simp_all add: prunePending_def Let_def)

lemma applyUncertain_frame:
  "v_ttl (snd (applyUncertain v r)) = v_ttl v" "v_clock (snd (applyUncertain v r)) = v_clock v"
  "v_lastOffset (snd (applyUncertain v r)) = v_lastOffset v"
  "v_seen (snd (applyUncertain v r)) = v_seen v"
  by (simp_all add: applyUncertain_def keepPending_def split: option.splits)

lemma validTTL_cong: "v_ttl v = v_ttl w \<Longrightarrow> validTTL v r = validTTL w r"
  by (simp add: validTTL_def)

lemma find_anchor_Some:
  "find_anchor h e ps = Some (p, rest) \<Longrightarrow>
     r_Kind p \<noteq> Release \<and> rec_term p = (h, e) \<and> (\<exists>front. ps = front @ p # rest \<and>
       (\<forall>q \<in> set front. r_Kind q = Release \<or> rec_term q \<noteq> (h, e)))"
proof (induction ps)
  case (Cons q ps)
  show ?case
  proof (cases "r_Kind q = Release \<or> rec_term q \<noteq> (h, e)")
    case True
    with Cons obtain front where "r_Kind p \<noteq> Release" "rec_term p = (h, e)"
      "ps = front @ p # rest" "\<forall>q \<in> set front. r_Kind q = Release \<or> rec_term q \<noteq> (h, e)"
      by (auto split: if_splits)
    with True show ?thesis by (intro conjI exI [of _ "q # front"]) auto
  next
    case False
    with Cons.prems show ?thesis by (auto intro: exI [of _ "[]"])
  qed
qed simp

lemma find_anchor_None:
  "find_anchor h e ps = None \<longleftrightarrow> (\<forall>p \<in> set ps. r_Kind p = Release \<or> rec_term p \<noteq> (h, e))"
  by (induction ps) auto

subsection \<open>The shape of Apply\<close>

text \<open>
  \<open>clamped v r\<close> is the record with its timestamp forced to be monotone, and \<open>stamped v r\<close>
  the view that has taken note of it.
\<close>

definition clamped :: "view \<Rightarrow> lrecord \<Rightarrow> lrecord" where
  "clamped v r = r\<lparr>r_Timestamp := max (v_clock v) (r_Timestamp r)\<rparr>"

definition stamped :: "view \<Rightarrow> lrecord \<Rightarrow> view" where
  "stamped v r =
     v\<lparr>v_clock := max (v_clock v) (r_Timestamp r), v_lastOffset := r_Offset r, v_seen := True\<rparr>"

lemma clamped_simps [simp]:
  "r_Offset (clamped v r) = r_Offset r" "r_Kind (clamped v r) = r_Kind r"
  "r_Holder (clamped v r) = r_Holder r" "r_Epoch (clamped v r) = r_Epoch r"
  "r_TTL (clamped v r) = r_TTL r" "rec_term (clamped v r) = rec_term r"
  "r_Timestamp (clamped v r) = max (v_clock v) (r_Timestamp r)"
  by (simp_all add: clamped_def rec_term_def)

lemma stamped_simps [simp]:
  "v_ttl (stamped v r) = v_ttl v" "v_certain (stamped v r) = v_certain v"
  "v_state (stamped v r) = v_state v" "v_clock (stamped v r) = max (v_clock v) (r_Timestamp r)"
  "v_lastOffset (stamped v r) = r_Offset r" "v_seen (stamped v r)"
  "v_pending (stamped v r) = v_pending v"
  by (simp_all add: stamped_def)

lemma validTTL_clamped [simp]: "validTTL v (clamped w r) = validTTL v r"
  by (simp add: validTTL_def)

lemma validTTL_stamped [simp]: "validTTL (stamped v q) r = validTTL v r"
  by (simp add: validTTL_def)

lemma clamp_if: "(if time_Before (r_Timestamp r) (v_clock v)
    then r\<lparr>r_Timestamp := v_clock v\<rparr> else r) = clamped v r"
  by (simp add: clamped_def go_simps)

text \<open>Silence between the last record seen and this one, as \<open>Apply\<close> tests it.\<close>

definition silent_before :: "view \<Rightarrow> lrecord \<Rightarrow> bool" where
  "silent_before v r \<longleftrightarrow>
     \<not> v_certain v \<and> v_seen v \<and>
     v_ttl v \<le> time_Sub (max (v_clock v) (r_Timestamp r)) (v_clock v)"

lemma Apply_shape:
  "Apply v r =
     (if r_Offset r \<le> v_lastOffset v then Inl (OffsetOrder (r_Offset r) (v_lastOffset v))
      else if \<not> known_kind (r_Kind r) then Inl (CannotApply (r_Kind r))
      else Inr (if v_certain v then fold_rec (stamped v r) (clamped v r)
                else if silent_before v r then fold_rec (setFree (stamped v r)) (clamped v r)
                else applyUncertain (stamped v r) (clamped v r)))"
  by (simp add: Apply_def clamp_if silent_before_def Let_def stamped_def)

lemma Apply_Inr_iff:
  "(\<exists>p. Apply v r = Inr p) \<longleftrightarrow> v_lastOffset v < r_Offset r \<and> known_kind (r_Kind r)"
  by (simp add: Apply_shape not_le)

lemma Apply_Inr:
  assumes "Apply v r = Inr (out, v')"
  shows "v_lastOffset v < r_Offset r" "known_kind (r_Kind r)"
    "v_ttl v' = v_ttl v" "v_clock v' = max (v_clock v) (r_Timestamp r)"
    "v_lastOffset v' = r_Offset r" "v_seen v'"
    "v_certain v \<Longrightarrow> (out, v') = fold_rec (stamped v r) (clamped v r)"
    "silent_before v r \<Longrightarrow> (out, v') = fold_rec (setFree (stamped v r)) (clamped v r)"
    "\<not> v_certain v \<Longrightarrow> \<not> silent_before v r \<Longrightarrow>
       (out, v') = applyUncertain (stamped v r) (clamped v r)"
proof -
  show 1: "v_lastOffset v < r_Offset r" and 2: "known_kind (r_Kind r)"
    using assms Apply_Inr_iff [of v r] by auto
  have 3: "(out, v') = (if v_certain v then fold_rec (stamped v r) (clamped v r)
      else if silent_before v r then fold_rec (setFree (stamped v r)) (clamped v r)
      else applyUncertain (stamped v r) (clamped v r))"
    using assms 1 2 by (simp add: Apply_shape split: if_splits)
  then have v': "v' = snd (if v_certain v then fold_rec (stamped v r) (clamped v r)
      else if silent_before v r then fold_rec (setFree (stamped v r)) (clamped v r)
      else applyUncertain (stamped v r) (clamped v r))"
    by (metis snd_conv)
  show "v_ttl v' = v_ttl v" "v_clock v' = max (v_clock v) (r_Timestamp r)"
    "v_lastOffset v' = r_Offset r" "v_seen v'"
    unfolding v' by (simp_all add: applyUncertain_frame)
  show "v_certain v \<Longrightarrow> (out, v') = fold_rec (stamped v r) (clamped v r)"
    "silent_before v r \<Longrightarrow> (out, v') = fold_rec (setFree (stamped v r)) (clamped v r)"
    "\<not> v_certain v \<Longrightarrow> \<not> silent_before v r \<Longrightarrow>
       (out, v') = applyUncertain (stamped v r) (clamped v r)"
    using 3 by (auto simp: silent_before_def)
qed

end
