(* ===== verification/LeaseSpec.thy ===== *)
theory LeaseSpec
  imports ViewInvariant
begin

section \<open>The abstract lease (docs/protocol.md, Fold)\<close>

text \<open>
  What docs/protocol.md promises of the fold, without the view's bookkeeping: a lease is free or
  held by a holder, under an epoch, until an instant. \<open>lease_step\<close> is the protocol's rule for one
  record. The interface \<open>lease_reader\<close> says what a reader of the log promises its client: once
  certain it stays certain, and every record moves the abstract lease by exactly one
  \<open>lease_step\<close>. The client's lemmas (a live term survives, a live term is never taken over) are
  proved once in the locale; the view of lease/view.go is its interpretation.
\<close>

datatype lease = Free | Held string int gtime

fun live_at :: "gtime \<Rightarrow> lease \<Rightarrow> lease" where
  "live_at t Free = Free"
| "live_at t (Held h e x) = (if t < x then Held h e x else Free)"

definition ttl_ok :: "duration \<Rightarrow> lrecord \<Rightarrow> bool" where
  "ttl_ok ttl r \<longleftrightarrow> r_Kind r = Release \<or> (0 < r_TTL r \<and> r_TTL r \<le> ttl)"

definition lease_step :: "duration \<Rightarrow> lease \<Rightarrow> lrecord \<Rightarrow> outcome \<times> lease" where
  "lease_step ttl L r =
     (if \<not> ttl_ok ttl r then (Rejected, L)
      else case (r_Kind r, live_at (r_Timestamp r) L) of
             (Claim, Free) \<Rightarrow>
               (Accepted, Held (r_Holder r) (r_Offset r) (r_Timestamp r + r_TTL r))
           | (Renew, Held h e x) \<Rightarrow>
               (if h = r_Holder r \<and> e = r_Epoch r
                then (Accepted, Held h e (r_Timestamp r + r_TTL r)) else (Rejected, L))
           | (Release, Held h e x) \<Rightarrow>
               (if h = r_Holder r \<and> e = r_Epoch r then (Accepted, Free) else (Rejected, L))
           | (_, _) \<Rightarrow> (Rejected, L))"

text \<open>A participant's record: one of the three kinds, with a holder.\<close>

definition proper :: "lrecord \<Rightarrow> bool" where
  "proper r \<longleftrightarrow> known_kind (r_Kind r) \<and> r_Holder r \<noteq> []"

subsection \<open>Facts about the abstract lease\<close>

lemma live_at_Held: "live_at t L = Held h e x \<longleftrightarrow> L = Held h e x \<and> t < x"
  by (cases L) auto

lemma live_at_mono: "live_at t L = Free \<Longrightarrow> t \<le> t' \<Longrightarrow> live_at t' L = Free"
  by (cases L) (auto split: if_splits)

text \<open>A live term is touched only by its own holder and epoch, and ends only by its release.\<close>

lemma lease_step_live:
  assumes "lease_step ttl (Held h e x) r = (out, L')" "r_Timestamp r < x"
  shows "(out = Accepted \<and> r_Kind r = Release \<and> r_Holder r = h \<and> r_Epoch r = e \<and> L' = Free) \<or>
         (out = Accepted \<and> r_Kind r = Renew \<and> r_Holder r = h \<and> r_Epoch r = e \<and>
            L' = Held h e (r_Timestamp r + r_TTL r)) \<or>
         (out = Rejected \<and> L' = Held h e x)"
  using assms by (auto simp: lease_step_def split: kind.splits if_splits)

lemma lease_step_accepted_claim:
  "lease_step ttl L r = (Accepted, L') \<Longrightarrow> r_Kind r = Claim \<Longrightarrow>
     L' = Held (r_Holder r) (r_Offset r) (r_Timestamp r + r_TTL r) \<and>
     live_at (r_Timestamp r) L = Free \<and> ttl_ok ttl r"
  by (cases "live_at (r_Timestamp r) L") (auto simp: lease_step_def split: if_splits)

lemma lease_step_accepted_renew:
  "lease_step ttl L r = (Accepted, L') \<Longrightarrow> r_Kind r = Renew \<Longrightarrow>
     L' = Held (r_Holder r) (r_Epoch r) (r_Timestamp r + r_TTL r) \<and>
     (\<exists>x. L = Held (r_Holder r) (r_Epoch r) x \<and> r_Timestamp r < x) \<and> ttl_ok ttl r"
  by (cases "live_at (r_Timestamp r) L") (auto simp: lease_step_def live_at_Held split: if_splits)

lemma lease_step_rejected: "lease_step ttl L r = (Rejected, L') \<Longrightarrow> L' = L"
  by (auto simp: lease_step_def split: kind.splits lease.splits if_splits)

lemma lease_step_outcome:
  "fst (lease_step ttl L r) = Accepted \<or> fst (lease_step ttl L r) = Rejected"
  by (auto simp: lease_step_def split: kind.splits lease.splits)

subsection \<open>The interface of a log reader\<close>

locale lease_reader =
  fixes apply_rec :: "'v \<Rightarrow> lrecord \<Rightarrow> 'e + (outcome \<times> 'v)"
    and certain :: "'v \<Rightarrow> bool"
    and lease_of :: "'v \<Rightarrow> lease"
    and clock_of :: "'v \<Rightarrow> gtime"
    and offset_of :: "'v \<Rightarrow> int"
    and ttl_of :: "'v \<Rightarrow> duration"
  assumes accepts_next:
      "offset_of v < r_Offset r \<Longrightarrow> proper r \<Longrightarrow> \<exists>out v'. apply_rec v r = Inr (out, v')"
    and offset_next: "apply_rec v r = Inr (out, v') \<Longrightarrow> offset_of v' = r_Offset r"
    and clock_next:
      "apply_rec v r = Inr (out, v') \<Longrightarrow> clock_of v' = max (clock_of v) (r_Timestamp r)"
    and ttl_next: "apply_rec v r = Inr (out, v') \<Longrightarrow> ttl_of v' = ttl_of v"
    and stays_certain: "certain v \<Longrightarrow> apply_rec v r = Inr (out, v') \<Longrightarrow> certain v'"
    and moves_lease:
      "certain v \<Longrightarrow> proper r \<Longrightarrow> apply_rec v r = Inr (out, v') \<Longrightarrow>
         (out, lease_of v') =
           lease_step (ttl_of v) (lease_of v) (r\<lparr>r_Timestamp := max (clock_of v) (r_Timestamp r)\<rparr>)"
begin

text \<open>
  A live term survives a record that is not its release, and does not end earlier than before
  when its renewals ask for the full TTL.
\<close>

lemma live_term_survives:
  assumes "certain v" "proper r" "apply_rec v r = Inr (out, v')"
    and "lease_of v = Held h e x" "x \<le> clock_of v + ttl_of v" "clock_of v' < x"
    and "\<not> (r_Kind r = Release \<and> r_Holder r = h \<and> r_Epoch r = e)"
    and "r_Kind r = Renew \<and> r_Holder r = h \<and> r_Epoch r = e \<Longrightarrow> r_TTL r = ttl_of v"
  shows "\<exists>x' \<ge> x. lease_of v' = Held h e x'"
proof -
  let ?r = "r\<lparr>r_Timestamp := max (clock_of v) (r_Timestamp r)\<rparr>"
  have st: "lease_step (ttl_of v) (Held h e x) ?r = (out, lease_of v')"
    using moves_lease [OF assms(1-3)] assms(4) by simp
  have "r_Timestamp ?r < x" using assms(6) clock_next [OF assms(3)] by simp
  from lease_step_live [OF st this] show ?thesis
    using assms(5,7,8) by (auto simp: max_def)
qed

text \<open>While a term is live nobody else can start one.\<close>

lemma no_takeover:
  assumes "certain v" "proper r" "apply_rec v r = Inr (out, v')"
    and "lease_of v = Held h e x" "clock_of v' < x" "r_Kind r = Claim"
  shows "out = Rejected \<and> lease_of v' = Held h e x"
proof -
  let ?r = "r\<lparr>r_Timestamp := max (clock_of v) (r_Timestamp r)\<rparr>"
  have st: "lease_step (ttl_of v) (Held h e x) ?r = (out, lease_of v')"
    using moves_lease [OF assms(1-3)] assms(4) by simp
  have "r_Timestamp ?r < x" using assms(5) clock_next [OF assms(3)] by simp
  from lease_step_live [OF st this] show ?thesis using assms(6) by auto
qed

text \<open>An accepted claim starts the term named by its own offset.\<close>

lemma granted_claim:
  assumes "certain v" "proper r" "apply_rec v r = Inr (Accepted, v')" "r_Kind r = Claim"
  shows "lease_of v' = Held (r_Holder r) (r_Offset r) (clock_of v' + r_TTL r) \<and>
         live_at (clock_of v') (lease_of v) = Free \<and> r_TTL r \<le> ttl_of v"
  using lease_step_accepted_claim [OF moves_lease [OF assms(1-3), symmetric]]
    clock_next [OF assms(3)] assms(4)
  by (simp add: ttl_ok_def)

text \<open>An accepted renewal extends the very term it names.\<close>

lemma accepted_renew:
  assumes "certain v" "proper r" "apply_rec v r = Inr (Accepted, v')" "r_Kind r = Renew"
  shows "lease_of v' = Held (r_Holder r) (r_Epoch r) (clock_of v' + r_TTL r) \<and>
         (\<exists>x. lease_of v = Held (r_Holder r) (r_Epoch r) x \<and> clock_of v' < x) \<and>
         r_TTL r \<le> ttl_of v"
  using lease_step_accepted_renew [OF moves_lease [OF assms(1-3), symmetric]]
    clock_next [OF assms(3)] assms(4)
  by (simp add: ttl_ok_def)

end

subsection \<open>The view implements the interface\<close>

definition abs_state :: "lease_state \<Rightarrow> lease" where
  "abs_state s = (if st_Holder s = [] then Free else Held (st_Holder s) (st_Epoch s) (st_Expires s))"

lemma HeldAt_abs: "HeldAt s t \<longleftrightarrow> live_at t (abs_state s) \<noteq> Free"
  by (simp add: abs_state_def view_simps)

lemma abs_state_Held:
  "abs_state s = Held h e x \<longleftrightarrow> h \<noteq> [] \<and> st_Holder s = h \<and> st_Epoch s = e \<and> st_Expires s = x"
  by (auto simp: abs_state_def)

text \<open>The fold on a certain state is the abstract step.\<close>

lemma fold_rec_abs:
  assumes "proper r"
  shows "(fst (fold_rec v r), abs_state (v_state (snd (fold_rec v r)))) =
         lease_step (v_ttl v) (abs_state (v_state v)) r"
proof -
  from assms have "r_Holder r \<noteq> []" and k: "known_kind (r_Kind r)" by (auto simp: proper_def)
  then show ?thesis
    by (cases "r_Kind r")
      (auto simp: fold_rec_def lease_step_def abs_state_def validTTL_def ttl_ok_def
         HeldAt_iff Let_def go_simps)
qed

lemma proper_clamped [simp]: "proper (clamped v r) = proper r"
  by (simp add: proper_def)

interpretation vr: lease_reader Apply v_certain "\<lambda>v. abs_state (v_state v)" v_clock v_lastOffset v_ttl
proof unfold_locales
  fix v :: view and r :: lrecord
  assume "v_lastOffset v < r_Offset r" "proper r"
  then show "\<exists>out v'. Apply v r = Inr (out, v')"
    using Apply_Inr_iff [of v r] by (auto simp: proper_def)
next
  fix v v' :: view and r :: lrecord and out :: outcome
  assume a: "Apply v r = Inr (out, v')"
  show "v_lastOffset v' = r_Offset r" "v_clock v' = max (v_clock v) (r_Timestamp r)"
    "v_ttl v' = v_ttl v"
    using Apply_Inr [OF a] by simp_all
  assume c: "v_certain v"
  have f: "(out, v') = fold_rec (stamped v r) (clamped v r)"
    using Apply_Inr(7) [OF a c] .
  then have v': "v' = snd (fold_rec (stamped v r) (clamped v r))" by (metis snd_conv)
  show "v_certain v'" unfolding v' using c by simp
  assume "proper r"
  then have "proper (clamped v r)" by simp
  from fold_rec_abs [OF this, of "stamped v r"]
  have "(out, abs_state (v_state v')) =
      lease_step (v_ttl v) (abs_state (v_state v)) (clamped v r)"
    by (simp add: f [symmetric])
  then show "(out, abs_state (v_state v')) = lease_step (v_ttl v) (abs_state (v_state v))
      (r\<lparr>r_Timestamp := max (v_clock v) (r_Timestamp r)\<rparr>)"
    by (simp add: clamped_def)
qed

end
