(* ===== verification/Json.thy ===== *)
theory Json
  imports Prelude "HOL-Library.Monad_Syntax"
begin

section \<open>The part of encoding/json that lease records use\<close>

text \<open>
  A Go string is a sequence of bytes, here a \<open>string\<close> whose characters are the bytes.
  \<open>json_quote\<close> is what \<open>json.Marshal\<close> writes for a string (HTML-safe escapes, invalid UTF-8
  replaced by U+FFFD), \<open>parse_json\<close> the syntax \<open>json.Unmarshal\<close> accepts (whole input, nesting
  depth at most 10000) with strings unquoted as it does. The parser's fuel is twice the
  input's length and one more; \<open>parse_fuel\<close> shows that this is always enough.
\<close>

subsection \<open>Bytes and UTF-8\<close>

definition byte :: "char \<Rightarrow> nat" where
  "byte c = of_char c"

abbreviation "QUOTE \<equiv> CHR 0x22"
abbreviation "BSLASH \<equiv> CHR 0x5C"

definition cont :: "nat \<Rightarrow> nat \<Rightarrow> char \<Rightarrow> bool" where
  "cont lo hi c \<longleftrightarrow> lo \<le> byte c \<and> byte c \<le> hi"

text \<open>
  \<open>utf8.DecodeRune\<close>: the length of the valid encoding the bytes start with, 0 if there is none
  (Go's \<open>RuneError\<close> with size 1, or the empty input).
\<close>

fun utf8_len :: "string \<Rightarrow> nat" where
  "utf8_len [] = 0"
| "utf8_len (c0 # cs) =
     (let b = byte c0 in
      if b < 128 then 1
      else case cs of
        [] \<Rightarrow> 0
      | c1 # cs1 \<Rightarrow>
         (if 194 \<le> b \<and> b \<le> 223 then (if cont 128 191 c1 then 2 else 0)
          else case cs1 of
            [] \<Rightarrow> 0
          | c2 # cs2 \<Rightarrow>
             (if 224 \<le> b \<and> b \<le> 239
              then (if cont (if b = 224 then 160 else 128) (if b = 237 then 159 else 191) c1
                       \<and> cont 128 191 c2 then 3 else 0)
              else case cs2 of
                [] \<Rightarrow> 0
              | c3 # cs3 \<Rightarrow>
                 (if 240 \<le> b \<and> b \<le> 244 \<and>
                     cont (if b = 240 then 144 else 128) (if b = 244 then 143 else 191) c1 \<and>
                     cont 128 191 c2 \<and> cont 128 191 c3 then 4 else 0))))"

text \<open>\<open>utf8.AppendRune\<close>, for a code point that is no surrogate.\<close>

definition utf8_enc :: "nat \<Rightarrow> string" where
  "utf8_enc r =
     (if r < 128 then [char_of r]
      else if r < 2048 then [char_of (192 + r div 64), char_of (128 + r mod 64)]
      else if r < 65536 then [char_of (224 + r div 4096), char_of (128 + r div 64 mod 64),
                              char_of (128 + r mod 64)]
      else [char_of (240 + r div 262144), char_of (128 + r div 4096 mod 64),
            char_of (128 + r div 64 mod 64), char_of (128 + r mod 64)])"

definition RuneError :: string where
  "RuneError = [CHR 0xEF, CHR 0xBF, CHR 0xBD]"

function valid_utf8 :: "string \<Rightarrow> bool" where
  "valid_utf8 s =
     (if s = [] then True
      else if utf8_len s = 0 then False
      else valid_utf8 (drop (utf8_len s) s))"
  by pat_completeness auto
termination
  by (relation "measure length") (auto simp del: utf8_len.simps)

declare valid_utf8.simps [simp del]

subsection \<open>Marshal: strings\<close>

definition hex_digit :: "nat \<Rightarrow> char" where
  "hex_digit d = ''0123456789abcdef'' ! d"

definition html_safe :: "nat \<Rightarrow> bool" where
  "html_safe b \<longleftrightarrow> 32 \<le> b \<and> b < 128 \<and> b \<noteq> 34 \<and> b \<noteq> 38 \<and> b \<noteq> 60 \<and> b \<noteq> 62 \<and> b \<noteq> 92"

definition esc_ascii :: "char \<Rightarrow> string" where
  "esc_ascii c =
     (let b = byte c in
      if html_safe b then [c]
      else if b = 92 \<or> b = 34 then [BSLASH, c]
      else if b = 8 then [BSLASH, CHR ''b'']
      else if b = 12 then [BSLASH, CHR ''f'']
      else if b = 10 then [BSLASH, CHR ''n'']
      else if b = 13 then [BSLASH, CHR ''r'']
      else if b = 9 then [BSLASH, CHR ''t'']
      else [BSLASH, CHR ''u'', CHR ''0'', CHR ''0'', hex_digit (b div 16), hex_digit (b mod 16)])"

function quote_body :: "string \<Rightarrow> string" where
  "quote_body s =
     (case s of
        [] \<Rightarrow> []
      | c # cs \<Rightarrow>
         (if byte c < 128 then esc_ascii c @ quote_body cs
          else if utf8_len s = 0 then (BSLASH # ''ufffd'') @ quote_body cs
          else if take 3 s = [CHR 0xE2, CHR 0x80, CHR 0xA8] then (BSLASH # ''u2028'') @ quote_body (drop 3 s)
          else if take 3 s = [CHR 0xE2, CHR 0x80, CHR 0xA9] then (BSLASH # ''u2029'') @ quote_body (drop 3 s)
          else take (utf8_len s) s @ quote_body (drop (utf8_len s) s)))"
  by pat_completeness auto
termination
  by (relation "measure length") (auto simp del: utf8_len.simps)

declare quote_body.simps [simp del]

definition json_quote :: "string \<Rightarrow> string" where
  "json_quote s = QUOTE # quote_body s @ [QUOTE]"

subsection \<open>Unmarshal: strings\<close>

definition hex_val :: "char \<Rightarrow> nat option" where
  "hex_val c =
     (let b = byte c in
      if 48 \<le> b \<and> b \<le> 57 then Some (b - 48)
      else if 97 \<le> b \<and> b \<le> 102 then Some (b - 87)
      else if 65 \<le> b \<and> b \<le> 70 then Some (b - 55)
      else None)"

fun hex4 :: "string \<Rightarrow> (nat \<times> string) option" where
  "hex4 (a # b # c # d # rest) =
     do { w \<leftarrow> hex_val a; x \<leftarrow> hex_val b; y \<leftarrow> hex_val c; z \<leftarrow> hex_val d;
          Some (((w * 16 + x) * 16 + y) * 16 + z, rest) }"
| "hex4 _ = None"

definition surrogate :: "nat \<Rightarrow> bool" where
  "surrogate r \<longleftrightarrow> 0xD800 \<le> r \<and> r < 0xE000"

text \<open>
  A \<open>\u\<close> escape: the bytes it stands for and what follows. A surrogate that does not start a valid
  pair is U+FFFD, and what follows it is read on its own.
\<close>

definition unescape_u :: "string \<Rightarrow> (string \<times> string) option" where
  "unescape_u s =
     (case hex4 s of
        None \<Rightarrow> None
      | Some (r, rest) \<Rightarrow>
         (if \<not> surrogate r then Some (utf8_enc r, rest)
          else case rest of
            b # u # rest1 \<Rightarrow>
              (case (if b = BSLASH \<and> u = CHR ''u'' then hex4 rest1 else None) of
                 Some (r2, rest2) \<Rightarrow>
                   (if r < 0xDC00 \<and> 0xDC00 \<le> r2 \<and> r2 < 0xE000
                    then Some (utf8_enc ((r - 0xD800) * 1024 + (r2 - 0xDC00) + 0x10000), rest2)
                    else Some (RuneError, rest))
               | None \<Rightarrow> Some (RuneError, rest))
          | _ \<Rightarrow> Some (RuneError, rest)))"

text \<open>One element of a quoted string, given without the closing quote: decoded bytes and the rest.\<close>

definition unquote_step :: "string \<Rightarrow> (string \<times> string) option" where
  "unquote_step s =
     (case s of
        [] \<Rightarrow> None
      | c # cs \<Rightarrow>
         (if byte c < 32 then None
          else if c = BSLASH then
            (case cs of
               [] \<Rightarrow> None
             | e # es \<Rightarrow>
                (if e = QUOTE \<or> e = BSLASH \<or> e = CHR ''/'' then Some ([e], es)
                 else if e = CHR ''b'' then Some ([char_of (8 :: nat)], es)
                 else if e = CHR ''f'' then Some ([char_of (12 :: nat)], es)
                 else if e = CHR ''n'' then Some ([char_of (10 :: nat)], es)
                 else if e = CHR ''r'' then Some ([char_of (13 :: nat)], es)
                 else if e = CHR ''t'' then Some ([char_of (9 :: nat)], es)
                 else if e = CHR ''u'' then unescape_u es
                 else None))
          else if byte c < 128 then Some ([c], cs)
          else if utf8_len s = 0 then Some (RuneError, cs)
          else Some (take (utf8_len s) s, drop (utf8_len s) s)))"

lemma hex4_length: "hex4 s = Some (r, rest) \<Longrightarrow> length rest < length s"
  by (cases s rule: hex4.cases) (auto split: bind_splits)

lemma unescape_u_length: "unescape_u s = Some (x, rest) \<Longrightarrow> length rest < length s"
  by (auto simp: unescape_u_def split: option.splits if_splits list.splits dest!: hex4_length)

lemma unquote_step_length: "unquote_step s = Some (x, rest) \<Longrightarrow> length rest < length s"
  by (auto simp: unquote_step_def split: list.splits if_splits dest!: unescape_u_length
      simp del: utf8_len.simps)

text \<open>The bytes after an opening quote: the decoded string and what follows the closing quote.\<close>

function parse_str :: "string \<Rightarrow> (string \<times> string) option" where
  "parse_str s =
     (if s \<noteq> [] \<and> hd s = QUOTE then Some ([], tl s)
      else case unquote_step s of
        None \<Rightarrow> None
      | Some (x, rest) \<Rightarrow> map_option (\<lambda>(y, r). (x @ y, r)) (parse_str rest))"
  by pat_completeness auto
termination
  by (relation "measure length") (auto dest: unquote_step_length)

declare parse_str.simps [simp del]


subsection \<open>Unmarshal: numbers and values\<close>

datatype json =
    JNull
  | JBool bool
  | JNum string
  | JStr string
  | JArr "json list"
  | JObj "(string \<times> json) list"

definition is_digit :: "char \<Rightarrow> bool" where
  "is_digit c \<longleftrightarrow> 48 \<le> byte c \<and> byte c \<le> 57"

definition is_ws :: "char \<Rightarrow> bool" where
  "is_ws c \<longleftrightarrow> byte c = 32 \<or> byte c = 9 \<or> byte c = 10 \<or> byte c = 13"

abbreviation "skip_ws \<equiv> dropWhile is_ws"

definition digits1 :: "string \<Rightarrow> (string \<times> string) option" where
  "digits1 s = (if s \<noteq> [] \<and> is_digit (hd s) then Some (takeWhile is_digit s, dropWhile is_digit s) else None)"

definition scan_int :: "string \<Rightarrow> (string \<times> string) option" where
  "scan_int s =
     (case s of
        [] \<Rightarrow> None
      | c # cs \<Rightarrow> if c = CHR ''0'' then Some ([c], cs) else digits1 s)"

definition scan_frac :: "string \<Rightarrow> (string \<times> string) option" where
  "scan_frac s =
     (case s of
        c # cs \<Rightarrow> (if c = CHR ''.'' then map_option (\<lambda>(d, r). (c # d, r)) (digits1 cs)
                   else Some ([], s))
      | [] \<Rightarrow> Some ([], s))"

definition scan_exp :: "string \<Rightarrow> (string \<times> string) option" where
  "scan_exp s =
     (case s of
        c # cs \<Rightarrow>
          (if c = CHR ''e'' \<or> c = CHR ''E'' then
             (case cs of
                g # gs \<Rightarrow>
                  (if g = CHR ''+'' \<or> g = CHR ''-''
                   then map_option (\<lambda>(d, r). (c # g # d, r)) (digits1 gs)
                   else map_option (\<lambda>(d, r). (c # d, r)) (digits1 cs))
              | [] \<Rightarrow> None)
           else Some ([], s))
      | [] \<Rightarrow> Some ([], s))"

definition scan_num :: "string \<Rightarrow> (string \<times> string) option" where
  "scan_num s =
     (let (sign, s1) = (case s of c # cs \<Rightarrow> (if c = CHR ''-'' then ([c], cs) else ([], s)) | [] \<Rightarrow> ([], s))
      in do { (i, s2) \<leftarrow> scan_int s1; (f, s3) \<leftarrow> scan_frac s2; (e, s4) \<leftarrow> scan_exp s3;
              Some (sign @ i @ f @ e, s4) })"

definition literal :: "string \<Rightarrow> json \<Rightarrow> string \<Rightarrow> (json \<times> string) option" where
  "literal w j s = (if take (length w) s = w then Some (j, drop (length w) s) else None)"

fun parse_value :: "nat \<Rightarrow> nat \<Rightarrow> string \<Rightarrow> (json \<times> string) option"
  and parse_elems :: "nat \<Rightarrow> nat \<Rightarrow> string \<Rightarrow> (json list \<times> string) option"
  and parse_members :: "nat \<Rightarrow> nat \<Rightarrow> string \<Rightarrow> ((string \<times> json) list \<times> string) option"
where
  "parse_value 0 d s = None"
| "parse_value (Suc f) d s =
     (case skip_ws s of
        [] \<Rightarrow> None
      | c # cs \<Rightarrow>
          (if c = QUOTE then map_option (\<lambda>(x, r). (JStr x, r)) (parse_str cs)
           else if c = CHR ''{'' then
             (if d = 0 then None
              else case skip_ws cs of
                [] \<Rightarrow> None
              | b # r \<Rightarrow> (if b = CHR ''}'' then Some (JObj [], r)
                          else map_option (\<lambda>(ms, r). (JObj ms, r)) (parse_members f (d - 1) cs)))
           else if c = CHR ''['' then
             (if d = 0 then None
              else case skip_ws cs of
                [] \<Rightarrow> None
              | b # r \<Rightarrow> (if b = CHR '']'' then Some (JArr [], r)
                          else map_option (\<lambda>(xs, r). (JArr xs, r)) (parse_elems f (d - 1) cs)))
           else if c = CHR ''t'' then literal ''true'' (JBool True) (c # cs)
           else if c = CHR ''f'' then literal ''false'' (JBool False) (c # cs)
           else if c = CHR ''n'' then literal ''null'' JNull (c # cs)
           else map_option (\<lambda>(n, r). (JNum n, r)) (scan_num (c # cs))))"
| "parse_elems 0 d s = None"
| "parse_elems (Suc f) d s =
     (case parse_value f d s of
        None \<Rightarrow> None
      | Some (v, r) \<Rightarrow>
          (case skip_ws r of
             [] \<Rightarrow> None
           | c # r1 \<Rightarrow>
               (if c = CHR '']'' then Some ([v], r1)
                else if c = CHR '','' then map_option (\<lambda>(xs, r). (v # xs, r)) (parse_elems f d r1)
                else None)))"
| "parse_members 0 d s = None"
| "parse_members (Suc f) d s =
     (case skip_ws s of
        [] \<Rightarrow> None
      | q # qs \<Rightarrow>
          (if q \<noteq> QUOTE then None
           else case parse_str qs of
             None \<Rightarrow> None
           | Some (k, r) \<Rightarrow>
               (case skip_ws r of
                  [] \<Rightarrow> None
                | col # r1 \<Rightarrow>
                    (if col \<noteq> CHR '':'' then None
                     else case parse_value f d r1 of
                       None \<Rightarrow> None
                     | Some (v, r2) \<Rightarrow>
                         (case skip_ws r2 of
                            [] \<Rightarrow> None
                          | c # r3 \<Rightarrow>
                              (if c = CHR ''}'' then Some ([(k, v)], r3)
                               else if c = CHR '','' then
                                 map_option (\<lambda>(ms, r). ((k, v) # ms, r)) (parse_members f d r3)
                               else None))))))"

definition max_depth :: nat where
  "max_depth = 10000"

definition parse_json :: "string \<Rightarrow> json option" where
  "parse_json s =
     (case parse_value (2 * length s + 1) max_depth s of
        Some (v, rest) \<Rightarrow> (if skip_ws rest = [] then Some v else None)
      | None \<Rightarrow> None)"

text \<open>\<open>strconv.ParseInt(s, 10, 64)\<close> on a JSON number.\<close>

definition dec_val :: "string \<Rightarrow> int" where
  "dec_val ds = foldl (\<lambda>a c. 10 * a + int (byte c - 48)) 0 ds"

definition parse_int64 :: "string \<Rightarrow> int option" where
  "parse_int64 t =
     (let (neg, ds) = (case t of c # cs \<Rightarrow> (if c = CHR ''-'' then (True, cs) else (False, t))
                             | [] \<Rightarrow> (False, t));
          n = (if neg then - dec_val ds else dec_val ds)
      in if ds \<noteq> [] \<and> list_all is_digit ds \<and> is_i64 n then Some n else None)"

subsection \<open>The fuel is enough\<close>

lemma length_skip_ws: "length (skip_ws s) \<le> length s"
  by (rule length_dropWhile_le)

lemma skip_ws_Cons: "skip_ws s = c # cs \<Longrightarrow> length cs < length s"
  using length_skip_ws [of s] by simp

lemma parse_str_length: "parse_str s = Some (x, r) \<Longrightarrow> length r < length s"
proof (induction s arbitrary: x r rule: parse_str.induct)
  case (1 s)
  show ?case
  proof (cases "s \<noteq> [] \<and> hd s = QUOTE")
    case True
    with "1.prems" show ?thesis by (subst (asm) parse_str.simps) (cases s; simp)
  next
    case False
    with "1.prems" obtain y rest z where
      u: "unquote_step s = Some (y, rest)" "parse_str rest = Some (z, r)"
      by (subst (asm) parse_str.simps) (auto split: option.splits if_splits)
    then have "length r < length rest" using "1.IH" False by blast
    with unquote_step_length [OF u(1)] show ?thesis by simp
  qed
qed

lemma digits1_length: "digits1 s = Some (d, r) \<Longrightarrow> length r < length s"
proof (cases s)
  case (Cons c cs)
  then show "digits1 s = Some (d, r) \<Longrightarrow> length r < length s"
    using length_dropWhile_le [of is_digit cs] by (auto simp: digits1_def split: if_splits)
qed (simp add: digits1_def)

lemma scan_num_length: "scan_num s = Some (n, r) \<Longrightarrow> length r < length s"
proof -
  assume a: "scan_num s = Some (n, r)"
  define s1 where "s1 = snd (case s of c # cs \<Rightarrow> (if c = CHR ''-'' then ([c], cs) else ([], s)) | [] \<Rightarrow> ([], s))"
  have s1: "length s1 \<le> length s" by (auto simp: s1_def split: list.splits)
  from a obtain i s2 f s3 e where
    i: "scan_int s1 = Some (i, s2)" and f: "scan_frac s2 = Some (f, s3)" and e: "scan_exp s3 = Some (e, r)"
    by (auto simp: scan_num_def s1_def split: bind_splits list.splits if_splits)
  have "length s2 < length s1"
    using i by (auto simp: scan_int_def split: list.splits if_splits dest: digits1_length)
  moreover have "length s3 \<le> length s2"
    using f by (auto simp: scan_frac_def split: list.splits if_splits dest: digits1_length)
  moreover have "length r \<le> length s3"
    using e by (auto simp: scan_exp_def split: list.splits if_splits dest: digits1_length)
  ultimately show ?thesis using s1 by simp
qed

lemma literal_length: "literal w j s = Some (v, r) \<Longrightarrow> w \<noteq> [] \<Longrightarrow> length r < length s"
  by (cases s) (auto simp: literal_def length_greater_0_conv [symmetric]
      simp del: length_greater_0_conv split: if_splits)

lemma parse_length_aux:
  "(\<forall>d s v r. parse_value f d s = Some (v, r) \<longrightarrow> length r < length s) \<and>
   (\<forall>d s xs r. parse_elems f d s = Some (xs, r) \<longrightarrow> length r < length s) \<and>
   (\<forall>d s ms r. parse_members f d s = Some (ms, r) \<longrightarrow> length r < length s)"
proof (induction f)
  case (Suc f)
  then have V: "\<And>d s v r. parse_value f d s = Some (v, r) \<Longrightarrow> length r < length s"
    and E: "\<And>d s xs r. parse_elems f d s = Some (xs, r) \<Longrightarrow> length r < length s"
    and M: "\<And>d s ms r. parse_members f d s = Some (ms, r) \<Longrightarrow> length r < length s"
    by blast+
  have "length r < length s" if a: "parse_value (Suc f) d s = Some (v, r)" for d s v r
  proof -
    from a obtain c cs where c: "skip_ws s = c # cs" by (auto split: list.splits)
    have "length r < length (c # cs)"
      using a c by (auto split: if_splits list.splits
        dest!: parse_str_length skip_ws_Cons scan_num_length literal_length E M)
    then show ?thesis using c length_skip_ws [of s] by simp
  qed
  moreover have "length r < length s" if "parse_elems (Suc f) d s = Some (xs, r)" for d s xs r
    using that by (auto split: if_splits list.splits option.splits dest!: skip_ws_Cons V E)
  moreover have "length r < length s" if "parse_members (Suc f) d s = Some (ms, r)" for d s ms r
    using that
    by (auto split: if_splits list.splits option.splits dest!: skip_ws_Cons parse_str_length V M)
  ultimately show ?case by blast
qed simp

lemma parse_length:
  "parse_value f d s = Some (v, r) \<Longrightarrow> length r < length s"
  "parse_elems f d s = Some (xs, r) \<Longrightarrow> length r < length s"
  "parse_members f d s = Some (ms, r) \<Longrightarrow> length r < length s"
  using parse_length_aux by blast+

text \<open>With that much fuel the result does not depend on how much there is.\<close>

lemma parse_fuel_aux:
  "(\<forall>d s g. 2 * length s < f \<and> 2 * length s < g \<longrightarrow> parse_value f d s = parse_value g d s) \<and>
   (\<forall>d s g. 2 * length s + 1 < f \<and> 2 * length s + 1 < g \<longrightarrow> parse_elems f d s = parse_elems g d s) \<and>
   (\<forall>d s g. 2 * length s + 1 < f \<and> 2 * length s + 1 < g \<longrightarrow>
      parse_members f d s = parse_members g d s)"
proof (induction f)
  case (Suc f)
  then have V: "\<And>d s g. 2 * length s < f \<Longrightarrow> 2 * length s < g \<Longrightarrow> parse_value f d s = parse_value g d s"
    and E: "\<And>d s g. 2 * length s + 1 < f \<Longrightarrow> 2 * length s + 1 < g \<Longrightarrow>
      parse_elems f d s = parse_elems g d s"
    and M: "\<And>d s g. 2 * length s + 1 < f \<Longrightarrow> 2 * length s + 1 < g \<Longrightarrow>
      parse_members f d s = parse_members g d s"
    by blast+
  have 1: "parse_value (Suc f) d s = parse_value g d s"
    if l: "2 * length s < Suc f" "2 * length s < g" for d s g
  proof -
    obtain g' where g: "g = Suc g'" using l by (cases g) auto
    show ?thesis
    proof (cases "skip_ws s")
      case (Cons c cs)
      then have "length cs < length s" by (rule skip_ws_Cons)
      with l g have em: "parse_elems f k cs = parse_elems g' k cs"
        "parse_members f k cs = parse_members g' k cs" for k
        by (intro E M; simp)+
      show ?thesis unfolding g parse_value.simps Cons list.case em ..
    next
      case Nil
      show ?thesis unfolding g parse_value.simps Nil list.case ..
    qed
  qed
  moreover have "parse_elems (Suc f) d s = parse_elems g d s"
    if l: "2 * length s + 1 < Suc f" "2 * length s + 1 < g" for d s g
  proof -
    obtain g' where g: "g = Suc g'" using l by (cases g) auto
    have v: "parse_value f d s = parse_value g' d s" using l g by (intro V) auto
    have e: "parse_elems f d r1 = parse_elems g' d r1"
      if "parse_value g' d s = Some (x, r)" "skip_ws r = c # r1" for x r c r1
      using l g parse_length(1) [OF that(1)] skip_ws_Cons [OF that(2)] by (intro E) auto
    show ?thesis by (simp add: g v e del: dropWhile_eq_Nil_conv split: option.split list.split)
  qed
  moreover have "parse_members (Suc f) d s = parse_members g d s"
    if l: "2 * length s + 1 < Suc f" "2 * length s + 1 < g" for d s g
  proof -
    obtain g' where g: "g = Suc g'" using l by (cases g) auto
    have v: "parse_value f d r1 = parse_value g' d r1"
      if "skip_ws s = q # qs" "parse_str qs = Some (k, r)" "skip_ws r = c # r1" for q qs k r c r1
      using l g skip_ws_Cons [OF that(1)] parse_str_length [OF that(2)] skip_ws_Cons [OF that(3)]
      by (intro V) auto
    have m: "parse_members f d r3 = parse_members g' d r3"
      if "skip_ws s = q # qs" "parse_str qs = Some (k, r)" "skip_ws r = c # r1"
        "parse_value g' d r1 = Some (x, r2)" "skip_ws r2 = b # r3" for q qs k r c r1 x r2 b r3
      using l g skip_ws_Cons [OF that(1)] parse_str_length [OF that(2)] skip_ws_Cons [OF that(3)]
        parse_length(1) [OF that(4)] skip_ws_Cons [OF that(5)]
      by (intro M) auto
    show ?thesis by (simp add: g v m del: dropWhile_eq_Nil_conv split: option.split list.split)
  qed
  ultimately show ?case by blast
qed simp

lemma parse_fuel: "2 * length s < f \<Longrightarrow> parse_value f d s = parse_value (2 * length s + 1) d s"
  by (rule parse_fuel_aux [of f, THEN conjunct1, rule_format]) simp

end
