(* ===== verification/JsonRoundtrip.thy ===== *)
theory JsonRoundtrip
  imports Json
begin

section \<open>What Marshal writes, Unmarshal reads\<close>

text \<open>
  Strings in valid UTF-8 and 64-bit integers survive \<open>json_quote\<close> / \<open>parse_str\<close> and
  \<open>dec_int\<close> / \<open>scan_num\<close>. A string that is not valid UTF-8 does not: Marshal replaces its bad bytes.
\<close>

subsection \<open>Strings\<close>

lemma byte_lt [simp]: "byte c < 256"
  by (simp add: byte_def)

lemma char_of_byte [simp]: "char_of (byte c) = c"
  by (simp add: byte_def)

lemma byte_char_of: "n < 256 \<Longrightarrow> byte (char_of n) = n"
  by (simp add: byte_def)

lemma byte_eq_iff: "byte c = byte d \<longleftrightarrow> c = d"
  by (metis char_of_byte)

lemma byte_eq_char: "n < 256 \<Longrightarrow> byte c = n \<longleftrightarrow> c = char_of n"
  using byte_char_of char_of_byte by metis

lemma hex_val_digit: "d < 16 \<Longrightarrow> hex_val (hex_digit d) = Some d"
proof -
  have "\<forall>d \<in> set [0..<16]. hex_val (hex_digit d) = Some d" by code_simp
  then show "d < 16 \<Longrightarrow> hex_val (hex_digit d) = Some d" by simp
qed

lemma utf8_enc_ascii: "byte c < 128 \<Longrightarrow> utf8_enc (byte c) = [c]"
  by (simp add: utf8_enc_def)

lemma unescape_u_ascii:
  assumes "byte c < 128"
  shows "unescape_u (CHR ''0'' # CHR ''0'' # hex_digit (byte c div 16) # hex_digit (byte c mod 16) # X)
    = Some ([c], X)"
proof -
  have "hex_val (CHR ''0'') = Some 0" by code_simp
  moreover have "byte c div 16 * 16 + byte c mod 16 = byte c" by simp
  ultimately have "hex4 (CHR ''0'' # CHR ''0'' # hex_digit (byte c div 16) # hex_digit (byte c mod 16) # X)
    = Some (byte c, X)"
    using assms by (simp add: hex_val_digit)
  with assms show ?thesis by (simp add: unescape_u_def surrogate_def utf8_enc_ascii)
qed

lemma unquote_esc_ascii:
  assumes "byte c < 128"
  shows "unquote_step (esc_ascii c @ X) = Some ([c], X)" "hd (esc_ascii c) \<noteq> QUOTE"
    "esc_ascii c \<noteq> []"
proof -
  have b: "byte BSLASH = 92" "byte QUOTE = 34" by code_simp+
  have "unquote_step (esc_ascii c @ X) = Some ([c], X) \<and> hd (esc_ascii c) \<noteq> QUOTE"
  proof (cases "html_safe (byte c)")
    case True
    then have "c \<noteq> BSLASH" "c \<noteq> QUOTE" using b by (auto simp: html_safe_def)
    with True show ?thesis by (simp add: esc_ascii_def unquote_step_def html_safe_def)
  next
    case False
    consider "c = BSLASH \<or> c = QUOTE" | "byte c = 8" | "byte c = 12" | "byte c = 10" | "byte c = 13"
      | "byte c = 9" | "byte c \<notin> {92, 34, 8, 12, 10, 13, 9}"
      using b byte_eq_iff by (metis insert_iff empty_iff)
    then show ?thesis
    proof cases
      case 1
      then show ?thesis using False b by (auto simp: esc_ascii_def unquote_step_def)
    next
      case 7
      then have "esc_ascii c @ X = BSLASH # CHR ''u'' # CHR ''0'' # CHR ''0'' #
          hex_digit (byte c div 16) # hex_digit (byte c mod 16) # X"
        using False by (simp add: esc_ascii_def Let_def)
      with unescape_u_ascii [OF assms, of X] b show ?thesis
        by (simp add: unquote_step_def esc_ascii_def Let_def False [simplified] 7 [simplified])
    qed (use False b char_of_byte [of c] in \<open>simp_all add: esc_ascii_def unquote_step_def\<close>)
  qed
  then show "unquote_step (esc_ascii c @ X) = Some ([c], X)" "hd (esc_ascii c) \<noteq> QUOTE" by auto
  show "esc_ascii c \<noteq> []" by (simp add: esc_ascii_def Let_def)
qed

lemma utf8_len_take:
  assumes "utf8_len s = n" "n \<noteq> 0"
  shows "utf8_len (take n s @ X) = n \<and> n \<le> length s"
proof (cases s)
  case (Cons c0 cs)
  note s = Cons
  show ?thesis
  proof (cases "byte c0 < 128")
    case True
    with s assms show ?thesis by auto
  next
    case False
    with s assms obtain c1 cs1 where c1: "cs = c1 # cs1" by (cases cs) auto
    show ?thesis
    proof (cases "194 \<le> byte c0 \<and> byte c0 \<le> 223")
      case True
      with s c1 False assms have "cont 128 191 c1" "n = 2" by (auto simp: Let_def split: if_splits)
      with s c1 True show ?thesis by simp
    next
      case F2: False
      with s c1 False assms obtain c2 cs2 where c2: "cs1 = c2 # cs2"
        by (cases cs1) (auto simp: Let_def)
      show ?thesis
      proof (cases "224 \<le> byte c0 \<and> byte c0 \<le> 239")
        case True
        with s c1 c2 F2 False assms have "n = 3" by (auto simp: Let_def split: if_splits)
        with s c1 c2 True F2 False assms show ?thesis
          by (simp add: Let_def numeral_3_eq_3 split: if_splits)
      next
        case F3: False
        with s c1 c2 F2 False assms obtain c3 cs3 where c3: "cs2 = c3 # cs3"
          by (cases cs2) (auto simp: Let_def)
        with s c1 c2 F2 F3 False assms have "n = 4" by (auto simp: Let_def split: if_splits)
        with s c1 c2 c3 F3 F2 False assms show ?thesis
          by (simp add: Let_def numeral_eq_Suc split: if_splits)
      qed
    qed
  qed
qed (use assms in simp)


lemma utf8_len_pos_multi: "128 \<le> byte c \<Longrightarrow> utf8_len (c # cs) \<noteq> 1"
  by (auto simp: Let_def split: list.splits)

lemma unquote_multi:
  assumes "128 \<le> byte c" "utf8_len (c # cs) = n" "n \<noteq> 0"
  shows "unquote_step (take n (c # cs) @ X) = Some (take n (c # cs), X)"
    "hd (take n (c # cs) @ X) \<noteq> QUOTE" "take n (c # cs) \<noteq> []"
proof -
  obtain m where m: "n = Suc m" using assms(3) by (cases n) auto
  have l: "utf8_len (c # take m cs @ X) = n" "n \<le> length (c # cs)"
    using utf8_len_take [OF assms(2,3), of X] m by (simp_all del: utf8_len.simps)
  have b: "byte BSLASH = 92" "byte QUOTE = 34" by code_simp+
  with assms(1) have "c \<noteq> BSLASH" "c \<noteq> QUOTE" by auto
  with l m assms show "unquote_step (take n (c # cs) @ X) = Some (take n (c # cs), X)"
    "hd (take n (c # cs) @ X) \<noteq> QUOTE" "take n (c # cs) \<noteq> []"
    by (simp_all add: unquote_step_def del: utf8_len.simps)
qed

lemma parse_str_step:
  assumes "unquote_step s = Some (x, r)" "hd s \<noteq> QUOTE" "parse_str r = Some (y, rest)"
  shows "parse_str s = Some (x @ y, rest)"
  using assms by (subst parse_str.simps) simp

lemma unquote_ls:
  "unquote_step ((BSLASH # ''u2028'') @ X) = Some ([CHR 0xE2, CHR 0x80, CHR 0xA8], X)"
  "unquote_step ((BSLASH # ''u2029'') @ X) = Some ([CHR 0xE2, CHR 0x80, CHR 0xA9], X)"
proof -
  have h: "hex_val (CHR ''2'') = Some 2" "hex_val (CHR ''0'') = Some 0" "hex_val (CHR ''8'') = Some 8"
    "hex_val (CHR ''9'') = Some 9" "\<not> byte BSLASH < 32"
    by code_simp+
  have "byte (CHR 0xE2) = 226" "byte (CHR 0x80) = 128" "byte (CHR 0xA8) = 168" "byte (CHR 0xA9) = 169"
    by code_simp+
  then have c: "char_of (226 :: nat) = CHR 0xE2" "char_of (128 :: nat) = CHR 0x80"
    "char_of (168 :: nat) = CHR 0xA8" "char_of (169 :: nat) = CHR 0xA9"
    by (metis char_of_byte)+
  have e: "utf8_enc 8232 = [CHR 0xE2, CHR 0x80, CHR 0xA8]" "utf8_enc 8233 = [CHR 0xE2, CHR 0x80, CHR 0xA9]"
    by (simp_all add: utf8_enc_def c)
  show "unquote_step ((BSLASH # ''u2028'') @ X) = Some ([CHR 0xE2, CHR 0x80, CHR 0xA8], X)"
    "unquote_step ((BSLASH # ''u2029'') @ X) = Some ([CHR 0xE2, CHR 0x80, CHR 0xA9], X)"
    by (simp_all add: unquote_step_def unescape_u_def surrogate_def h e)
qed

lemma parse_str_quote_body:
  "valid_utf8 s \<Longrightarrow> parse_str (quote_body s @ QUOTE # rest) = Some (s, rest)"
proof (induction s rule: quote_body.induct)
  case (1 s)
  show ?case
  proof (cases s)
    case Nil
    then show ?thesis by (subst parse_str.simps) (simp add: quote_body.simps)
  next
    case (Cons c cs)
    let ?n = "utf8_len s"
    have n: "?n \<noteq> 0" "valid_utf8 (drop ?n s)"
      using valid_utf8.simps [of s] "1.prems" Cons
      by (simp_all del: utf8_len.simps split: if_splits)
    show ?thesis
    proof (cases "byte c < 128")
      case True
      then have "?n = 1" using Cons by simp
      then have ih: "parse_str (quote_body cs @ QUOTE # rest) = Some (cs, rest)"
        using "1.IH"(1) [OF Cons True] n Cons by simp
      have "quote_body s @ QUOTE # rest = esc_ascii c @ quote_body cs @ QUOTE # rest"
        using Cons True by (subst quote_body.simps) simp
      with parse_str_step [OF unquote_esc_ascii(1) [OF True] _ ih] unquote_esc_ascii(2,3) [OF True] Cons
      show ?thesis by simp
    next
      case False
      then have c: "128 \<le> byte c" by simp
      have ls: "?n = 3" if "take 3 s = [CHR 0xE2, CHR 0x80, x]" "x \<in> {CHR 0xA8, CHR 0xA9}" for x
      proof -
        from that obtain t where "s = [CHR 0xE2, CHR 0x80, x] @ t"
          by (metis append_take_drop_id)
        moreover have "byte (CHR 0xE2) = 226" "byte (CHR 0x80) = 128" "byte (CHR 0xA8) = 168"
          "byte (CHR 0xA9) = 169" by code_simp+
        ultimately show ?thesis using that(2) by (auto simp: cont_def)
      qed
      have hq: "hd ((BSLASH # X) @ Y) \<noteq> QUOTE" for X Y by simp
      show ?thesis
      proof (cases "take 3 s = [CHR 0xE2, CHR 0x80, CHR 0xA8] \<or> take 3 s = [CHR 0xE2, CHR 0x80, CHR 0xA9]")
        case True
        then obtain x where x: "take 3 s = [CHR 0xE2, CHR 0x80, x]" "x \<in> {CHR 0xA8, CHR 0xA9}" by auto
        have n3: "?n = 3" using ls [OF x] .
        have ih: "parse_str (quote_body (drop 3 s) @ QUOTE # rest) = Some (drop 3 s, rest)"
          using "1.IH" Cons False n n3 x True by (metis (no_types, lifting))
        have q: "quote_body s = (if x = CHR 0xA8 then BSLASH # ''u2028'' else BSLASH # ''u2029'')
            @ quote_body (drop 3 s)"
          using Cons False n x by (subst quote_body.simps) (auto simp del: utf8_len.simps)
        have "unquote_step ((if x = CHR 0xA8 then BSLASH # ''u2028'' else BSLASH # ''u2029'') @ X)
            = Some (take 3 s, X)" for X
          using x unquote_ls [of X] by auto
        then have "parse_str (quote_body s @ QUOTE # rest) = Some (take 3 s @ drop 3 s, rest)"
          unfolding q append_assoc by (rule parse_str_step [OF _ _ ih]) simp
        then show ?thesis by simp
      next
        case F: False
        have ih: "parse_str (quote_body (drop ?n s) @ QUOTE # rest) = Some (drop ?n s, rest)"
          using "1.IH" Cons False n F by (metis (no_types, lifting))
        have q: "quote_body s = take ?n s @ quote_body (drop ?n s)"
          using Cons False n F by (subst quote_body.simps) (auto simp del: utf8_len.simps)
        have u: "unquote_step (take ?n s @ X) = Some (take ?n s, X)" "hd (take ?n s @ X) \<noteq> QUOTE" for X
          using unquote_multi(1,2) [OF c, of cs ?n X] n(1) Cons by blast+
        have "parse_str (quote_body s @ QUOTE # rest) = Some (take ?n s @ drop ?n s, rest)"
          unfolding q append_assoc by (rule parse_str_step [OF u ih])
        then show ?thesis by simp
      qed
    qed
  qed
qed


subsection \<open>Numbers\<close>

lemma digit_char_byte: "d < 10 \<Longrightarrow> byte (digit_char d) = 48 + d"
proof -
  have "\<forall>d \<in> set [0..<10]. byte (digit_char d) = 48 + d" by code_simp
  then show "d < 10 \<Longrightarrow> byte (digit_char d) = 48 + d" by simp
qed

lemma is_digit_digit_char: "d < 10 \<Longrightarrow> is_digit (digit_char d)"
  by (simp add: is_digit_def digit_char_byte)

lemma dec_nat_digits: "list_all is_digit (dec_nat n) \<and> dec_nat n \<noteq> []"
proof (induction n rule: dec_nat.induct)
  case (1 n)
  then show ?case
    by (subst (1 2) dec_nat.simps) (simp add: is_digit_digit_char)
qed

lemma dec_nat_no_leading_zero: "0 < n \<Longrightarrow> 48 < byte (hd (dec_nat n))"
proof (induction n rule: dec_nat.induct)
  case (1 n)
  show ?case
  proof (cases "n < 10")
    case True
    with "1.prems" show ?thesis by (subst dec_nat.simps) (simp add: digit_char_byte)
  next
    case False
    with "1.IH" dec_nat_digits [of "n div 10"] show ?thesis by (subst dec_nat.simps) simp
  qed
qed

lemma dec_val_append: "dec_val (xs @ [c]) = 10 * dec_val xs + int (byte c - 48)"
  by (simp add: dec_val_def)

lemma dec_val_dec_nat: "dec_val (dec_nat n) = int n"
proof (induction n rule: dec_nat.induct)
  case (1 n)
  show ?case
  proof (cases "n < 10")
    case True
    then show ?thesis by (subst dec_nat.simps) (simp add: dec_val_def digit_char_byte)
  next
    case False
    have "10 * (int n div 10) + int n mod 10 = int n" by simp
    with False "1.IH" show ?thesis
      by (subst dec_nat.simps) (simp add: dec_val_append digit_char_byte zdiv_int zmod_int)
  qed
qed

lemma minus_no_digit: "\<not> is_digit (CHR ''-'')"
  by code_simp

lemma parse_int64_dec: "is_i64 i \<Longrightarrow> parse_int64 (dec_int i) = Some i"
proof -
  assume i: "is_i64 i"
  have d: "dec_nat n \<noteq> [] \<and> list_all is_digit (dec_nat n) \<and> hd (dec_nat n) \<noteq> CHR ''-''" for n
    using dec_nat_digits [of n] minus_no_digit by (cases "dec_nat n") auto
  show ?thesis
  proof (cases "i < 0")
    case True
    with i d [of "nat (- i)"] show ?thesis
      by (simp add: parse_int64_def dec_int_def dec_val_dec_nat)
  next
    case False
    then have "dec_val (dec_nat (nat i)) = i" by (simp add: dec_val_dec_nat)
    with False i d [of "nat i"] show ?thesis
      by (cases "dec_nat (nat i)") (auto simp: parse_int64_def dec_int_def Let_def)
  qed
qed

text \<open>What may follow a number in the text Marshal writes.\<close>

definition num_end :: "string \<Rightarrow> bool" where
  "num_end rest \<longleftrightarrow> rest = [] \<or> hd rest = CHR '','' \<or> hd rest = CHR ''}''"

lemma scan_digits:
  assumes "list_all is_digit ds" "ds \<noteq> []" "num_end rest"
  shows "digits1 (ds @ rest) = Some (ds, rest)"
proof -
  have "\<not> is_digit (CHR '','')" "\<not> is_digit (CHR ''}'')" by code_simp+
  with assms(3) have "takeWhile is_digit rest = []" "dropWhile is_digit rest = rest"
    by (cases rest; auto simp: num_end_def)+
  with assms show ?thesis
    by (cases ds) (auto simp: digits1_def list_all_iff takeWhile_append2 dropWhile_append2)
qed

lemma scan_int_dec:
  assumes "num_end rest"
  shows "scan_int (dec_nat n @ rest) = Some (dec_nat n, rest)"
proof (cases "n = 0")
  case True
  have "dec_nat 0 = ''0''" by code_simp
  with True show ?thesis by (simp add: scan_int_def)
next
  case False
  obtain c cs where c: "dec_nat n = c # cs" using dec_nat_digits [of n] by (cases "dec_nat n") auto
  have "byte (CHR ''0'') = 48" by code_simp
  with False dec_nat_no_leading_zero [of n] c have "c \<noteq> CHR ''0''" by auto
  with c dec_nat_digits [of n] scan_digits [OF _ _ assms, of "dec_nat n"] show ?thesis
    by (simp add: scan_int_def)
qed

lemma scan_num_dec:
  assumes "num_end rest"
  shows "scan_num (dec_int i @ rest) = Some (dec_int i, rest)"
proof -
  have fe: "scan_frac rest = Some ([], rest)" "scan_exp rest = Some ([], rest)"
    using assms by (cases rest; auto simp: num_end_def scan_frac_def scan_exp_def)+
  show ?thesis
  proof (cases "i < 0")
    case True
    with fe scan_int_dec [OF assms] show ?thesis by (simp add: scan_num_def dec_int_def)
  next
    case False
    obtain c cs where c: "dec_nat (nat i) = c # cs" "c \<noteq> CHR ''-''"
      using dec_nat_digits [of "nat i"] minus_no_digit by (cases "dec_nat (nat i)") auto
    with fe scan_int_dec [OF assms, of "nat i"] False show ?thesis
      by (simp add: scan_num_def dec_int_def)
  qed
qed

lemma parse_value_num:
  assumes "num_end rest"
  shows "parse_value (Suc f) d (dec_int i @ rest) = Some (JNum (dec_int i), rest)"
proof -
  obtain c cs where c: "dec_int i = c # cs" "is_digit c \<or> c = CHR ''-''"
    using dec_nat_digits [of "nat i"]
    by (cases "i < 0"; cases "dec_nat (nat i)") (auto simp: dec_int_def)
  have "\<not> is_digit QUOTE" "\<not> is_digit (CHR ''{'')" "\<not> is_digit (CHR ''['')" "\<not> is_digit (CHR ''t'')"
    "\<not> is_digit (CHR ''f'')" "\<not> is_digit (CHR ''n'')" "\<not> is_ws (CHR ''-'')" by code_simp+
  moreover have "\<not> is_ws c" if "is_digit c" using that by (auto simp: is_ws_def is_digit_def)
  ultimately show ?thesis using c scan_num_dec [OF assms, of i] by auto
qed

lemma parse_value_str:
  assumes "valid_utf8 s"
  shows "parse_value (Suc f) d (json_quote s @ rest) = Some (JStr s, rest)"
proof -
  have "\<not> is_ws QUOTE" by code_simp
  then show ?thesis
    using parse_str_quote_body [OF assms, of rest] by (simp add: json_quote_def)
qed

end
