(* ===== verification/LeaseCodec.thy ===== *)
theory LeaseCodec
  imports LeaseRecord JsonRoundtrip
begin

section \<open>Message values (lease/record.go: EncodeValue, DecodeValue)\<close>

text \<open>
  The wire format of a record and its two translations, over the bytes of the message value.
  What the rest of the program relies on (a value that was encoded decodes to the same record, up
  to the milliseconds of its TTL) is the interface \<open>value_codec\<close>.
\<close>

subsection \<open>The wire record\<close>

record wire_record =
  w_Version :: int
  w_Kind :: string
  w_Holder :: string
  w_Epoch :: int
  w_TTLMs :: int

definition wireVersion :: int where
  "wireVersion = 1"

definition zero_wire :: wire_record where
  "zero_wire = \<lparr>w_Version = 0, w_Kind = [], w_Holder = [], w_Epoch = 0, w_TTLMs = 0\<rparr>"

text \<open>\<open>json.Marshal\<close> of a \<open>wireRecord\<close>: fields in order, \<open>epoch\<close> and \<open>ttl_ms\<close> omitted when 0.\<close>

definition json_key :: "string \<Rightarrow> string" where
  "json_key k = QUOTE # k @ [QUOTE, CHR '':'']"

definition marshal_wire :: "wire_record \<Rightarrow> string" where
  "marshal_wire w =
     CHR ''{'' # json_key ''v'' @ dec_int (w_Version w) @
     CHR '','' # json_key ''kind'' @ json_quote (w_Kind w) @
     CHR '','' # json_key ''holder'' @ json_quote (w_Holder w) @
     (if w_Epoch w = 0 then [] else CHR '','' # json_key ''epoch'' @ dec_int (w_Epoch w)) @
     (if w_TTLMs w = 0 then [] else CHR '','' # json_key ''ttl_ms'' @ dec_int (w_TTLMs w)) @ ''}''"

text \<open>
  Unmarshal matches an object's keys to the fields by case folding. Two characters outside ASCII
  fold to an ASCII letter: the Kelvin sign to K and the long s to S.
\<close>

function fold_key :: "string \<Rightarrow> string" where
  "fold_key s =
     (case s of
        [] \<Rightarrow> []
      | c # cs \<Rightarrow>
         (if 97 \<le> byte c \<and> byte c \<le> 122 then char_of (byte c - 32) # fold_key cs
          else if take 3 s = [CHR 0xE2, CHR 0x84, CHR 0xAA] then CHR ''K'' # fold_key (drop 3 s)
          else if take 2 s = [CHR 0xC5, CHR 0xBF] then CHR ''S'' # fold_key (drop 2 s)
          else c # fold_key cs))"
  by pat_completeness auto
termination
  by (relation "measure length") auto

declare fold_key.simps [simp del]

text \<open>
  A \<open>null\<close> leaves a field as it is; a value of another type is an error (Unmarshal goes on and
  reports it at the end; DecodeValue then drops what was read, so \<open>None\<close> here ends it).
\<close>

definition set_int :: "json \<Rightarrow> int \<Rightarrow> int option" where
  "set_int j old = (case j of JNull \<Rightarrow> Some old | JNum t \<Rightarrow> parse_int64 t | _ \<Rightarrow> None)"

definition set_string :: "json \<Rightarrow> string \<Rightarrow> string option" where
  "set_string j old = (case j of JNull \<Rightarrow> Some old | JStr t \<Rightarrow> Some t | _ \<Rightarrow> None)"

definition set_field :: "string \<Rightarrow> json \<Rightarrow> wire_record \<Rightarrow> wire_record option" where
  "set_field k j w =
     (let u = fold_key k in
      if u = ''V'' then map_option (\<lambda>x. w\<lparr>w_Version := x\<rparr>) (set_int j (w_Version w))
      else if u = ''KIND'' then map_option (\<lambda>x. w\<lparr>w_Kind := x\<rparr>) (set_string j (w_Kind w))
      else if u = ''HOLDER'' then map_option (\<lambda>x. w\<lparr>w_Holder := x\<rparr>) (set_string j (w_Holder w))
      else if u = ''EPOCH'' then map_option (\<lambda>x. w\<lparr>w_Epoch := x\<rparr>) (set_int j (w_Epoch w))
      else if u = ''TTL_MS'' then map_option (\<lambda>x. w\<lparr>w_TTLMs := x\<rparr>) (set_int j (w_TTLMs w))
      else Some w)"

fun set_fields :: "(string \<times> json) list \<Rightarrow> wire_record \<Rightarrow> wire_record option" where
  "set_fields [] w = Some w"
| "set_fields ((k, j) # kjs) w =
     (case set_field k j w of None \<Rightarrow> None | Some w' \<Rightarrow> set_fields kjs w')"

definition unmarshal_wire :: "string \<Rightarrow> wire_record option" where
  "unmarshal_wire b =
     (case parse_json b of
        Some (JObj kjs) \<Rightarrow> set_fields kjs zero_wire
      | Some JNull \<Rightarrow> Some zero_wire
      | _ \<Rightarrow> None)"

subsection \<open>EncodeValue and DecodeValue\<close>

datatype record_error =
    CannotEncode kind
  | EmptyHolder
  | DecodeFailed
  | UnsupportedVersion int
  | UnknownKind string

definition EncodeValue :: "lrecord \<Rightarrow> record_error + string" where
  "EncodeValue r =
     (if \<not> known_kind (r_Kind r) then Inl (CannotEncode (r_Kind r))
      else if r_Holder r = [] then Inl EmptyHolder
      else
        let w = \<lparr>w_Version = wireVersion, w_Kind = kind_String (r_Kind r), w_Holder = r_Holder r,
                 w_Epoch = 0, w_TTLMs = Milliseconds (r_TTL r)\<rparr>
        in Inr (marshal_wire (if r_Kind r \<noteq> Claim then w\<lparr>w_Epoch := r_Epoch r\<rparr> else w)))"

definition kind_of_wire :: "string \<Rightarrow> kind option" where
  "kind_of_wire s =
     (if s = ''claim'' then Some Claim
      else if s = ''renew'' then Some Renew
      else if s = ''release'' then Some Release
      else None)"

definition DecodeValue :: "string \<Rightarrow> record_error + lrecord" where
  "DecodeValue b =
     (case unmarshal_wire b of
        None \<Rightarrow> Inl DecodeFailed
      | Some w \<Rightarrow>
         (if w_Version w \<noteq> wireVersion then Inl (UnsupportedVersion (w_Version w))
          else case kind_of_wire (w_Kind w) of
             None \<Rightarrow> Inl (UnknownKind (w_Kind w))
           | Some k \<Rightarrow>
              (if w_Holder w = [] then Inl EmptyHolder
               else Inr \<lparr>r_Offset = 0, r_Timestamp = time_zero, r_Kind = k, r_Holder = w_Holder w,
                         r_Epoch = (if k = Claim then 0 else w_Epoch w),
                         r_TTL = i64_mul (w_TTLMs w) Millisecond\<rparr>)))"

subsection \<open>The text Marshal writes, member by member\<close>

text \<open>The keys of the wire record, as Marshal writes them, read back.\<close>

definition plain_key :: "string \<Rightarrow> bool" where
  "plain_key k \<longleftrightarrow> list_all (\<lambda>c. html_safe (byte c)) k"

lemma plain_key_quote: "plain_key k \<Longrightarrow> quote_body k = k \<and> valid_utf8 k"
proof (induction k)
  case Nil
  show ?case by (simp add: quote_body.simps valid_utf8.simps)
next
  case (Cons c cs)
  then have "html_safe (byte c)" "byte c < 128" and cs: "quote_body cs = cs" "valid_utf8 cs"
    by (auto simp: plain_key_def html_safe_def)
  then show ?case
    by (simp add: quote_body.simps [of "c # cs"] valid_utf8.simps [of "c # cs"] esc_ascii_def)
qed

lemma parse_str_key: "plain_key k \<Longrightarrow> parse_str (k @ QUOTE # rest) = Some (k, rest)"
  using parse_str_quote_body [of k rest] plain_key_quote [of k] by simp

lemma keys_plain:
  "plain_key ''v''" "plain_key ''kind''" "plain_key ''holder''" "plain_key ''epoch''"
  "plain_key ''ttl_ms''"
  by code_simp+

lemma no_ws: "\<not> is_ws QUOTE" "\<not> is_ws (CHR '':'')" "\<not> is_ws (CHR '','')" "\<not> is_ws (CHR ''}'')"
    "\<not> is_ws (CHR ''{'')"
  by code_simp+

text \<open>One member, followed by another or by the end of the object.\<close>

lemma parse_members_more:
  assumes "plain_key k" "parse_value f d (x @ CHR '','' # rest) = Some (v, CHR '','' # rest)"
  shows "parse_members (Suc f) d (json_key k @ x @ CHR '','' # rest) =
    map_option (\<lambda>(ms, r). ((k, v) # ms, r)) (parse_members f d rest)"
  using assms(2) parse_str_key [OF assms(1)] no_ws by (simp add: json_key_def)

lemma parse_members_last:
  assumes "plain_key k" "parse_value f d (x @ CHR ''}'' # rest) = Some (v, CHR ''}'' # rest)"
  shows "parse_members (Suc f) d (json_key k @ x @ CHR ''}'' # rest) = Some ([(k, v)], rest)"
  using assms(2) parse_str_key [OF assms(1)] no_ws by (simp add: json_key_def)


text \<open>An object's members as text: key, text of the value.\<close>

fun members_text :: "(string \<times> string) list \<Rightarrow> string" where
  "members_text [] = ''}''"
| "members_text [(k, x)] = json_key k @ x @ ''}''"
| "members_text ((k, x) # ms) = json_key k @ x @ CHR '','' # members_text ms"

text \<open>A member whose text reads back as its value, whatever may follow it.\<close>

definition member_ok :: "(string \<times> string) \<Rightarrow> json \<Rightarrow> bool" where
  "member_ok m v \<longleftrightarrow> plain_key (fst m) \<and>
     (\<forall>f d rest. num_end rest \<longrightarrow> parse_value (Suc f) d (snd m @ rest) = Some (v, rest))"

lemma parse_members_text:
  "list_all2 member_ok ms vs \<Longrightarrow> ms \<noteq> [] \<Longrightarrow> length ms < f \<Longrightarrow>
     parse_members f d (members_text ms) = Some (zip (map fst ms) vs, [])"
proof (induction ms arbitrary: vs f rule: members_text.induct)
  case (2 k x)
  then obtain v where v: "vs = [v]" "member_ok (k, x) v" by (auto simp: list_all2_Cons1)
  obtain g where g: "f = Suc (Suc g)" using 2(3) by (intro that [of "f - 2"]) auto
  have "parse_value (Suc g) d (x @ ''}'') = Some (v, ''}'')"
    using v(2) by (simp add: member_ok_def num_end_def)
  with parse_members_last [of k "Suc g" d x "[]" v] v g show ?case
    by (simp add: member_ok_def)
next
  case (3 k x m ms)
  then obtain v ws where v: "vs = v # ws" "member_ok (k, x) v" "list_all2 member_ok (m # ms) ws"
    by (auto simp: list_all2_Cons1)
  obtain g where g: "f = Suc (Suc g)" using 3(4) by (intro that [of "f - 2"]) auto
  let ?t = "members_text (m # ms)"
  have "parse_value (Suc g) d (x @ CHR '','' # ?t) = Some (v, CHR '','' # ?t)"
    using v(2) by (simp add: member_ok_def num_end_def)
  from parse_members_more [OF _ this, of k] v(2)
  have "parse_members f d (members_text ((k, x) # m # ms)) =
      map_option (\<lambda>(ms, r). ((k, v) # ms, r)) (parse_members (Suc g) d ?t)"
    by (simp add: g member_ok_def)
  also have "parse_members (Suc g) d ?t = Some (zip (map fst (m # ms)) ws, [])"
    by (rule 3(1) [OF v(3)]) (use 3(4) g in simp_all)
  finally show ?case using v(1) by simp
qed simp

lemma length_members_text: "ms \<noteq> [] \<Longrightarrow> length ms < length (members_text ms)"
  by (induction ms rule: members_text.induct) (auto simp: json_key_def)

lemma members_text_Cons: "ms \<noteq> [] \<Longrightarrow> \<exists>t. members_text ms = QUOTE # t"
  by (cases ms rule: members_text.cases) (auto simp: json_key_def)

lemma parse_json_object:
  assumes "list_all2 member_ok ms vs" "ms \<noteq> []"
  shows "parse_json (CHR ''{'' # members_text ms) = Some (JObj (zip (map fst ms) vs))"
proof -
  let ?t = "members_text ms"
  obtain t where t: "?t = QUOTE # t" using members_text_Cons [OF assms(2)] by blast
  have p: "parse_members f d ?t = Some (zip (map fst ms) vs, [])" if "length ?t \<le> f" for f d
    using parse_members_text [OF assms] length_members_text [OF assms(2)] that by simp
  have "parse_value (2 * length (CHR ''{'' # ?t) + 1) max_depth (CHR ''{'' # ?t) =
      Some (JObj (zip (map fst ms) vs), [])"
    using p [of "2 * length (CHR ''{'' # ?t)" "max_depth - 1"] no_ws t
    by (simp add: max_depth_def)
  then show ?thesis by (simp add: parse_json_def)
qed

definition wire_members :: "wire_record \<Rightarrow> (string \<times> string) list" where
  "wire_members w =
     [(''v'', dec_int (w_Version w)), (''kind'', json_quote (w_Kind w)),
      (''holder'', json_quote (w_Holder w))] @
     (if w_Epoch w = 0 then [] else [(''epoch'', dec_int (w_Epoch w))]) @
     (if w_TTLMs w = 0 then [] else [(''ttl_ms'', dec_int (w_TTLMs w))])"

definition wire_values :: "wire_record \<Rightarrow> json list" where
  "wire_values w =
     [JNum (dec_int (w_Version w)), JStr (w_Kind w), JStr (w_Holder w)] @
     (if w_Epoch w = 0 then [] else [JNum (dec_int (w_Epoch w))]) @
     (if w_TTLMs w = 0 then [] else [JNum (dec_int (w_TTLMs w))])"

lemma marshal_wire_members: "marshal_wire w = CHR ''{'' # members_text (wire_members w)"
  by (simp add: marshal_wire_def wire_members_def)

lemma member_ok_num: "plain_key k \<Longrightarrow> member_ok (k, dec_int i) (JNum (dec_int i))"
  by (simp add: member_ok_def parse_value_num del: parse_value.simps)

lemma member_ok_str: "plain_key k \<Longrightarrow> valid_utf8 s \<Longrightarrow> member_ok (k, json_quote s) (JStr s)"
  by (simp add: member_ok_def parse_value_str del: parse_value.simps)

lemma parse_json_marshal:
  assumes "valid_utf8 (w_Kind w)" "valid_utf8 (w_Holder w)"
  shows "parse_json (marshal_wire w) = Some (JObj (zip (map fst (wire_members w)) (wire_values w)))"
  unfolding marshal_wire_members
  using assms keys_plain
  by (intro parse_json_object) (auto simp: wire_members_def wire_values_def member_ok_num member_ok_str)

lemma set_field_keys:
  "set_field ''v'' j w = map_option (\<lambda>x. w\<lparr>w_Version := x\<rparr>) (set_int j (w_Version w))"
  "set_field ''kind'' j w = map_option (\<lambda>x. w\<lparr>w_Kind := x\<rparr>) (set_string j (w_Kind w))"
  "set_field ''holder'' j w = map_option (\<lambda>x. w\<lparr>w_Holder := x\<rparr>) (set_string j (w_Holder w))"
  "set_field ''epoch'' j w = map_option (\<lambda>x. w\<lparr>w_Epoch := x\<rparr>) (set_int j (w_Epoch w))"
  "set_field ''ttl_ms'' j w = map_option (\<lambda>x. w\<lparr>w_TTLMs := x\<rparr>) (set_int j (w_TTLMs w))"
proof -
  have "fold_key ''v'' = ''V''" "fold_key ''kind'' = ''KIND''" "fold_key ''holder'' = ''HOLDER''"
    "fold_key ''epoch'' = ''EPOCH''" "fold_key ''ttl_ms'' = ''TTL_MS''"
    by code_simp+
  then show "set_field ''v'' j w = map_option (\<lambda>x. w\<lparr>w_Version := x\<rparr>) (set_int j (w_Version w))"
  "set_field ''kind'' j w = map_option (\<lambda>x. w\<lparr>w_Kind := x\<rparr>) (set_string j (w_Kind w))"
  "set_field ''holder'' j w = map_option (\<lambda>x. w\<lparr>w_Holder := x\<rparr>) (set_string j (w_Holder w))"
  "set_field ''epoch'' j w = map_option (\<lambda>x. w\<lparr>w_Epoch := x\<rparr>) (set_int j (w_Epoch w))"
  "set_field ''ttl_ms'' j w = map_option (\<lambda>x. w\<lparr>w_TTLMs := x\<rparr>) (set_int j (w_TTLMs w))"
    by (simp_all add: set_field_def)
qed

text \<open>A wire record survives Marshal and Unmarshal.\<close>

lemma unmarshal_marshal:
  assumes "valid_utf8 (w_Kind w)" "valid_utf8 (w_Holder w)"
    and "is_i64 (w_Version w)" "is_i64 (w_Epoch w)" "is_i64 (w_TTLMs w)"
  shows "unmarshal_wire (marshal_wire w) = Some w"
  using assms(3-5)
  by (simp add: unmarshal_wire_def parse_json_marshal [OF assms(1,2)] wire_members_def
      wire_values_def set_field_keys set_int_def set_string_def parse_int64_dec zero_wire_def)


subsection \<open>The interface to the rest of the program\<close>

text \<open>
  What writers and readers rely on: an encodable record has a value, and that value decodes to
  what the record carries.
\<close>

locale value_codec =
  fixes encode :: "'r \<Rightarrow> 'e + string"
    and decode :: "string \<Rightarrow> 'f + 'r"
    and encodable :: "'r \<Rightarrow> bool"
    and carried :: "'r \<Rightarrow> 'r"
  assumes encode_total: "encodable r \<Longrightarrow> \<exists>b. encode r = Inr b"
    and decode_encode: "encodable r \<Longrightarrow> encode r = Inr b \<Longrightarrow> decode b = Inr (carried r)"
begin

text \<open>A reader of an encoded value learns what the record carries.\<close>

lemma encode_decode: "encodable r \<Longrightarrow> \<exists>b. encode r = Inr b \<and> decode b = Inr (carried r)"
  using encode_total decode_encode by blast

text \<open>Values tell records apart by what they carry.\<close>

lemma encode_inj:
  "encodable r \<Longrightarrow> encodable q \<Longrightarrow> encode r = encode q \<Longrightarrow> carried r = carried q"
  using encode_decode decode_encode by (metis sum.inject(2))

end

text \<open>A record that survives: a known kind, a holder in valid UTF-8, 64-bit numbers.\<close>

definition encodable :: "lrecord \<Rightarrow> bool" where
  "encodable r \<longleftrightarrow>
     known_kind (r_Kind r) \<and> r_Holder r \<noteq> [] \<and> valid_utf8 (r_Holder r) \<and>
     is_i64 (r_Epoch r) \<and> is_i64 (r_TTL r)"

text \<open>What the value carries: no offset, no timestamp, no epoch for a claim, whole milliseconds.\<close>

definition carried :: "lrecord \<Rightarrow> lrecord" where
  "carried r =
     r\<lparr>r_Offset := 0, r_Timestamp := time_zero, r_Epoch := (if r_Kind r = Claim then 0 else r_Epoch r),
       r_TTL := Milliseconds (r_TTL r) * Millisecond\<rparr>"

lemma Milliseconds_i64:
  assumes "is_i64 d"
  shows "is_i64 (Milliseconds d)" "is_i64 (Milliseconds d * Millisecond)"
proof -
  define q where "q = \<bar>d\<bar> div Millisecond"
  have q: "0 \<le> q" "q * Millisecond \<le> \<bar>d\<bar>" "q \<le> \<bar>d\<bar>"
    by (auto simp: q_def Millisecond_def)
  have "Milliseconds d = sgn d * q"
    by (simp add: Milliseconds_def i64_div_def signed_divide_int_def q_def Millisecond_def)
  then show "is_i64 (Milliseconds d)" "is_i64 (Milliseconds d * Millisecond)"
    using assms q
    by (auto simp: is_i64_def i64_min_def i64_max_def sgn_if Millisecond_def split: if_splits)
qed

lemma kind_String_utf8: "known_kind k \<Longrightarrow> valid_utf8 (kind_String k)"
proof -
  have "plain_key ''claim''" "plain_key ''renew''" "plain_key ''release''" by code_simp+
  then show "known_kind k \<Longrightarrow> valid_utf8 (kind_String k)"
    using plain_key_quote by (cases k) auto
qed

lemma kind_of_wire_String: "known_kind k \<Longrightarrow> kind_of_wire (kind_String k) = Some k"
  by (cases k) (auto simp: kind_of_wire_def)

interpretation codec: value_codec EncodeValue DecodeValue encodable carried
proof unfold_locales
  show "encodable r \<Longrightarrow> \<exists>b. EncodeValue r = Inr b" for r
    by (simp add: encodable_def EncodeValue_def Let_def)
next
  fix r b
  assume r: "encodable r" and b: "EncodeValue r = Inr b"
  define w where "w = \<lparr>w_Version = wireVersion, w_Kind = kind_String (r_Kind r), w_Holder = r_Holder r,
     w_Epoch = (if r_Kind r \<noteq> Claim then r_Epoch r else 0), w_TTLMs = Milliseconds (r_TTL r)\<rparr>"
  have "b = marshal_wire w"
    using r b by (auto simp: encodable_def EncodeValue_def Let_def w_def split: if_splits)
  moreover have "unmarshal_wire (marshal_wire w) = Some w"
    using r kind_String_utf8 Milliseconds_i64
    by (intro unmarshal_marshal)
      (auto simp: w_def encodable_def wireVersion_def is_i64_def i64_min_def i64_max_def)
  ultimately show "DecodeValue b = Inr (carried r)"
    using r Milliseconds_i64(2) [of "r_TTL r"]
    by (simp add: DecodeValue_def w_def encodable_def kind_of_wire_String carried_def i64_mul_exact)
qed

text \<open>The value of an encodable record.\<close>

definition value_of :: "lrecord \<Rightarrow> string" where
  "value_of r = (case EncodeValue r of Inr b \<Rightarrow> b | Inl _ \<Rightarrow> [])"

lemma encode_value_of: "encodable r \<Longrightarrow> EncodeValue r = Inr (value_of r)"
  using codec.encode_total [of r] by (auto simp: value_of_def)

lemma decode_value_of: "encodable r \<Longrightarrow> DecodeValue (value_of r) = Inr (carried r)"
  using codec.decode_encode [OF _ encode_value_of] .

subsection \<open>Properties\<close>

text \<open>C14: a record that a participant can write (known kind, holder in valid UTF-8) is encoded,
  and its value decodes to the same kind and holder, the same epoch unless it is a claim, and the
  TTL truncated to whole milliseconds.\<close>
theorem encode_decode_roundtrip:
  assumes "encodable r"
  shows "\<exists>b. EncodeValue r = Inr b \<and> DecodeValue b = Inr (carried r)"
  by (rule codec.encode_decode [OF assms])

theorem encode_decode_roundtrip_witness:
  "\<exists>b. EncodeValue \<lparr>r_Offset = 9, r_Timestamp = 5, r_Kind = Renew, r_Holder = ''pod/1'', r_Epoch = 7,
                   r_TTL = 10 * Second\<rparr> = Inr b \<and>
       DecodeValue b = Inr \<lparr>r_Offset = 0, r_Timestamp = 0, r_Kind = Renew, r_Holder = ''pod/1'',
                            r_Epoch = 7, r_TTL = 10 * Second\<rparr>"
proof -
  let ?r = "\<lparr>r_Offset = 9, r_Timestamp = 5, r_Kind = Renew, r_Holder = ''pod/1'', r_Epoch = 7,
             r_TTL = 10 * Second\<rparr>"
  have "plain_key ''pod/1''" by code_simp
  then have e: "encodable ?r"
    using plain_key_quote
    by (simp add: encodable_def is_i64_def i64_min_def i64_max_def Second_def)
  have "carried ?r = \<lparr>r_Offset = 0, r_Timestamp = 0, r_Kind = Renew, r_Holder = ''pod/1'',
      r_Epoch = 7, r_TTL = 10 * Second\<rparr>"
    by (simp add: carried_def Milliseconds_def Second_def Millisecond_def time_zero_def go_simps)
  with encode_decode_roundtrip [OF e] show ?thesis by simp
qed

text \<open>Whatever bytes are on the topic, a value that decodes at all is a claim, renew or release
  with a holder, claims carry epoch 0, and the TTL is a 64-bit duration; everything else is an error.\<close>
lemma decode_sound:
  "case DecodeValue b of
     Inl e \<Rightarrow> e \<noteq> CannotEncode k
   | Inr r \<Rightarrow> known_kind (r_Kind r) \<and> r_Holder r \<noteq> [] \<and> is_i64 (r_TTL r) \<and>
        r_Epoch r = (if r_Kind r = Claim then 0 else r_Epoch r) \<and> r_Offset r = 0 \<and> r_Timestamp r = 0"
  by (auto simp: DecodeValue_def kind_of_wire_def i64_mul_def time_zero_def split: option.splits)

end
