(* ===== verification/Auth.thy ===== *)
theory Auth
  imports Prelude
begin

section \<open>Broker authentication (lease/auth.go)\<close>

text \<open>
  The TLS and SASL settings and how they become client options. The file system is a parameter
  of every operation that reads it (\<open>read_file\<close> and \<open>stat_ok\<close>, the current contents and the
  success of \<open>os.Stat\<close>), since the source reads files again on every connection and every
  authentication. The X.509 and PEM parsers are parameters as well: \<open>certs_in\<close> for
  \<open>AppendCertsFromPEM\<close> and \<open>key_pair\<close> for \<open>tls.X509KeyPair\<close>. A getter closure of the source is
  the \<open>secret\<close> it reads.
\<close>

subsection \<open>Settings\<close>

record tls_settings =
  t_Enabled :: bool
  t_CA :: string
  t_CAFile :: string
  t_Cert :: string
  t_CertFile :: string
  t_Key :: string
  t_KeyFile :: string
  t_ServerName :: string
  t_InsecureSkipVerify :: bool

record sasl_settings =
  s_Mechanism :: string
  s_Username :: string
  s_UsernameFile :: string
  s_Password :: string
  s_PasswordFile :: string
  s_Token :: string
  s_TokenFile :: string

record auth =
  a_TLS :: tls_settings
  a_SASL :: sasl_settings

definition zero_auth :: auth where
  "zero_auth =
     \<lparr>a_TLS = \<lparr>t_Enabled = False, t_CA = [], t_CAFile = [], t_Cert = [], t_CertFile = [], t_Key = [],
               t_KeyFile = [], t_ServerName = [], t_InsecureSkipVerify = False\<rparr>,
      a_SASL = \<lparr>s_Mechanism = [], s_Username = [], s_UsernameFile = [], s_Password = [],
                s_PasswordFile = [], s_Token = [], s_TokenFile = []\<rparr>\<rparr>"

definition MechanismPlain :: string where "MechanismPlain = ''plain''"
definition MechanismScramSha256 :: string where "MechanismScramSha256 = ''scram-sha-256''"
definition MechanismScramSha512 :: string where "MechanismScramSha512 = ''scram-sha-512''"
definition MechanismOAuthBearer :: string where "MechanismOAuthBearer = ''oauthbearer''"

datatype auth_error =
    BothInlineAndFile string
  | ReadError string string
  | StatError string string
  | NoCertsInPEM
  | BadKeyPair
  | NeedsCertAndKey
  | TLSNotEnabled
  | CredentialsWithoutMechanism
  | NoSecret string
  | UnknownMechanism string

subsection \<open>TLS\<close>

definition given :: "tls_settings \<Rightarrow> bool" where
  "given t \<longleftrightarrow> t_CA t \<noteq> [] \<or> t_CAFile t \<noteq> [] \<or> t_Cert t \<noteq> [] \<or> t_CertFile t \<noteq> [] \<or>
     t_Key t \<noteq> [] \<or> t_KeyFile t \<noteq> []"

definition pemSource ::
  "(string \<Rightarrow> string option) \<Rightarrow> string \<Rightarrow> string \<Rightarrow> string \<Rightarrow> auth_error + string option" where
  "pemSource read_file value file what =
     (if value \<noteq> [] \<and> file \<noteq> [] then Inl (BothInlineAndFile what)
      else if value \<noteq> [] then Inr (Some value)
      else if file \<noteq> [] then
        (case read_file file of
           None \<Rightarrow> Inl (ReadError what file)
         | Some b \<Rightarrow> Inr (Some b))
      else Inr None)"

record 'pair tls_config =
  tc_ServerName :: string
  tc_InsecureSkipVerify :: bool
  tc_RootCAs :: "string option"
  tc_Certificates :: "'pair list"

text \<open>
  \<open>TLS.config\<close>. An empty CA file is non-nil PEM without certificates, and so an error. The
  minimum version is always TLS 1.2 and is not a field here.
\<close>

definition tls_build ::
  "(string \<Rightarrow> string option) \<Rightarrow> (string \<Rightarrow> bool) \<Rightarrow> (string \<Rightarrow> string \<Rightarrow> 'pair option) \<Rightarrow>
     tls_settings \<Rightarrow> auth_error + 'pair tls_config" where
  "tls_build read_file certs_in key_pair t =
     (case pemSource read_file (t_CA t) (t_CAFile t) ''ca'' of
        Inl e \<Rightarrow> Inl e
      | Inr ca \<Rightarrow>
          (if ca \<noteq> None \<and> \<not> certs_in (the ca) then Inl NoCertsInPEM
           else case pemSource read_file (t_Cert t) (t_CertFile t) ''client certificate'' of
             Inl e \<Rightarrow> Inl e
           | Inr cert \<Rightarrow>
              (case pemSource read_file (t_Key t) (t_KeyFile t) ''client key'' of
                 Inl e \<Rightarrow> Inl e
               | Inr key \<Rightarrow>
                  (let cfg = \<lparr>tc_ServerName = t_ServerName t,
                              tc_InsecureSkipVerify = t_InsecureSkipVerify t,
                              tc_RootCAs = ca, tc_Certificates = []\<rparr>
                   in case (cert, key) of
                        (Some c, Some k) \<Rightarrow>
                          (case key_pair c k of
                             None \<Rightarrow> Inl BadKeyPair
                           | Some p \<Rightarrow> Inr (cfg\<lparr>tc_Certificates := [p]\<rparr>))
                      | (None, None) \<Rightarrow> Inr cfg
                      | _ \<Rightarrow> Inl NeedsCertAndKey))))"

text \<open>\<open>TLS.dial\<close> builds the config from the files as they are now, and then dials with it.\<close>

definition dial ::
  "(string \<Rightarrow> string option) \<Rightarrow> (string \<Rightarrow> bool) \<Rightarrow> (string \<Rightarrow> string \<Rightarrow> 'pair option) \<Rightarrow>
     ('pair tls_config \<Rightarrow> string \<Rightarrow> auth_error + 'conn) \<Rightarrow> tls_settings \<Rightarrow> string \<Rightarrow>
     auth_error + 'conn" where
  "dial read_file certs_in key_pair dial_context t host =
     (case tls_build read_file certs_in key_pair t of
        Inl e \<Rightarrow> Inl e
      | Inr cfg \<Rightarrow> dial_context cfg host)"

subsection \<open>SASL\<close>

datatype secret =
    InlineSecret string
  | FileSecret string string

definition secretSource ::
  "(string \<Rightarrow> bool) \<Rightarrow> string \<Rightarrow> string \<Rightarrow> string \<Rightarrow> auth_error + secret" where
  "secretSource stat_ok value file what =
     (if value \<noteq> [] \<and> file \<noteq> [] then Inl (BothInlineAndFile what)
      else if value \<noteq> [] then Inr (InlineSecret value)
      else if file \<noteq> [] then
        (if \<not> stat_ok file then Inl (StatError what file) else Inr (FileSecret file what))
      else Inl (NoSecret what))"

text \<open>\<open>strings.TrimRight(s, "\r\n")\<close>.\<close>

definition trim_crlf :: "string \<Rightarrow> string" where
  "trim_crlf s = rev (dropWhile (\<lambda>c. c = CHR 0x0D \<or> c = CHR 0x0A) (rev s))"

text \<open>Calling the getter that \<open>secretSource\<close> returned: a file is read now.\<close>

fun read_secret :: "(string \<Rightarrow> string option) \<Rightarrow> secret \<Rightarrow> auth_error + string" where
  "read_secret read_file (InlineSecret v) = Inr v"
| "read_secret read_file (FileSecret file what) =
     (case read_file file of
        None \<Rightarrow> Inl (ReadError what file)
      | Some b \<Rightarrow> Inr (trim_crlf b))"

datatype mechanism =
    PlainMech secret secret
  | ScramSha256 secret secret
  | ScramSha512 secret secret
  | OAuthMech secret

text \<open>The \<open>credentials\<close> closure: username first, password second, the first error wins.\<close>

definition credentials ::
  "(string \<Rightarrow> string option) \<Rightarrow> secret \<Rightarrow> secret \<Rightarrow> auth_error + (string \<times> string)" where
  "credentials read_file username password =
     (case read_secret read_file username of
        Inl e \<Rightarrow> Inl e
      | Inr user \<Rightarrow>
          (case read_secret read_file password of
             Inl e \<Rightarrow> Inl e
           | Inr pass \<Rightarrow> Inr (user, pass)))"

text \<open>
  \<open>strings.ToLower\<close>, as far as comparison with ASCII names goes: besides A to Z, two characters
  lower to an ASCII letter, the Kelvin sign (to k) and the dotted capital I (to i).
\<close>

function to_lower :: "string \<Rightarrow> string" where
  "to_lower s =
     (case s of
        [] \<Rightarrow> []
      | c # cs \<Rightarrow>
         (if 65 \<le> (of_char c :: nat) \<and> (of_char c :: nat) \<le> 90 then char_of ((of_char c :: nat) + 32) # to_lower cs
          else if take 3 s = [CHR 0xE2, CHR 0x84, CHR 0xAA] then CHR ''k'' # to_lower (drop 3 s)
          else if take 2 s = [CHR 0xC4, CHR 0xB0] then CHR ''i'' # to_lower (drop 2 s)
          else c # to_lower cs))"
  by pat_completeness auto
termination
  by (relation "measure length") auto

declare to_lower.simps [simp del]

definition sasl_mechanism ::
  "(string \<Rightarrow> bool) \<Rightarrow> sasl_settings \<Rightarrow> auth_error + mechanism option" where
  "sasl_mechanism stat_ok s =
     (let mech = to_lower (s_Mechanism s) in
      if mech = [] then
        (if s_Username s \<noteq> [] \<or> s_UsernameFile s \<noteq> [] \<or> s_Password s \<noteq> [] \<or> s_PasswordFile s \<noteq> [] \<or>
            s_Token s \<noteq> [] \<or> s_TokenFile s \<noteq> []
         then Inl CredentialsWithoutMechanism else Inr None)
      else if mech = MechanismPlain \<or> mech = MechanismScramSha256 \<or> mech = MechanismScramSha512 then
        (case secretSource stat_ok (s_Username s) (s_UsernameFile s) ''username'' of
           Inl e \<Rightarrow> Inl e
         | Inr username \<Rightarrow>
            (case secretSource stat_ok (s_Password s) (s_PasswordFile s) ''password'' of
               Inl e \<Rightarrow> Inl e
             | Inr password \<Rightarrow>
                Inr (Some (if mech = MechanismPlain then PlainMech username password
                           else if mech = MechanismScramSha256 then ScramSha256 username password
                           else ScramSha512 username password))))
      else if mech = MechanismOAuthBearer then
        (case secretSource stat_ok (s_Token s) (s_TokenFile s) ''token'' of
           Inl e \<Rightarrow> Inl e
         | Inr token \<Rightarrow> Inr (Some (OAuthMech token)))
      else Inl (UnknownMechanism (s_Mechanism s)))"

text \<open>What a mechanism answers when the broker asks: the secrets as they are at that moment.\<close>

fun authenticate ::
  "(string \<Rightarrow> string option) \<Rightarrow> mechanism \<Rightarrow> auth_error + (string \<times> string)" where
  "authenticate read_file (PlainMech u p) = credentials read_file u p"
| "authenticate read_file (ScramSha256 u p) = credentials read_file u p"
| "authenticate read_file (ScramSha512 u p) = credentials read_file u p"
| "authenticate read_file (OAuthMech t) = map_sum id (\<lambda>x. ([], x)) (read_secret read_file t)"

subsection \<open>Client options\<close>

datatype client_opt =
    OptDialer tls_settings
  | OptSASL mechanism

definition clientOpts ::
  "(string \<Rightarrow> string option) \<Rightarrow> (string \<Rightarrow> bool) \<Rightarrow> (string \<Rightarrow> bool) \<Rightarrow>
     (string \<Rightarrow> string \<Rightarrow> 'pair option) \<Rightarrow> auth \<Rightarrow> auth_error + client_opt list" where
  "clientOpts read_file stat_ok certs_in key_pair a =
     (case (if t_Enabled (a_TLS a) then
              (case tls_build read_file certs_in key_pair (a_TLS a) of
                 Inl e \<Rightarrow> Inl e
               | Inr _ \<Rightarrow> Inr [OptDialer (a_TLS a)])
            else if given (a_TLS a) then Inl TLSNotEnabled
            else Inr []) of
        Inl e \<Rightarrow> Inl e
      | Inr opts \<Rightarrow>
          (case sasl_mechanism stat_ok (a_SASL a) of
             Inl e \<Rightarrow> Inl e
           | Inr None \<Rightarrow> Inr opts
           | Inr (Some m) \<Rightarrow> Inr (opts @ [OptSASL m])))"

end
