(* ===== verification/Config.thy ===== *)
theory Config
  imports Auth
begin

section \<open>Configuration of a participant (lease/candidate.go: Config)\<close>

text \<open>
  The configuration, its defaults and its validation. The host name and the four random bytes of
  a default holder are parameters; a logger and further client options are opaque.
\<close>

datatype logger = DefaultLogger | CustomLogger nat

record config =
  c_Brokers :: "string list"
  c_Topic :: string
  c_Partition :: int
  c_CreateTopic :: bool
  c_Holder :: string
  c_TTL :: duration
  c_Margin :: duration
  c_RenewEvery :: duration
  c_Auth :: auth
  c_Logger :: "logger option"
  c_ClientOpts :: "nat list"

datatype config_error =
    NoBrokers
  | NoTopic
  | NegativePartition
  | TTLNotPositive
  | NegativeMarginOrRenew
  | MarginPlusRenew duration duration duration
  | RandomFailed

text \<open>\<open>hex.EncodeToString\<close>.\<close>

definition hex_string :: "nat list \<Rightarrow> string" where
  "hex_string bs =
     concat (map (\<lambda>b. [''0123456789abcdef'' ! (b div 16), ''0123456789abcdef'' ! (b mod 16)]) bs)"

text \<open>
  \<open>withDefaults\<close>. The sum of margin and renew interval is a 64-bit addition. \<open>rand\<close> is what
  \<open>rand.Read\<close> delivers, \<open>None\<close> for its error.
\<close>

definition withDefaults :: "string \<Rightarrow> nat list option \<Rightarrow> config \<Rightarrow> config_error + config" where
  "withDefaults host rand c =
     (if c_Brokers c = [] then Inl NoBrokers
      else if c_Topic c = [] then Inl NoTopic
      else if c_Partition c < 0 then Inl NegativePartition
      else if c_TTL c \<le> 0 then Inl TTLNotPositive
      else if c_Margin c < 0 \<or> c_RenewEvery c < 0 then Inl NegativeMarginOrRenew
      else
        let c1 = (if c_Margin c = 0 then c\<lparr>c_Margin := i64_div (c_TTL c) 5\<rparr> else c);
            c2 = (if c_RenewEvery c1 = 0 then c1\<lparr>c_RenewEvery := i64_div (c_TTL c1) 3\<rparr> else c1)
        in if c_TTL c2 \<le> i64_add (c_Margin c2) (c_RenewEvery c2)
           then Inl (MarginPlusRenew (c_Margin c2) (c_RenewEvery c2) (c_TTL c2))
           else
             let finish = (\<lambda>c3. Inr (if c_Logger c3 = None
                                     then c3\<lparr>c_Logger := Some DefaultLogger\<rparr> else c3))
             in if c_Holder c2 = [] then
                  (case rand of
                     None \<Rightarrow> Inl RandomFailed
                   | Some b \<Rightarrow> finish (c2\<lparr>c_Holder := host @ ''/'' @ hex_string b\<rparr>))
                else finish c2)"

definition pollEvery :: "config \<Rightarrow> duration" where
  "pollEvery c = i64_div (c_RenewEvery c) 4"

subsection \<open>What a validated configuration guarantees\<close>

text \<open>
  The timing the protocol needs: intervals are not negative and margin and renew interval together
  stay below the TTL; the TTL is small enough for the sums the agent forms (73 years).
\<close>

definition timing_ok :: "config \<Rightarrow> bool" where
  "timing_ok c \<longleftrightarrow>
     0 < c_TTL c \<and> c_TTL c \<le> 2305843009213693951 \<and> 0 \<le> c_Margin c \<and> 0 \<le> c_RenewEvery c \<and>
     c_Margin c + c_RenewEvery c < c_TTL c"

lemma timing_bounds:
  assumes "timing_ok c"
  shows "0 < c_TTL c" "0 \<le> c_Margin c" "0 \<le> c_RenewEvery c" "c_Margin c < c_TTL c"
    "is_i64 (c_TTL c)" "is_i64 (c_TTL c + c_Margin c)" "is_i64 (c_TTL c - c_Margin c)"
    "is_i64 (-2 * c_TTL c)" "is_i64 (c_RenewEvery c)"
  using assms by (auto simp: timing_ok_def is_i64_def i64_min_def i64_max_def)

lemma withDefaults_cases:
  assumes "withDefaults host rand c = Inr c'"
  shows "c_Brokers c' = c_Brokers c" "c_Topic c' = c_Topic c" "c_TTL c' = c_TTL c"
    "c_Brokers c' \<noteq> []" "c_Topic c' \<noteq> []" "0 \<le> c_Partition c'" "0 < c_TTL c'"
    "c_Margin c' = (if c_Margin c = 0 then i64_div (c_TTL c) 5 else c_Margin c)"
    "c_RenewEvery c' = (if c_RenewEvery c = 0 then i64_div (c_TTL c) 3 else c_RenewEvery c)"
    "0 \<le> c_Margin c'" "0 \<le> c_RenewEvery c'"
    "i64_add (c_Margin c') (c_RenewEvery c') < c_TTL c'"
    "c_Holder c \<noteq> [] \<Longrightarrow> c_Holder c' = c_Holder c" "c_Holder c' \<noteq> []" "c_Logger c' \<noteq> None"
  using assms
  by (auto simp: withDefaults_def Let_def i64_div_ge0 split: if_splits option.splits)

lemma pollEvery_bounds: "timing_ok c \<Longrightarrow> 0 \<le> pollEvery c \<and> pollEvery c \<le> c_RenewEvery c"
  by (simp add: pollEvery_def timing_ok_def i64_div_ge0 i64_div_le)

end
