(* ===== verification/Agent.thy ===== *)
theory Agent
  imports LeaseSpec LeaseCodec Config
begin

section \<open>The agent: the writer rules on top of a view (lease/agent.go)\<close>

text \<open>
  The decision core of a participant, one definition per method of \<open>agent\<close>, and the lemmas the
  properties of theories \<open>AgentRules\<close> and \<open>Belief\<close> share: which fields each operation touches,
  the invariant of the agent, and the shape of \<open>record\<close>, \<open>settle\<close> and \<open>tick\<close>. A method that
  changes the agent returns the changed agent; logging is not modelled. All instants are readings
  of the local monotonic clock but \<open>ag_lastRecordBroker\<close> and those of the view.
\<close>

subsection \<open>State\<close>

record inflight =
  if_kind :: kind
  if_sentAt :: gtime
  if_offset :: int

record agent =
  ag_cfg :: config
  ag_view :: view
  ag_nextOffset :: int
  ag_highWater :: int
  ag_ownOutcomes :: "int \<rightharpoonup> outcome"
  ag_epoch :: int
  ag_deadline :: gtime
  ag_inflight :: "inflight option"
  ag_lastSend :: gtime
  ag_nextClaimAt :: gtime
  ag_connected :: bool
  ag_fetchedOnce :: bool
  ag_caughtUpAt :: gtime
  ag_lastRecordAt :: gtime
  ag_lastRecordBroker :: gtime

text \<open>\<open>Status\<close> of lease/candidate.go, and its zero value.\<close>

record status =
  s_Holding :: bool
  s_Epoch :: int
  s_Deadline :: gtime
  s_Certain :: bool
  s_Lease :: lease_state
  s_AsOf :: gtime

definition zero_status :: status where
  "zero_status = \<lparr>s_Holding = False, s_Epoch = 0, s_Deadline = time_zero, s_Certain = False,
                  s_Lease = zero_state, s_AsOf = time_zero\<rparr>"

text \<open>\<open>newAgent\<close>; \<open>None\<close> is the panic of \<open>NewView\<close>.\<close>

definition newAgent :: "config \<Rightarrow> int \<Rightarrow> int \<Rightarrow> gtime \<Rightarrow> agent option" where
  "newAgent cfg start endOff now =
     (case NewView (c_TTL cfg) of
        None \<Rightarrow> None
      | Some v \<Rightarrow>
          let a = \<lparr>ag_cfg = cfg, ag_view = v, ag_nextOffset = start, ag_highWater = endOff,
                   ag_ownOutcomes = Map.empty, ag_epoch = -1, ag_deadline = time_zero,
                   ag_inflight = None, ag_lastSend = time_zero, ag_nextClaimAt = time_zero,
                   ag_connected = True, ag_fetchedOnce = False, ag_caughtUpAt = now,
                   ag_lastRecordAt = time_zero, ag_lastRecordBroker = time_zero\<rparr>
          in if start = 0
             then map_option (\<lambda>v'. a\<lparr>ag_view := v'\<rparr>) (NewViewFromStart (c_TTL cfg))
             else Some a)"

subsection \<open>Fetch results\<close>

definition fetchFailed :: "agent \<Rightarrow> agent" where
  "fetchFailed a = a\<lparr>ag_connected := False\<rparr>"

definition fetched :: "gtime \<Rightarrow> int \<Rightarrow> agent \<Rightarrow> agent" where
  "fetched now highWater a =
     (let a1 = (if \<not> ag_connected a
                then a\<lparr>ag_connected := True, ag_caughtUpAt := now\<rparr> else a)
      in a1\<lparr>ag_fetchedOnce := True, ag_highWater := max (ag_highWater a1) highWater\<rparr>)"

subsection \<open>Belief\<close>

definition believing :: "agent \<Rightarrow> gtime \<Rightarrow> bool" where
  "believing a now \<longleftrightarrow> time_Before now (ag_deadline a)"

definition extendBelief :: "gtime \<Rightarrow> agent \<Rightarrow> agent" where
  "extendBelief sentAt a =
     a\<lparr>ag_deadline := time_Add sentAt (i64_sub (c_TTL (ag_cfg a)) (c_Margin (ag_cfg a)))\<rparr>"

definition dropBelief :: "agent \<Rightarrow> agent" where
  "dropBelief a = (if time_IsZero (ag_deadline a) then a else a\<lparr>ag_deadline := time_zero\<rparr>)"

definition brokerNow :: "agent \<Rightarrow> gtime \<Rightarrow> gtime" where
  "brokerNow a now =
     (if time_IsZero (ag_lastRecordAt a) then v_clock (ag_view a)
      else time_Add (ag_lastRecordBroker a) (time_Sub now (ag_lastRecordAt a)))"

subsection \<open>Verdicts on own records\<close>

text \<open>
  \<open>settle\<close> dereferences the record in flight; without one it would panic, but it is only called
  with one. The kind in flight is a claim or a renew; the switch has no case for another.
\<close>

definition settle :: "gtime \<Rightarrow> outcome \<Rightarrow> agent \<Rightarrow> agent" where
  "settle now out a =
     (case ag_inflight a of
        None \<Rightarrow> a
      | Some f \<Rightarrow>
          let a1 = a\<lparr>ag_inflight := None, ag_ownOutcomes := Map.empty\<rparr>
          in if out = Pending then a1
             else if if_kind f = Claim \<and> out = Accepted then
               extendBelief (if_sentAt f) (a1\<lparr>ag_epoch := if_offset f\<rparr>)
             else if if_kind f = Claim then
               let s = v_state (ag_view a1);
                   wait = min (max (time_Sub (st_Expires s) (brokerNow a1 now))
                                   (pollEvery (ag_cfg a1)))
                              (c_TTL (ag_cfg a1))
               in a1\<lparr>ag_nextClaimAt := time_Add now wait\<rparr>
             else if if_kind f = Renew \<and> out = Accepted then
               (if believing a1 now then extendBelief (if_sentAt f) a1 else a1)
             else if if_kind f = Renew then dropBelief a1
             else a1)"

definition ownRecord :: "gtime \<Rightarrow> int \<Rightarrow> kind \<Rightarrow> outcome \<Rightarrow> agent \<Rightarrow> agent" where
  "ownRecord now offset k out a =
     (case ag_inflight a of
        None \<Rightarrow> a
      | Some f \<Rightarrow>
          if if_kind f \<noteq> k then a
          else if if_offset f = -1 then a\<lparr>ag_ownOutcomes := (ag_ownOutcomes a)(offset \<mapsto> out)\<rparr>
          else if if_offset f = offset then settle now out a
          else a)"

text \<open>\<open>acked\<close>: the broker's answer is an offset, or an error (\<open>None\<close>).\<close>

definition acked :: "gtime \<Rightarrow> int option \<Rightarrow> agent \<Rightarrow> agent" where
  "acked now res a =
     (case ag_inflight a of
        None \<Rightarrow> a
      | Some f \<Rightarrow>
          (case res of
             None \<Rightarrow>
               (let a1 = a\<lparr>ag_inflight := None\<rparr>
                in if if_kind f = Claim
                   then a1\<lparr>ag_nextClaimAt := time_Add now (c_RenewEvery (ag_cfg a1))\<rparr> else a1)
           | Some offset \<Rightarrow>
               (let a1 = a\<lparr>ag_inflight := Some (f\<lparr>if_offset := offset\<rparr>)\<rparr>
                in case ag_ownOutcomes a1 offset of
                     Some out \<Rightarrow> settle now out a1
                   | None \<Rightarrow> a1)))"

subsection \<open>The next record of the log\<close>

text \<open>
  The end of \<open>record\<close>: a believer whose certain view shows another term, or none, drops its
  belief.
\<close>

definition checkTerm :: "gtime \<Rightarrow> agent \<Rightarrow> agent" where
  "checkTerm now a =
     (if believing a now \<and> v_certain (ag_view a) then
        let s = v_state (ag_view a)
        in if st_Holder s \<noteq> c_Holder (ag_cfg a) \<or> st_Epoch s \<noteq> ag_epoch a \<or>
              \<not> HeldAt s (v_clock (ag_view a))
           then dropBelief a else a
      else a)"

text \<open>\<open>record\<close>: the error, if any, and the agent. The value is the message's bytes.\<close>

definition seeRecord :: "gtime \<Rightarrow> int \<Rightarrow> gtime \<Rightarrow> agent \<Rightarrow> agent" where
  "seeRecord now offset ts a =
     (let a1 = (if ag_nextOffset a < offset
                then a\<lparr>ag_view := Gap (ag_view a), ag_caughtUpAt := now\<rparr> else a)
      in a1\<lparr>ag_nextOffset := offset + 1, ag_lastRecordAt := now, ag_lastRecordBroker := ts\<rparr>)"

definition agent_record :: "gtime \<Rightarrow> int \<Rightarrow> gtime \<Rightarrow> string \<Rightarrow> agent \<Rightarrow> view_error option \<times> agent" where
  "agent_record now offset ts val a =
     (if offset < ag_nextOffset a then (None, a)
      else
        let a1 = seeRecord now offset ts a
        in case DecodeValue val of
             Inl _ \<Rightarrow> (None, a1)
           | Inr d \<Rightarrow>
              (let rec = d\<lparr>r_Offset := offset, r_Timestamp := ts\<rparr>
               in case Apply (ag_view a1) rec of
                    Inl e \<Rightarrow> (Some e, a1)
                  | Inr (out, v) \<Rightarrow>
                      (let a2 = a1\<lparr>ag_view := v\<rparr>;
                           a3 = (if r_Holder rec = c_Holder (ag_cfg a2)
                                 then ownRecord now (r_Offset rec) (r_Kind rec) out a2 else a2)
                       in (None, checkTerm now a3))))"

subsection \<open>Writing\<close>

definition newRecord :: "agent \<Rightarrow> kind \<Rightarrow> int \<Rightarrow> lrecord" where
  "newRecord a k epoch =
     (let rec = \<lparr>r_Offset = 0, r_Timestamp = time_zero, r_Kind = k, r_Holder = c_Holder (ag_cfg a),
                 r_Epoch = 0, r_TTL = c_TTL (ag_cfg a)\<rparr>
      in if k \<noteq> Claim then rec\<lparr>r_Epoch := epoch\<rparr> else rec)"

definition send :: "gtime \<Rightarrow> kind \<Rightarrow> agent \<Rightarrow> lrecord \<times> agent" where
  "send now k a =
     (let a1 = a\<lparr>ag_inflight := Some \<lparr>if_kind = k, if_sentAt = now, if_offset = -1\<rparr>,
                 ag_lastSend := now\<rparr>
      in (newRecord a1 k (ag_epoch a1), a1))"

text \<open>\<open>tick\<close> in the order of the source: the deadline, silence at the end of the log, the decision.\<close>

definition tickDeadline :: "gtime \<Rightarrow> agent \<Rightarrow> agent" where
  "tickDeadline now a =
     (if \<not> believing a now \<and> \<not> time_IsZero (ag_deadline a) then dropBelief a else a)"

definition silentSince :: "agent \<Rightarrow> gtime" where
  "silentSince a =
     (if time_After (ag_lastRecordAt a) (ag_caughtUpAt a) then ag_lastRecordAt a
      else ag_caughtUpAt a)"

definition tickSilence :: "gtime \<Rightarrow> agent \<Rightarrow> agent" where
  "tickSilence now a =
     (if ag_connected a \<and> ag_highWater a \<le> ag_nextOffset a \<and> \<not> v_certain (ag_view a) \<and>
         i64_add (c_TTL (ag_cfg a)) (c_Margin (ag_cfg a)) \<le> time_Sub now (silentSince a)
      then a\<lparr>ag_view := snd (Quiet (ag_view a) (c_TTL (ag_cfg a)))\<rparr>
      else a)"

definition tickDecide :: "gtime \<Rightarrow> agent \<Rightarrow> lrecord option \<times> agent" where
  "tickDecide now a =
     (if ag_inflight a \<noteq> None \<or> \<not> v_certain (ag_view a) then (None, a)
      else if believing a now then
        (if c_RenewEvery (ag_cfg a) \<le> time_Sub now (ag_lastSend a)
         then let (r, a') = send now Renew a in (Some r, a') else (None, a))
      else if time_After now (ag_nextClaimAt a) \<and> \<not> HeldAt (v_state (ag_view a)) (brokerNow a now)
        then let (r, a') = send now Claim a in (Some r, a')
      else (None, a))"

definition agent_tick :: "gtime \<Rightarrow> agent \<Rightarrow> lrecord option \<times> agent" where
  "agent_tick now a = tickDecide now (tickSilence now (tickDeadline now a))"

definition agent_release :: "gtime \<Rightarrow> agent \<Rightarrow> lrecord option \<times> agent" where
  "agent_release now a =
     (if \<not> believing a now then (None, a)
      else
        let epoch = ag_epoch a;
            a1 = dropBelief a
        in (Some (newRecord a1 Release epoch), a1))"

definition agent_status :: "gtime \<Rightarrow> agent \<Rightarrow> status \<times> gtime \<times> int" where
  "agent_status now a =
     (let s = zero_status\<lparr>s_Certain := v_certain (ag_view a), s_AsOf := v_clock (ag_view a)\<rparr>;
          s1 = (if s_Certain s then s\<lparr>s_Lease := v_state (ag_view a)\<rparr> else s);
          deadline = (if believing a now then ag_deadline a else time_zero)
      in (s1, deadline, ag_epoch a))"


subsection \<open>Events\<close>

text \<open>
  What can happen to an agent, each event with the instant the caller read from its clock, and the
  record the agent wants produced. An error of \<open>Read\<close> ends the caller's loop; the agent is then
  only asked to stop.
\<close>

datatype event =
    FetchFailed
  | Fetched gtime int
  | Read gtime int gtime string
  | Acked gtime "int option"
  | Tick gtime
  | Stop gtime

fun agent_step :: "event \<Rightarrow> agent \<Rightarrow> lrecord option \<times> agent" where
  "agent_step FetchFailed a = (None, fetchFailed a)"
| "agent_step (Fetched now hw) a = (None, fetched now hw a)"
| "agent_step (Read now off ts val) a = (None, snd (agent_record now off ts val a))"
| "agent_step (Acked now res) a = (None, acked now res a)"
| "agent_step (Tick now) a = agent_tick now a"
| "agent_step (Stop now) a = agent_release now a"

fun agent_run :: "event list \<Rightarrow> agent \<Rightarrow> agent" where
  "agent_run [] a = a"
| "agent_run (e # es) a = agent_run es (snd (agent_step e a))"

subsection \<open>What the operations leave alone\<close>

lemma dropBelief_eq [agent_simps]: "dropBelief a = a\<lparr>ag_deadline := 0\<rparr>"
  by (simp add: dropBelief_def go_simps)

lemma believing_iff [agent_simps]: "believing a now \<longleftrightarrow> now < ag_deadline a"
  by (simp add: believing_def go_simps)

lemma fetched_frame [simp]:
  "ag_cfg (fetched now hw a) = ag_cfg a" "ag_view (fetched now hw a) = ag_view a"
  "ag_nextOffset (fetched now hw a) = ag_nextOffset a"
  "ag_ownOutcomes (fetched now hw a) = ag_ownOutcomes a" "ag_epoch (fetched now hw a) = ag_epoch a"
  "ag_deadline (fetched now hw a) = ag_deadline a" "ag_inflight (fetched now hw a) = ag_inflight a"
  by (simp_all add: fetched_def Let_def)

lemma fetchFailed_frame [simp]:
  "ag_cfg (fetchFailed a) = ag_cfg a" "ag_view (fetchFailed a) = ag_view a"
  "ag_nextOffset (fetchFailed a) = ag_nextOffset a"
  "ag_ownOutcomes (fetchFailed a) = ag_ownOutcomes a" "ag_epoch (fetchFailed a) = ag_epoch a"
  "ag_deadline (fetchFailed a) = ag_deadline a" "ag_inflight (fetchFailed a) = ag_inflight a"
  by (simp_all add: fetchFailed_def)

lemma settle_frame [simp]:
  "ag_cfg (settle now out a) = ag_cfg a" "ag_view (settle now out a) = ag_view a"
  "ag_nextOffset (settle now out a) = ag_nextOffset a"
  "ag_highWater (settle now out a) = ag_highWater a"
  by (simp_all add: settle_def extendBelief_def dropBelief_def Let_def split: option.splits)

lemma settle_inflight:
  "ag_inflight a = Some f \<Longrightarrow> ag_inflight (settle now out a) = None"
  "ag_inflight a = Some f \<Longrightarrow> ag_ownOutcomes (settle now out a) = Map.empty"
  by (simp_all add: settle_def extendBelief_def dropBelief_def Let_def)

lemma ownRecord_frame [simp]:
  "ag_cfg (ownRecord now off k out a) = ag_cfg a" "ag_view (ownRecord now off k out a) = ag_view a"
  "ag_nextOffset (ownRecord now off k out a) = ag_nextOffset a"
  "ag_highWater (ownRecord now off k out a) = ag_highWater a"
  by (simp_all add: ownRecord_def split: option.splits)

lemma acked_frame [simp]:
  "ag_cfg (acked now res a) = ag_cfg a" "ag_view (acked now res a) = ag_view a"
  "ag_nextOffset (acked now res a) = ag_nextOffset a"
  "ag_highWater (acked now res a) = ag_highWater a"
  by (simp_all add: acked_def Let_def split: option.splits)

lemma checkTerm_frame [simp]:
  "ag_cfg (checkTerm now a) = ag_cfg a" "ag_view (checkTerm now a) = ag_view a"
  "ag_nextOffset (checkTerm now a) = ag_nextOffset a"
  "ag_highWater (checkTerm now a) = ag_highWater a"
  "ag_inflight (checkTerm now a) = ag_inflight a" "ag_epoch (checkTerm now a) = ag_epoch a"
  "ag_ownOutcomes (checkTerm now a) = ag_ownOutcomes a"
  by (simp_all add: checkTerm_def dropBelief_def Let_def)

lemma checkTerm_deadline: "ag_deadline (checkTerm now a) = ag_deadline a \<or> ag_deadline (checkTerm now a) = 0"
  by (simp add: checkTerm_def agent_simps Let_def)

lemma seeRecord_frame [simp]:
  "ag_cfg (seeRecord now off ts a) = ag_cfg a" "ag_epoch (seeRecord now off ts a) = ag_epoch a"
  "ag_nextOffset (seeRecord now off ts a) = off + 1"
  "ag_deadline (seeRecord now off ts a) = ag_deadline a"
  "ag_inflight (seeRecord now off ts a) = ag_inflight a"
  "ag_ownOutcomes (seeRecord now off ts a) = ag_ownOutcomes a"
  "ag_lastRecordAt (seeRecord now off ts a) = now"
  "ag_lastRecordBroker (seeRecord now off ts a) = ts"
  "ag_view (seeRecord now off ts a) =
     (if ag_nextOffset a < off then Gap (ag_view a) else ag_view a)"
  by (simp_all add: seeRecord_def Let_def)

lemma tickSilence_frame [simp]:
  "ag_cfg (tickSilence now a) = ag_cfg a" "ag_epoch (tickSilence now a) = ag_epoch a"
  "ag_nextOffset (tickSilence now a) = ag_nextOffset a"
  "ag_deadline (tickSilence now a) = ag_deadline a"
  "ag_inflight (tickSilence now a) = ag_inflight a"
  "ag_ownOutcomes (tickSilence now a) = ag_ownOutcomes a"
  "ag_lastSend (tickSilence now a) = ag_lastSend a"
  "ag_nextClaimAt (tickSilence now a) = ag_nextClaimAt a"
  by (simp_all add: tickSilence_def)

lemma tickSilence_certain [simp]: "v_certain (ag_view a) \<Longrightarrow> tickSilence now a = a"
  by (simp add: tickSilence_def)

lemma tickDeadline_eq [agent_simps]:
  "tickDeadline now a = (if ag_deadline a \<le> now then a\<lparr>ag_deadline := 0\<rparr> else a)"
  by (auto simp: tickDeadline_def agent_simps go_simps not_less)

lemma agent_step_cfg [simp]: "ag_cfg (snd (agent_step e a)) = ag_cfg a"
  by (cases e)
    (auto simp: agent_record_def agent_tick_def tickDecide_def send_def agent_release_def agent_simps
       Let_def split: sum.splits prod.splits)

lemma agent_run_cfg [simp]: "ag_cfg (agent_run es a) = ag_cfg a"
  by (induction es arbitrary: a) simp_all

subsection \<open>The record step, case by case\<close>

lemma agent_record_old: "off < ag_nextOffset a \<Longrightarrow> agent_record now off ts val a = (None, a)"
  by (simp add: agent_record_def)

lemma agent_record_garbage:
  "\<not> off < ag_nextOffset a \<Longrightarrow> DecodeValue val = Inl e \<Longrightarrow>
     agent_record now off ts val a = (None, seeRecord now off ts a)"
  by (simp add: agent_record_def)

text \<open>A decoded record reaches the view and, when it is the agent's own, the record in flight.\<close>

lemma agent_record_applied:
  assumes "\<not> off < ag_nextOffset a" "DecodeValue val = Inr d"
    and "Apply (ag_view (seeRecord now off ts a)) (d\<lparr>r_Offset := off, r_Timestamp := ts\<rparr>) = Inr (out, v)"
  shows "agent_record now off ts val a =
    (None, checkTerm now
       (if r_Holder d = c_Holder (ag_cfg a)
        then ownRecord now off (r_Kind d) out ((seeRecord now off ts a)\<lparr>ag_view := v\<rparr>)
        else (seeRecord now off ts a)\<lparr>ag_view := v\<rparr>))"
  using assms by (simp add: agent_record_def Let_def del: seeRecord_frame(9))

end
