(* ===== verification/Topic.thy ===== *)
theory Topic
  imports Config
begin

section \<open>The lease topic (lease/topic.go)\<close>

text \<open>
  \<open>EnsureTopic\<close>, with what the admin client answers as parameters: the verdict of CreateTopic on
  the configuration it is sent, and the description of an existing topic.
\<close>

definition timestampTypeKey :: string where "timestampTypeKey = ''message.timestamp.type''"
definition timestampTypeValue :: string where "timestampTypeValue = ''LogAppendTime''"
definition cleanupPolicyKey :: string where "cleanupPolicyKey = ''cleanup.policy''"
definition cleanupPolicyValue :: string where "cleanupPolicyValue = ''compact''"
definition minCompactionLagKey :: string where "minCompactionLagKey = ''min.compaction.lag.ms''"
definition minCompactionLagFloor :: duration where "minCompactionLagFloor = 3600 * Second"

text \<open>What the admin client answers; an error is a text.\<close>

datatype create_answer = Created | AlreadyExists | CreateFailed string

record topic_config =
  tp_Key :: string
  tp_Value :: "string option"

record described =
  ds_Err :: "string option"
  ds_Configs :: "topic_config list"

datatype topic_error =
    TopicTTLNotPositive
  | CreateTopicFailed string
  | DescribeFailed string
  | WrongTimestampType string
  | NotReported

definition strValue :: "string option \<Rightarrow> string" where
  "strValue p = (case p of None \<Rightarrow> ''<unset>'' | Some s \<Rightarrow> s)"

definition compaction_lag :: "duration \<Rightarrow> duration" where
  "compaction_lag ttl = max (i64_mul 100 ttl) minCompactionLagFloor"

definition topic_configs :: "duration \<Rightarrow> (string \<times> string) list" where
  "topic_configs ttl =
     [(timestampTypeKey, timestampTypeValue), (cleanupPolicyKey, cleanupPolicyValue),
      (minCompactionLagKey, dec_int (Milliseconds (compaction_lag ttl)))]"

text \<open>The loop over the reported configuration: the first entry for the timestamp type decides.\<close>

fun check_configs :: "topic_config list \<Rightarrow> topic_error option" where
  "check_configs [] = Some NotReported"
| "check_configs (c # cs) =
     (if tp_Key c \<noteq> timestampTypeKey then check_configs cs
      else if tp_Value c \<noteq> Some timestampTypeValue
        then Some (WrongTimestampType (strValue (tp_Value c)))
      else None)"

text \<open>
  \<open>EnsureTopic\<close>: \<open>None\<close> is success. \<open>create\<close> answers for a partition count, a replication factor
  and a configuration, \<open>describe\<close> is the answer of DescribeTopicConfigs and its lookup.
\<close>

definition EnsureTopic ::
  "(int \<Rightarrow> int \<Rightarrow> (string \<times> string) list \<Rightarrow> create_answer) \<Rightarrow> (string + described) \<Rightarrow>
     duration \<Rightarrow> topic_error option" where
  "EnsureTopic create describe ttl =
     (if ttl \<le> 0 then Some TopicTTLNotPositive
      else case create 1 (-1) (topic_configs ttl) of
             Created \<Rightarrow> None
           | CreateFailed e \<Rightarrow> Some (CreateTopicFailed e)
           | AlreadyExists \<Rightarrow>
               (case describe of
                  Inl e \<Rightarrow> Some (DescribeFailed e)
                | Inr rc \<Rightarrow>
                    (case ds_Err rc of
                       Some e \<Rightarrow> Some (DescribeFailed e)
                     | None \<Rightarrow> check_configs (ds_Configs rc))))"

subsection \<open>Properties\<close>

lemma check_configs_ok:
  "check_configs cs = None \<longleftrightarrow>
     (\<exists>c. find (\<lambda>c. tp_Key c = timestampTypeKey) cs = Some c \<and>
        tp_Value c = Some timestampTypeValue)"
  by (induction cs) auto

text \<open>C38: a topic EnsureTopic is content with has broker timestamps: it was just created with
  LogAppendTime, or it exists and the first timestamp type reported for it is LogAppendTime.\<close>
theorem ensured_topic_has_broker_time:
  assumes "EnsureTopic create describe ttl = None"
  shows "0 < ttl \<and>
     (create 1 (-1) (topic_configs ttl) = Created \<and>
        (timestampTypeKey, timestampTypeValue) \<in> set (topic_configs ttl) \<or>
      (\<exists>rc c. describe = Inr rc \<and> ds_Err rc = None \<and>
         find (\<lambda>c. tp_Key c = timestampTypeKey) (ds_Configs rc) = Some c \<and>
         tp_Value c = Some timestampTypeValue))"
  using assms
  by (auto simp: EnsureTopic_def topic_configs_def check_configs_ok
      split: if_splits create_answer.splits sum.splits option.splits)

theorem ensured_topic_has_broker_time_witness:
  "EnsureTopic (\<lambda>_ _ _. AlreadyExists)
     (Inr \<lparr>ds_Err = None, ds_Configs = [\<lparr>tp_Key = ''a'', tp_Value = None\<rparr>,
        \<lparr>tp_Key = timestampTypeKey, tp_Value = Some timestampTypeValue\<rparr>]\<rparr>) Second = None \<and>
   0 < Second"
proof -
  have e: "EnsureTopic (\<lambda>_ _ _. AlreadyExists)
     (Inr \<lparr>ds_Err = None, ds_Configs = [\<lparr>tp_Key = ''a'', tp_Value = None\<rparr>,
        \<lparr>tp_Key = timestampTypeKey, tp_Value = Some timestampTypeValue\<rparr>]\<rparr>) Second = None"
    by code_simp
  with ensured_topic_has_broker_time [OF e] show ?thesis by blast
qed

text \<open>The compaction lag of a new topic covers a hundred TTLs and is never less than an hour, for
  any TTL below 2.9 years.\<close>
lemma compaction_lag_covers_ttl:
  assumes "0 < ttl" "ttl \<le> 92233720368547758"
  shows "100 * ttl \<le> compaction_lag ttl \<and> 3600 * Second \<le> compaction_lag ttl"
proof -
  have "is_i64 (100 * ttl)" using assms by (simp add: is_i64_def i64_min_def i64_max_def)
  then show ?thesis by (simp add: compaction_lag_def minCompactionLagFloor_def go_simps)
qed

end
