(* ===== verification/Candidate.thy ===== *)
theory Candidate
  imports Agent Topic
begin

section \<open>The candidate: the Kafka side (lease/candidate.go)\<close>

text \<open>
  What surrounds the agent: the published status with its change signal, the loop over fetches,
  produce results and ticks, and the stop. The Kafka client is a parameter: what it delivers
  (fetches, produce results, offsets, errors) comes in as values, what it is asked to write goes
  out as values. A mutex-protected section is one step; the channel \<open>changed\<close> has room for one
  signal, \<open>cd_changed\<close> says whether one is in it.
\<close>

subsection \<open>The candidate and its status\<close>

record candidate =
  cd_cfg :: config
  cd_status :: status
  cd_changed :: bool
  cd_deadline :: gtime
  cd_epoch :: int

definition NewCandidate :: "string \<Rightarrow> nat list option \<Rightarrow> config \<Rightarrow> config_error + candidate" where
  "NewCandidate host rand cfg =
     (case withDefaults host rand cfg of
        Inl e \<Rightarrow> Inl e
      | Inr c \<Rightarrow> Inr \<lparr>cd_cfg = c, cd_status = zero_status, cd_changed = False,
                      cd_deadline = time_zero, cd_epoch = 0\<rparr>)"

definition Holder :: "candidate \<Rightarrow> string" where
  "Holder c = c_Holder (cd_cfg c)"

text \<open>\<open>Status\<close>, called when the clock reads \<open>now\<close>.\<close>

definition Status :: "gtime \<Rightarrow> candidate \<Rightarrow> status" where
  "Status now c =
     (if \<not> time_IsZero (cd_deadline c) \<and> time_Before now (cd_deadline c)
      then (cd_status c)\<lparr>s_Holding := True, s_Epoch := cd_epoch c, s_Deadline := cd_deadline c\<rparr>
      else cd_status c)"

definition setStatus :: "status \<times> gtime \<times> int \<Rightarrow> candidate \<Rightarrow> candidate" where
  "setStatus st c =
     (let (s, deadline, epoch) = st;
          same = cd_status c = s \<and> cd_deadline c = deadline \<and> cd_epoch c = epoch;
          c1 = c\<lparr>cd_status := s, cd_deadline := deadline, cd_epoch := epoch\<rparr>
      in if same then c1 else c1\<lparr>cd_changed := True\<rparr>)"

text \<open>A receive on \<open>Changed()\<close>: the signal, if there is one, is gone.\<close>

definition take_changed :: "candidate \<Rightarrow> candidate option" where
  "take_changed c = (if cd_changed c then Some (c\<lparr>cd_changed := False\<rparr>) else None)"

subsection \<open>What the Kafka client delivers\<close>

record kafka_record =
  kr_Offset :: int
  kr_Timestamp :: gtime
  kr_TimestampType :: int
  kr_Value :: string

datatype fetch_error = FetchDeadline | FetchCanceled | FetchOther string

record partition_fetch =
  fp_Topic :: string
  fp_Partition :: int
  fp_Err :: "fetch_error option"
  fp_HighWatermark :: int
  fp_Records :: "kafka_record list"

record fetches =
  fs_closed :: bool
  fs_errors :: "fetch_error list"
  fs_partitions :: "partition_fetch list"

record produce_result =
  pr_offset :: int
  pr_err :: bool

datatype run_error =
    AuthFailed auth_error
  | ClientFailed string
  | EnsureFailed topic_error
  | BoundsFailed string
  | ClientClosed
  | NotLogAppendTime
  | ViewFailed view_error
  | CrashRequested

record kfk_run =
  rn_c :: candidate
  rn_a :: agent

definition publish :: "gtime \<Rightarrow> kfk_run \<Rightarrow> kfk_run" where
  "publish now r = r\<lparr>rn_c := setStatus (agent_status now (rn_a r)) (rn_c r)\<rparr>"

subsection \<open>Finding the partition\<close>

text \<open>An offset as ListOffsets reports it; \<open>zero_offset\<close> is what a failed lookup leaves.\<close>

record listed_offset =
  lo_Offset :: int
  lo_Err :: "string option"

definition zero_offset :: listed_offset where
  "zero_offset = \<lparr>lo_Offset = 0, lo_Err = None\<rparr>"

text \<open>\<open>listBounds\<close> on the answers for start and end offsets: an error, or what the lookup finds.\<close>

definition listBounds ::
  "(string + listed_offset option) \<Rightarrow> (string + listed_offset option) \<Rightarrow>
     string + (listed_offset \<times> listed_offset)" where
  "listBounds starts ends =
     (case starts of
        Inl e \<Rightarrow> Inl e
      | Inr st \<Rightarrow>
          (case ends of
             Inl e \<Rightarrow> Inl e
           | Inr en \<Rightarrow>
               (case st of
                  None \<Rightarrow> Inl ''not found''
                | Some start \<Rightarrow>
                   (let end' = (case en of None \<Rightarrow> zero_offset | Some off \<Rightarrow> off)
                    in case (lo_Err start, lo_Err end') of
                         (None, None) \<Rightarrow> Inr (start, end')
                       | (Some e, None) \<Rightarrow> Inl e
                       | (None, Some e) \<Rightarrow> Inl e
                       | (Some e, Some e') \<Rightarrow> Inl (e @ [CHR 0x0A] @ e')))))"

text \<open>
  \<open>partitionBounds\<close>: one element per attempt, with the answers, the clock after them and whether
  the context was done while waiting. \<open>None\<close>: still retrying.
\<close>

fun partitionBounds ::
  "gtime \<Rightarrow> ((string + listed_offset option) \<times> (string + listed_offset option) \<times> gtime \<times> bool) list \<Rightarrow>
     (string + (listed_offset \<times> listed_offset)) option" where
  "partitionBounds deadline [] = None"
| "partitionBounds deadline ((starts, ends, now, ctx_done) # rest) =
     (case listBounds starts ends of
        Inr b \<Rightarrow> Some (Inr b)
      | Inl e \<Rightarrow>
          if time_After now deadline then Some (Inl e)
          else if ctx_done then Some (Inl ''context'')
          else partitionBounds deadline rest)"

definition bounds_deadline :: "config \<Rightarrow> gtime \<Rightarrow> gtime" where
  "bounds_deadline cfg now = time_Add now (max (c_TTL cfg) (10 * Second))"

text \<open>\<open>bootstrap\<close> once the bounds are known; the configuration has a positive TTL, so no panic.\<close>

definition bootstrap ::
  "candidate \<Rightarrow> (string + (listed_offset \<times> listed_offset)) \<Rightarrow> gtime \<Rightarrow> run_error + kfk_run" where
  "bootstrap c bounds now =
     (case bounds of
        Inl e \<Rightarrow> Inl (BoundsFailed e)
      | Inr (start, end') \<Rightarrow>
          (case newAgent (cd_cfg c) (lo_Offset start) (lo_Offset end') now of
             None \<Rightarrow> Inl (BoundsFailed ''panic'')
           | Some a \<Rightarrow> Inr (publish now \<lparr>rn_c = c, rn_a = a\<rparr>)))"

subsection \<open>The loop\<close>

definition note_error :: "fetch_error \<Rightarrow> agent \<Rightarrow> agent" where
  "note_error e a = (case e of FetchOther _ \<Rightarrow> fetchFailed a | _ \<Rightarrow> a)"

text \<open>The records of one partition, until the first error.\<close>

fun consume_records ::
  "gtime \<Rightarrow> kafka_record list \<Rightarrow> run_error option \<times> agent \<Rightarrow> run_error option \<times> agent" where
  "consume_records now [] s = s"
| "consume_records now (kr # krs) (err, a) =
     (if err \<noteq> None then (err, a)
      else if kr_TimestampType kr \<noteq> 1 then (Some NotLogAppendTime, a)
      else
        let (e, a') = agent_record now (kr_Offset kr) (kr_Timestamp kr) (kr_Value kr) a
        in consume_records now krs (map_option ViewFailed e, a'))"

definition consume_partition ::
  "config \<Rightarrow> gtime \<Rightarrow> partition_fetch \<Rightarrow> run_error option \<times> agent \<Rightarrow> run_error option \<times> agent" where
  "consume_partition cfg now fp s =
     (if fp_Err fp \<noteq> None \<or> fp_Topic fp \<noteq> c_Topic cfg \<or> fp_Partition fp \<noteq> c_Partition cfg then s
      else consume_records now (fp_Records fp) (fst s, fetched now (fp_HighWatermark fp) (snd s)))"

definition consume :: "gtime \<Rightarrow> fetches \<Rightarrow> kfk_run \<Rightarrow> run_error option \<times> kfk_run" where
  "consume now fs r =
     (let a1 = fold note_error (fs_errors fs) (rn_a r);
          (err, a2) = fold (consume_partition (cd_cfg (rn_c r)) now) (fs_partitions fs) (None, a1);
          r2 = r\<lparr>rn_a := a2\<rparr>
      in (err, if err = None then publish now r2 else r2))"

text \<open>The record a produce call carries: topic, partition, key and value.\<close>

definition recordKey :: string where
  "recordKey = ''lease''"

record kafka_message =
  km_Topic :: string
  km_Partition :: int
  km_Key :: string
  km_Value :: string

definition kafkaRecord :: "config \<Rightarrow> lrecord \<Rightarrow> record_error + kafka_message" where
  "kafkaRecord cfg rec =
     (case EncodeValue rec of
        Inl e \<Rightarrow> Inl e
      | Inr b \<Rightarrow> Inr \<lparr>km_Topic = c_Topic cfg, km_Partition = c_Partition cfg, km_Key = recordKey,
                      km_Value = b\<rparr>)"

definition produce :: "config \<Rightarrow> lrecord \<Rightarrow> kafka_message option" where
  "produce cfg rec = (case kafkaRecord cfg rec of Inl _ \<Rightarrow> None | Inr m \<Rightarrow> Some m)"

text \<open>The drain of the results channel; each result is taken at its own instant.\<close>

fun drain :: "(gtime \<times> produce_result) list \<Rightarrow> agent \<Rightarrow> agent" where
  "drain [] a = a"
| "drain ((now, res) # rest) a =
     drain rest (acked now (if pr_err res then None else Some (pr_offset res)) a)"

text \<open>
  One turn of the loop. \<open>stop\<close> is what the select after the drain finds: nothing, a done context
  or a requested crash (of two that are ready the select takes either).
\<close>

datatype stop = GoOn | ContextDone | Crash

record turn =
  tn_fetches :: fetches
  tn_consumed :: gtime
  tn_results :: "(gtime \<times> produce_result) list"
  tn_stop :: stop
  tn_ticked :: gtime

datatype loop_end = Continue | Finished "run_error option"

text \<open>The end of a turn: tick, produce what it returns, publish.\<close>

definition tick_produce :: "gtime \<Rightarrow> kfk_run \<Rightarrow> kafka_message option \<times> kfk_run" where
  "tick_produce now r =
     (let (rec, a) = agent_tick now (rn_a r);
          out = (case rec of None \<Rightarrow> None | Some m \<Rightarrow> produce (cd_cfg (rn_c r)) m)
      in (out, publish now (r\<lparr>rn_a := a\<rparr>)))"

definition loop_turn :: "turn \<Rightarrow> kfk_run \<Rightarrow> loop_end \<times> kafka_message option \<times> kfk_run" where
  "loop_turn t r =
     (if fs_closed (tn_fetches t) then (Finished (Some ClientClosed), None, r)
      else
        let (err, r1) = consume (tn_consumed t) (tn_fetches t) r
        in if err \<noteq> None then (Finished err, None, r1)
           else
             let r2 = r1\<lparr>rn_a := drain (tn_results t) (rn_a r1)\<rparr>
             in case tn_stop t of
                  ContextDone \<Rightarrow> (Finished None, None, r2)
                | Crash \<Rightarrow> (Finished (Some CrashRequested), None, r2)
                | GoOn \<Rightarrow>
                   (let (out, r3) = tick_produce (tn_ticked t) r2 in (Continue, out, r3)))"

text \<open>The loop over the turns the client delivers; \<open>None\<close>: it is still running.\<close>

fun loop :: "turn list \<Rightarrow> kfk_run \<Rightarrow> run_error option option \<times> kafka_message list \<times> kfk_run" where
  "loop [] r = (None, [], r)"
| "loop (t # ts) r =
     (case loop_turn t r of
        (Finished e, out, r') \<Rightarrow> (Some e, (case out of None \<Rightarrow> [] | Some m \<Rightarrow> [m]), r')
      | (Continue, out, r') \<Rightarrow>
          let (e, ms, r'') = loop ts r'
          in (e, (case out of None \<Rightarrow> [] | Some m \<Rightarrow> [m]) @ ms, r''))"

text \<open>\<open>shutdown\<close>: the message it tries to write, whatever becomes of it.\<close>

definition shutdown :: "gtime \<Rightarrow> kfk_run \<Rightarrow> kafka_message option \<times> kfk_run" where
  "shutdown now r =
     (let (rec, a) = agent_release now (rn_a r);
          r1 = publish now (r\<lparr>rn_a := a\<rparr>)
      in case rec of
           None \<Rightarrow> (None, r1)
         | Some m \<Rightarrow> (produce (cd_cfg (rn_c r)) m, r1))"

text \<open>
  \<open>Run\<close>, given the outcome of each call before the loop, the turns and the instant of the stop:
  its result (\<open>None\<close> inside: nil), the messages it wrote and the candidate it leaves.
\<close>

definition Run ::
  "(auth_error + client_opt list) \<Rightarrow> string option \<Rightarrow> topic_error option \<Rightarrow>
     gtime \<Rightarrow>
     ((string + listed_offset option) \<times> (string + listed_offset option) \<times> gtime \<times> bool) list \<Rightarrow>
     gtime \<Rightarrow> turn list \<Rightarrow> gtime \<Rightarrow> candidate \<Rightarrow>
     run_error option option \<times> kafka_message list \<times> candidate" where
  "Run auth_opts client_err ensure asked attempts now0 turns stop_at c =
     (case auth_opts of
        Inl e \<Rightarrow> (Some (Some (AuthFailed e)), [], c)
      | Inr _ \<Rightarrow>
         if client_err \<noteq> None then (Some (Some (ClientFailed (the client_err))), [], c)
         else if c_CreateTopic (cd_cfg c) \<and> ensure \<noteq> None
           then (Some (Some (EnsureFailed (the ensure))), [], c)
         else (case partitionBounds (bounds_deadline (cd_cfg c) asked) attempts of
             None \<Rightarrow> (None, [], c)
           | Some bounds \<Rightarrow>
               (case bootstrap c bounds now0 of
                  Inl e \<Rightarrow> (Some (Some e), [], c)
                | Inr r \<Rightarrow>
                    (case loop turns r of
                       (None, ms, r') \<Rightarrow> (None, ms, rn_c r')
                     | (Some e, ms, r') \<Rightarrow>
                         if e = Some CrashRequested then (Some None, ms, rn_c r')
                         else
                           let (m, r'') = shutdown stop_at r'
                           in (Some e, ms @ (case m of None \<Rightarrow> [] | Some x \<Rightarrow> [x]), rn_c r'')))))"

end
