(* ===== verification/AgentInvariant.thy ===== *)
theory AgentInvariant
  imports Agent
begin

section \<open>Invariant of the agent\<close>

text \<open>
  What holds of an agent between any two events, whatever they are, and its preservation by every
  operation of lease/agent.go.
\<close>

text \<open>
  The view is well-formed and has the configured TTL; what is in flight is a claim or a renew,
  sent at the last send; a claim is in flight only without a belief; the belief ends at most
  \<open>ttl - margin\<close> after the last send; verdicts are remembered only for records already read.
\<close>

definition inflight_ok :: "agent \<Rightarrow> bool" where
  "inflight_ok a \<longleftrightarrow>
     (\<forall>f \<in> set_option (ag_inflight a).
        (if_kind f = Claim \<or> if_kind f = Renew) \<and> if_sentAt f = ag_lastSend a \<and>
        (if_kind f = Claim \<longrightarrow> ag_deadline a = 0))"

definition belief_ok :: "agent \<Rightarrow> bool" where
  "belief_ok a \<longleftrightarrow>
     ag_deadline a = 0 \<or>
     ag_deadline a \<le> ag_lastSend a + (c_TTL (ag_cfg a) - c_Margin (ag_cfg a))"

definition agent_wf :: "agent \<Rightarrow> bool" where
  "agent_wf a \<longleftrightarrow>
     timing_ok (ag_cfg a) \<and> view_wf (ag_view a) \<and> v_ttl (ag_view a) = c_TTL (ag_cfg a) \<and>
     inflight_ok a \<and> belief_ok a \<and> dom (ag_ownOutcomes a) \<subseteq> {..<ag_nextOffset a}"

lemma extendBelief_exact [agent_simps]:
  "timing_ok (ag_cfg a) \<Longrightarrow> extendBelief s a =
     a\<lparr>ag_deadline := s + (c_TTL (ag_cfg a) - c_Margin (ag_cfg a))\<rparr>"
  using timing_bounds [of "ag_cfg a"] by (simp add: extendBelief_def go_simps)

text \<open>What a verdict can do to the belief.\<close>

lemma settle_effect:
  assumes "ag_inflight a = Some f" "timing_ok (ag_cfg a)" "0 \<le> now"
  shows
    "(ag_epoch (settle now out a) = ag_epoch a \<and>
       (ag_deadline (settle now out a) = ag_deadline a \<or> ag_deadline (settle now out a) = 0)) \<or>
     (out = Accepted \<and> if_kind f = Claim \<and> ag_epoch (settle now out a) = if_offset f \<and>
       ag_deadline (settle now out a) = if_sentAt f + (c_TTL (ag_cfg a) - c_Margin (ag_cfg a))) \<or>
     (out = Accepted \<and> if_kind f = Renew \<and> ag_epoch (settle now out a) = ag_epoch a \<and>
       ag_deadline (settle now out a) = if_sentAt f + (c_TTL (ag_cfg a) - c_Margin (ag_cfg a)) \<and>
       ag_deadline a \<noteq> 0)"
  using assms by (auto simp: settle_def extendBelief_exact believing_iff dropBelief_eq Let_def)

lemma newAgent_wf:
  assumes "newAgent cfg start endOff now = Some a" "timing_ok cfg"
  shows "agent_wf a"
proof -
  have v: "view_wf (ag_view a)" "v_ttl (ag_view a) = c_TTL cfg"
    using assms by (auto simp: newAgent_def NewView_def NewViewFromStart_def view_wf_def Let_def
        split: if_splits)
  moreover have "ag_cfg a = cfg" "ag_inflight a = None" "ag_deadline a = 0"
    "ag_ownOutcomes a = Map.empty"
    using assms(1) by (auto simp: newAgent_def Let_def go_simps split: option.splits if_splits)
  ultimately show ?thesis
    using assms(2) by (simp add: agent_wf_def inflight_ok_def belief_ok_def)
qed

text \<open>The operations that touch neither the view nor what is in flight.\<close>

lemma lastSend_frame [simp]:
  "ag_lastSend (fetched now hw a) = ag_lastSend a" "ag_lastSend (fetchFailed a) = ag_lastSend a"
  "ag_lastSend (seeRecord now off ts a) = ag_lastSend a"
  "ag_lastSend (checkTerm now a) = ag_lastSend a" "ag_lastSend (settle now out a) = ag_lastSend a"
  "ag_lastSend (ownRecord now off k out a) = ag_lastSend a"
  by (simp_all add: fetched_def fetchFailed_def seeRecord_def checkTerm_def settle_def
      extendBelief_def dropBelief_def ownRecord_def Let_def split: option.splits)

lemma drop_wf: "agent_wf a \<Longrightarrow> agent_wf (a\<lparr>ag_deadline := 0\<rparr>)"
  by (auto simp: agent_wf_def inflight_ok_def belief_ok_def split: option.splits)

lemma checkTerm_wf: "agent_wf a \<Longrightarrow> agent_wf (checkTerm now a)"
  by (simp add: checkTerm_def agent_simps drop_wf Let_def)

lemma fetched_wf: "agent_wf a \<Longrightarrow> agent_wf (fetched now hw a)"
  by (simp add: agent_wf_def inflight_ok_def belief_ok_def split: option.splits)

lemma fetchFailed_wf: "agent_wf a \<Longrightarrow> agent_wf (fetchFailed a)"
  by (simp add: agent_wf_def inflight_ok_def belief_ok_def split: option.splits)

lemma seeRecord_wf:
  assumes "agent_wf a" "ag_nextOffset a \<le> off"
  shows "agent_wf (seeRecord now off ts a)"
  using assms by (fastforce simp: agent_wf_def inflight_ok_def belief_ok_def Gap_wf split: option.splits)

lemma view_update_wf:
  "agent_wf a \<Longrightarrow> view_wf v \<Longrightarrow> v_ttl v = c_TTL (ag_cfg a) \<Longrightarrow> agent_wf (a\<lparr>ag_view := v\<rparr>)"
  by (simp add: agent_wf_def inflight_ok_def belief_ok_def)

text \<open>The verdict on the record in flight.\<close>

lemma settle_wf: "agent_wf a \<Longrightarrow> agent_wf (settle now out a)"
  by (auto simp: agent_wf_def inflight_ok_def belief_ok_def settle_def agent_simps Let_def
      split: option.splits)

lemma ownRecord_wf:
  assumes "agent_wf a" "off < ag_nextOffset a"
  shows "agent_wf (ownRecord now off k out a)"
proof -
  have "agent_wf (a\<lparr>ag_ownOutcomes := (ag_ownOutcomes a)(off \<mapsto> out)\<rparr>)"
    using assms by (auto simp: agent_wf_def inflight_ok_def belief_ok_def split: option.splits)
  with settle_wf [OF assms(1)] assms show ?thesis
    by (simp add: ownRecord_def split: option.splits)
qed

lemma acked_wf:
  assumes "agent_wf a"
  shows "agent_wf (acked now res a)"
proof (cases "ag_inflight a")
  case None
  with assms show ?thesis by (simp add: acked_def)
next
  case (Some f)
  have "agent_wf (a\<lparr>ag_inflight := Some (f\<lparr>if_offset := off\<rparr>)\<rparr>)" for off
    using assms Some by (auto simp: agent_wf_def inflight_ok_def belief_ok_def)
  moreover have "agent_wf (a\<lparr>ag_inflight := None\<rparr>)"
    "agent_wf (a\<lparr>ag_inflight := None, ag_nextClaimAt := t\<rparr>)" for t
    using assms by (auto simp: agent_wf_def inflight_ok_def belief_ok_def)
  ultimately show ?thesis
    using Some settle_wf by (simp add: acked_def Let_def split: option.splits)
qed

lemma agent_record_wf:
  assumes "agent_wf a"
  shows "agent_wf (snd (agent_record now off ts val a))"
proof (cases "off < ag_nextOffset a")
  case True
  with assms show ?thesis by (simp add: agent_record_old)
next
  case False
  let ?s = "seeRecord now off ts a"
  have s: "agent_wf ?s" using seeRecord_wf [OF assms] False by simp
  show ?thesis
  proof (cases "DecodeValue val")
    case (Inl e)
    with s False show ?thesis by (simp add: agent_record_garbage)
  next
    case (Inr d)
    let ?r = "d\<lparr>r_Offset := off, r_Timestamp := ts\<rparr>"
    show ?thesis
    proof (cases "Apply (ag_view ?s) ?r")
      case (Inl e)
      with Inr s False show ?thesis by (simp add: agent_record_def Let_def del: seeRecord_frame(9))
    next
      case (Inr p)
      obtain out v where p: "p = (out, v)" by (cases p)
      have "view_wf v" "v_ttl v = v_ttl (ag_view ?s)"
        using Inr p s Apply_wf Apply_Inr(3) unfolding agent_wf_def by blast+
      then have "agent_wf (?s\<lparr>ag_view := v\<rparr>)"
        using s by (intro view_update_wf) (auto simp: agent_wf_def)
      then have "agent_wf (checkTerm now
          (if r_Holder d = c_Holder (ag_cfg a)
           then ownRecord now off (r_Kind d) out (?s\<lparr>ag_view := v\<rparr>) else ?s\<lparr>ag_view := v\<rparr>))"
        by (auto intro!: checkTerm_wf ownRecord_wf)
      with agent_record_applied [OF False \<open>DecodeValue val = Inr d\<close>] Inr p show ?thesis by simp
    qed
  qed
qed

lemma tickSilence_wf: "agent_wf a \<Longrightarrow> agent_wf (tickSilence now a)"
  by (auto simp: agent_wf_def inflight_ok_def belief_ok_def tickSilence_def Quiet_def setFree_wf)

lemma tickDeadline_wf: "agent_wf a \<Longrightarrow> agent_wf (tickDeadline now a)"
  by (simp add: agent_simps drop_wf)

lemma tickDecide_wf:
  assumes "agent_wf a" "now < ag_deadline a \<or> ag_deadline a = 0"
  shows "agent_wf (snd (tickDecide now a))"
proof (cases "now < ag_deadline a")
  case True
  show ?thesis
  proof (cases "c_RenewEvery (ag_cfg a) \<le> time_Sub now (ag_lastSend a)")
    case renew: True
    have "0 \<le> c_RenewEvery (ag_cfg a)" "c_RenewEvery (ag_cfg a) \<le> i64_max"
      using assms(1) by (auto simp: agent_wf_def timing_ok_def i64_max_def)
    then have "ag_lastSend a \<le> now"
      using renew time_Sub_ge [of "c_RenewEvery (ag_cfg a)" now "ag_lastSend a"]
      by (simp add: i64_min_def)
    with True assms renew show ?thesis
      by (auto simp: agent_wf_def inflight_ok_def belief_ok_def tickDecide_def send_def agent_simps Let_def)
  qed (use assms True in \<open>simp add: tickDecide_def agent_simps\<close>)
next
  case False
  with assms show ?thesis
    by (auto simp: agent_wf_def inflight_ok_def belief_ok_def tickDecide_def send_def agent_simps Let_def)
qed

lemma agent_tick_wf: "agent_wf a \<Longrightarrow> agent_wf (snd (agent_tick now a))"
  unfolding agent_tick_def
  by (intro tickDecide_wf tickSilence_wf tickDeadline_wf) (auto simp: agent_simps)

lemma agent_release_wf: "agent_wf a \<Longrightarrow> agent_wf (snd (agent_release now a))"
  by (simp add: agent_release_def agent_simps drop_wf Let_def)

lemma agent_step_wf: "agent_wf a \<Longrightarrow> agent_wf (snd (agent_step e a))"
  by (cases e)
    (simp_all add: fetched_wf fetchFailed_wf acked_wf agent_record_wf agent_tick_wf agent_release_wf)

lemma agent_run_wf: "agent_wf a \<Longrightarrow> agent_wf (agent_run es a)"
  by (induction es arbitrary: a) (simp_all add: agent_step_wf)

end
