(* ===== verification/AgentRules.thy ===== *)
theory AgentRules
  imports AgentInvariant
begin

section \<open>The writer rules (lease/agent.go, docs/protocol.md)\<close>

text \<open>
  The rules of docs/protocol.md as theorems on single steps of the agent: what starts and extends a
  belief and until when, when the agent writes and what, what a hole, a duplicate and an
  undecodable value do, when silence proves the lease free, and how a claimant backs off.
\<close>

subsection \<open>What a step does to the belief\<close>

lemma settle_belief:
  assumes "ag_deadline (settle now out a) \<noteq> ag_deadline a" "ag_deadline (settle now out a) \<noteq> 0"
    and "timing_ok (ag_cfg a)"
  shows "\<exists>f. ag_inflight a = Some f \<and> out = Accepted \<and> ag_inflight (settle now out a) = None \<and>
    ag_deadline (settle now out a) = if_sentAt f + (c_TTL (ag_cfg a) - c_Margin (ag_cfg a)) \<and>
    (if_kind f = Claim \<and> ag_epoch (settle now out a) = if_offset f \<or>
     if_kind f = Renew \<and> ag_epoch (settle now out a) = ag_epoch a \<and> now < ag_deadline a)"
  using assms
  by (auto simp: settle_def agent_simps Let_def split: option.splits if_splits)

text \<open>
  The record \<open>agent_step\<close> accepts for the one in flight: read back at the acknowledged offset with
  the verdict \<open>Accepted\<close>, or read back before and acknowledged now.
\<close>

definition reads_back :: "event \<Rightarrow> agent \<Rightarrow> inflight \<Rightarrow> int \<Rightarrow> bool" where
  "reads_back e a f off \<longleftrightarrow>
     (case e of
        Read now off' ts val \<Rightarrow>
          off' = off \<and> off = if_offset f \<and> ag_nextOffset a \<le> off \<and>
          (case DecodeValue val of
             Inl _ \<Rightarrow> False
           | Inr d \<Rightarrow> r_Holder d = c_Holder (ag_cfg a) \<and> r_Kind d = if_kind f \<and>
               (case Apply (ag_view (seeRecord now off ts a)) (d\<lparr>r_Offset := off, r_Timestamp := ts\<rparr>)
                of Inr (Accepted, _) \<Rightarrow> True | _ \<Rightarrow> False))
      | Acked now (Some off') \<Rightarrow> off' = off \<and> ag_ownOutcomes a off = Some Accepted
      | _ \<Rightarrow> False)"

definition event_time :: "event \<Rightarrow> gtime" where
  "event_time e = (case e of Read now _ _ _ \<Rightarrow> now | Acked now _ \<Rightarrow> now | Tick now \<Rightarrow> now
     | Stop now \<Rightarrow> now | Fetched now _ \<Rightarrow> now | FetchFailed \<Rightarrow> 0)"

definition own_accepted :: "event \<Rightarrow> agent \<Rightarrow> agent \<Rightarrow> inflight \<Rightarrow> int \<Rightarrow> bool" where
  "own_accepted e a a' f off \<longleftrightarrow>
     ag_inflight a = Some f \<and> ag_inflight a' = None \<and> reads_back e a f off \<and>
     ag_deadline a' = if_sentAt f + (c_TTL (ag_cfg a) - c_Margin (ag_cfg a)) \<and>
     (if_kind f = Claim \<and> ag_epoch a' = off \<or>
      if_kind f = Renew \<and> ag_epoch a' = ag_epoch a \<and> event_time e < ag_deadline a)"

lemma acked_belief:
  assumes ch: "ag_deadline (acked now res a) \<noteq> ag_deadline a" "ag_deadline (acked now res a) \<noteq> 0"
    and t: "timing_ok (ag_cfg a)"
  shows "\<exists>f off. own_accepted (Acked now res) a (acked now res a) f off"
proof -
  obtain f where f: "ag_inflight a = Some f" using ch by (cases "ag_inflight a") (auto simp: acked_def)
  obtain off where off: "res = Some off"
    using ch f by (cases res) (auto simp: acked_def Let_def split: if_splits)
  let ?a = "a\<lparr>ag_inflight := Some (f\<lparr>if_offset := off\<rparr>)\<rparr>"
  obtain out where out: "ag_ownOutcomes a off = Some out"
    using ch f off by (cases "ag_ownOutcomes a off") (auto simp: acked_def Let_def)
  then have a': "acked now res a = settle now out ?a" using f off by (simp add: acked_def)
  with settle_belief [of now out ?a] ch t out off f show ?thesis
    by (intro exI [of _ f] exI [of _ off])
      (auto simp: own_accepted_def reads_back_def event_time_def)
qed

lemma ownRecord_belief:
  assumes ch: "ag_deadline (ownRecord now off k out a) \<noteq> ag_deadline a"
      "ag_deadline (ownRecord now off k out a) \<noteq> 0"
    and t: "timing_ok (ag_cfg a)"
  shows "\<exists>f. ag_inflight a = Some f \<and> if_kind f = k \<and> if_offset f = off \<and> out = Accepted \<and>
    ag_inflight (ownRecord now off k out a) = None \<and>
    ag_deadline (ownRecord now off k out a) = if_sentAt f + (c_TTL (ag_cfg a) - c_Margin (ag_cfg a)) \<and>
    (if_kind f = Claim \<and> ag_epoch (ownRecord now off k out a) = if_offset f \<or>
     if_kind f = Renew \<and> ag_epoch (ownRecord now off k out a) = ag_epoch a \<and> now < ag_deadline a)"
proof -
  obtain f where f: "ag_inflight a = Some f" "if_kind f = k" "if_offset f = off"
    using ch by (auto simp: ownRecord_def split: option.splits if_splits)
  then have "ownRecord now off k out a = settle now out a \<or>
      ag_deadline (ownRecord now off k out a) = ag_deadline a"
    by (simp add: ownRecord_def)
  with settle_belief [of now out a] ch t f show ?thesis by auto
qed

lemma record_belief:
  assumes a'_def: "a' = snd (agent_record now off ts val a)"
    and ch: "ag_deadline a' \<noteq> ag_deadline a" "ag_deadline a' \<noteq> 0" and t: "timing_ok (ag_cfg a)"
  shows "\<exists>f. own_accepted (Read now off ts val) a a' f off"
proof -
  let ?s = "seeRecord now off ts a"
  have off: "\<not> off < ag_nextOffset a"
    using ch(1) by (auto simp: a'_def agent_record_old)
  obtain d where d: "DecodeValue val = Inr d"
    using ch(1) off by (cases "DecodeValue val") (auto simp: a'_def agent_record_garbage)
  obtain out v where v: "Apply (ag_view ?s) (d\<lparr>r_Offset := off, r_Timestamp := ts\<rparr>) = Inr (out, v)"
    using ch(1) off d
    by (cases "Apply (ag_view ?s) (d\<lparr>r_Offset := off, r_Timestamp := ts\<rparr>)")
      (auto simp: a'_def agent_record_def Let_def simp del: seeRecord_frame(9))
  let ?v = "?s\<lparr>ag_view := v\<rparr>" and ?o = "ownRecord now off (r_Kind d) out (?s\<lparr>ag_view := v\<rparr>)"
  have a': "a' = checkTerm now (if r_Holder d = c_Holder (ag_cfg a) then ?o else ?v)"
    unfolding a'_def agent_record_applied [OF off d v] by simp
  have own: "r_Holder d = c_Holder (ag_cfg a)" and a'2: "a' = checkTerm now ?o"
    using ch checkTerm_deadline [of now ?v] a' by (auto split: if_splits)
  then have "ag_deadline a' = ag_deadline ?o" using ch checkTerm_deadline [of now ?o] by auto
  with ownRecord_belief [of now off "r_Kind d" out ?v] ch t obtain f where
    "ag_inflight a = Some f" "if_kind f = r_Kind d" "if_offset f = off" "out = Accepted"
    "ag_inflight ?o = None"
    "ag_deadline a' = if_sentAt f + (c_TTL (ag_cfg a) - c_Margin (ag_cfg a))"
    "if_kind f = Claim \<and> ag_epoch ?o = if_offset f \<or>
     if_kind f = Renew \<and> ag_epoch ?o = ag_epoch a \<and> now < ag_deadline a"
    by auto
  with own a'2 d v off show ?thesis
    by (intro exI [of _ f])
      (auto simp: own_accepted_def reads_back_def event_time_def simp del: seeRecord_frame(9))
qed

lemma tick_belief: "ag_deadline (snd (agent_tick now a)) = (if now < ag_deadline a then ag_deadline a else 0)"
  by (simp add: agent_tick_def tickDecide_def send_def agent_simps Let_def)

lemma release_belief:
  "ag_deadline (snd (agent_release now a)) = (if now < ag_deadline a then 0 else ag_deadline a)"
  by (simp add: agent_release_def agent_simps Let_def)


subsection \<open>After a hole\<close>

lemma Apply_after_Gap:
  assumes "Apply (Gap w) r = Inr (out, v)"
  shows "\<not> v_certain v" "out = Pending"
proof -
  have "\<not> silent_before (Gap w) r" by (simp add: silent_before_def)
  with Apply_Inr(9) [OF assms] have "(out, v) = keepPending (stamped (Gap w) r) (clamped (Gap w) r)"
    by (simp add: applyUncertain_def)
  then show "\<not> v_certain v" "out = Pending"
    by (auto simp: keepPending_def)
qed

lemma silentSince_frame [simp]:
  "silentSince (ownRecord now off k out a) = silentSince a"
  "silentSince (checkTerm now a) = silentSince a"
  by (simp_all add: silentSince_def ownRecord_def settle_def checkTerm_def extendBelief_def
      dropBelief_def Let_def split: option.splits)

lemma silentSince_deadline: "silentSince (a\<lparr>ag_deadline := d\<rparr>) = silentSince a"
  by (simp add: silentSince_def)

lemma record_after_hole:
  assumes "ag_nextOffset a < off"
  shows "\<not> v_certain (ag_view (snd (agent_record now off ts val a))) \<and>
    silentSince (snd (agent_record now off ts val a)) = now"
proof -
  let ?s = "seeRecord now off ts a"
  have s: "ag_view ?s = Gap (ag_view a)" "silentSince ?s = now" "silentSince (?s\<lparr>ag_view := v\<rparr>) = now" for v
    using assms by (simp_all add: seeRecord_def silentSince_def go_simps Let_def)
  show ?thesis
  proof (cases "DecodeValue val")
    case (Inl e)
    with s assms show ?thesis by (simp add: agent_record_garbage)
  next
    case (Inr d)
    then show ?thesis
      using s assms Apply_after_Gap
      by (auto simp: agent_record_def Let_def simp del: seeRecord_frame(9) split: sum.splits)
  qed
qed

subsection \<open>Until the broker answers\<close>

fun answers :: "event \<Rightarrow> bool" where
  "answers (Acked _ _) = True"
| "answers _ = False"

lemma tick_blocked: "ag_inflight a \<noteq> None \<Longrightarrow> fst (agent_tick now a) = None"
  by (auto simp: agent_tick_def tickDecide_def tickDeadline_eq)

text \<open>A record in flight whose offset is not known yet stays in flight.\<close>

definition unanswered :: "agent \<Rightarrow> bool" where
  "unanswered a \<longleftrightarrow> ag_inflight a \<noteq> None \<and> if_offset (the (ag_inflight a)) = -1"

lemma unanswered_ownRecord: "unanswered a \<Longrightarrow> unanswered (ownRecord now off k out a)"
  by (auto simp: unanswered_def ownRecord_def)

lemma unanswered_record: "unanswered a \<Longrightarrow> unanswered (snd (agent_record now off ts val a))"
proof -
  assume u: "unanswered a"
  then have s: "unanswered ((seeRecord now off ts a)\<lparr>ag_view := v\<rparr>)" "unanswered (seeRecord now off ts a)" for v
    by (simp_all add: unanswered_def)
  have check: "unanswered (checkTerm now b) = unanswered b" for b by (simp add: unanswered_def)
  show ?thesis
    using u s check unanswered_ownRecord
    by (simp add: agent_record_def Let_def split: sum.splits prod.splits del: seeRecord_frame(9))
qed

lemma unanswered_step: "unanswered a \<Longrightarrow> \<not> answers e \<Longrightarrow> unanswered (snd (agent_step e a))"
proof (cases e)
  case (Read now off ts val)
  then show "unanswered a \<Longrightarrow> \<not> answers e \<Longrightarrow> unanswered (snd (agent_step e a))"
    by (simp add: unanswered_record)
qed (auto simp: agent_tick_def tickDecide_def tickDeadline_eq agent_release_def dropBelief_eq
      unanswered_def Let_def)

lemma unanswered_run: "unanswered a \<Longrightarrow> list_all (\<lambda>e. \<not> answers e) es \<Longrightarrow> unanswered (agent_run es a)"
  by (induction es arbitrary: a) (simp_all add: unanswered_step)

subsection \<open>A participant to try the rules on\<close>

definition sample_config :: "string \<Rightarrow> config" where
  "sample_config h =
     \<lparr>c_Brokers = [''b:9092''], c_Topic = ''t'', c_Partition = 0, c_CreateTopic = False, c_Holder = h,
      c_TTL = 10 * Second, c_Margin = 2 * Second, c_RenewEvery = 3 * Second, c_Auth = zero_auth,
      c_Logger = Some DefaultLogger, c_ClientOpts = []\<rparr>"

text \<open>At 100 s: a believer of epoch 4 until 103 s, certain, its renewal at 97 s in flight and
  acknowledged at offset 7, which is the next one to read.\<close>

definition sample_view :: view where
  "sample_view =
     \<lparr>v_ttl = 10 * Second, v_certain = True,
      v_state = \<lparr>st_Holder = ''a'', st_Epoch = 4, st_Expires = 205 * Second\<rparr>,
      v_clock = 195 * Second, v_lastOffset = 6, v_seen = True, v_pending = []\<rparr>"

definition sample_agent :: agent where
  "sample_agent =
     \<lparr>ag_cfg = sample_config ''a'', ag_view = sample_view, ag_nextOffset = 7, ag_highWater = 7,
      ag_ownOutcomes = Map.empty, ag_epoch = 4, ag_deadline = 103 * Second,
      ag_inflight = Some \<lparr>if_kind = Renew, if_sentAt = 97 * Second, if_offset = 7\<rparr>,
      ag_lastSend = 97 * Second, ag_nextClaimAt = 0, ag_connected = True, ag_fetchedOnce = True,
      ag_caughtUpAt = 90 * Second, ag_lastRecordAt = 95 * Second, ag_lastRecordBroker = 195 * Second\<rparr>"

lemma sample_timing: "timing_ok (sample_config h)"
  by (simp add: timing_ok_def sample_config_def Second_def)

definition sample_renew :: lrecord where
  "sample_renew = \<lparr>r_Offset = 0, r_Timestamp = 0, r_Kind = Renew, r_Holder = ''a'', r_Epoch = 4,
                   r_TTL = 10 * Second\<rparr>"

lemma sample_renew_decodes: "DecodeValue (value_of sample_renew) = Inr sample_renew"
proof -
  have "plain_key ''a''" by code_simp
  then have "encodable sample_renew"
    using plain_key_quote
    by (simp add: encodable_def sample_renew_def is_i64_def i64_min_def i64_max_def Second_def)
  moreover have "carried sample_renew = sample_renew"
    by (simp add: carried_def sample_renew_def Milliseconds_def Second_def Millisecond_def
        time_zero_def go_simps)
  ultimately show ?thesis using decode_value_of by metis
qed

text \<open>What the agent is after it read its renewal back.\<close>

definition sample_after :: agent where
  "sample_after =
     sample_agent\<lparr>ag_nextOffset := 8, ag_lastRecordAt := 100 * Second,
       ag_lastRecordBroker := 197 * Second, ag_deadline := 105 * Second, ag_inflight := None,
       ag_view := sample_view\<lparr>v_state := \<lparr>st_Holder = ''a'', st_Epoch = 4,
         st_Expires = 207 * Second\<rparr>, v_clock := 197 * Second, v_lastOffset := 7\<rparr>\<rparr>"

lemma sample_read:
  "agent_record (100 * Second) 7 (197 * Second) (value_of sample_renew) sample_agent =
     (None, sample_after)"
proof -
  let ?v = "sample_view\<lparr>v_state := \<lparr>st_Holder = ''a'', st_Epoch = 4, st_Expires = 207 * Second\<rparr>,
    v_clock := 197 * Second, v_lastOffset := 7\<rparr>"
  have v: "Apply (ag_view (seeRecord (100 * Second) 7 (197 * Second) sample_agent))
      (sample_renew\<lparr>r_Offset := 7, r_Timestamp := 197 * Second\<rparr>) = Inr (Accepted, ?v)"
    by code_simp
  have "checkTerm (100 * Second) (ownRecord (100 * Second) 7 Renew Accepted
      ((seeRecord (100 * Second) 7 (197 * Second) sample_agent)\<lparr>ag_view := ?v\<rparr>)) = sample_after"
    by (simp add: sample_after_def sample_agent_def sample_view_def sample_config_def seeRecord_def
        ownRecord_def settle_def checkTerm_def HeldAt_def agent_simps go_simps Second_def
        extendBelief_def i64_sub_def i64_wrap_def Let_def)
  with agent_record_applied [OF _ sample_renew_decodes v] show ?thesis
    by (simp add: sample_agent_def sample_renew_def sample_config_def)
qed

subsection \<open>Properties\<close>

text \<open>C11: a belief starts or is extended by nothing but the agent's own record in flight: it was
  read back with the verdict Accepted at the offset the broker acknowledged (in either order), it
  is then no longer in flight, a claim gives its offset as the epoch, a renewal counts only while
  the agent still believes, and the belief ends one TTL less the margin after the record was sent.\<close>
theorem belief_from_own_record:
  assumes "timing_ok (ag_cfg a)" "agent_step e a = (out, a')"
    and "ag_deadline a' \<noteq> ag_deadline a" "ag_deadline a' \<noteq> 0"
  shows "\<exists>f off. own_accepted e a a' f off"
proof (cases e)
  case (Read now off ts val)
  with assms record_belief [of a' now off ts val a] show ?thesis by auto
next
  case (Acked now res)
  with assms acked_belief [of now res a] show ?thesis by auto
next
  case (Tick now)
  with assms tick_belief [of now a] show ?thesis by (simp split: if_splits)
next
  case (Stop now)
  with assms release_belief [of now a] show ?thesis by (simp split: if_splits)
qed (use assms in auto)

theorem belief_from_own_record_witness:
  "\<exists>f off. own_accepted (Read (100 * Second) 7 (197 * Second) (value_of sample_renew)) sample_agent
     (snd (agent_record (100 * Second) 7 (197 * Second) (value_of sample_renew) sample_agent)) f off"
proof (rule belief_from_own_record)
  show "timing_ok (ag_cfg sample_agent)" by (simp add: sample_agent_def sample_timing)
  show "agent_step (Read (100 * Second) 7 (197 * Second) (value_of sample_renew)) sample_agent =
    (None, snd (agent_record (100 * Second) 7 (197 * Second) (value_of sample_renew) sample_agent))"
    by simp
  show "ag_deadline (snd (agent_record (100 * Second) 7 (197 * Second) (value_of sample_renew)
      sample_agent)) \<noteq> ag_deadline sample_agent"
  unfolding sample_read by (simp add: sample_after_def sample_agent_def Second_def)
  show "ag_deadline (snd (agent_record (100 * Second) 7 (197 * Second) (value_of sample_renew)
      sample_agent)) \<noteq> 0"
  unfolding sample_read by (simp add: sample_after_def sample_agent_def Second_def)
qed

text \<open>C12: the writer rules 1, 2 and 5. A tick writes only on a certain view and with nothing in flight;
  a believer writes a renewal of its epoch, RenewEvery or more after its last send; anyone else
  writes a claim, after its back-off and when its view shows no live term at the estimated broker
  time. Until the broker answers, no tick writes again, whatever else happens.\<close>
theorem tick_follows_writer_rules:
  assumes "agent_wf a" "0 \<le> now" "agent_tick now a = (Some r, a')" "list_all (\<lambda>e. \<not> answers e) es"
  shows "ag_inflight a = None \<and> v_certain (ag_view a') \<and>
    r_Holder r = c_Holder (ag_cfg a) \<and> r_TTL r = c_TTL (ag_cfg a) \<and>
    (if believing a now
     then r_Kind r = Renew \<and> r_Epoch r = ag_epoch a \<and> c_RenewEvery (ag_cfg a) \<le> now - ag_lastSend a
     else r_Kind r = Claim \<and> ag_nextClaimAt a < now \<and>
       \<not> HeldAt (v_state (ag_view a')) (brokerNow a' now)) \<and>
    fst (agent_tick t (agent_run es a')) = None"
proof -
  let ?b = "tickSilence now (tickDeadline now a)"
  have b: "believing ?b now = believing a now" "ag_lastSend ?b = ag_lastSend a"
    "ag_nextClaimAt ?b = ag_nextClaimAt a"
    using assms(2) by (auto simp: believing_iff tickDeadline_eq)
  have renew: "c_RenewEvery (ag_cfg a) \<le> now - ag_lastSend a"
    if "c_RenewEvery (ag_cfg a) \<le> time_Sub now (ag_lastSend a)"
    using that assms(1) time_Sub_ge [of "c_RenewEvery (ag_cfg a)" now "ag_lastSend a"]
    by (auto simp: agent_wf_def timing_ok_def i64_max_def i64_min_def)
  have w: "ag_inflight a = None" "v_certain (ag_view ?b)"
    "if believing a now
     then c_RenewEvery (ag_cfg a) \<le> time_Sub now (ag_lastSend a) \<and> send now Renew ?b = (r, a')
     else ag_nextClaimAt a < now \<and> \<not> HeldAt (v_state (ag_view ?b)) (brokerNow ?b now) \<and>
       send now Claim ?b = (r, a')"
    using assms(3) b
    by (auto simp: agent_tick_def tickDecide_def tickDeadline_eq go_simps split: if_splits prod.splits)
  then obtain k where k: "send now k ?b = (r, a')" "k = (if believing a now then Renew else Claim)"
    by (auto split: if_splits)
  then have s: "ag_view a' = ag_view ?b" "brokerNow a' now = brokerNow ?b now"
    "unanswered a'" "r_Kind r = k" "r_Holder r = c_Holder (ag_cfg a)" "r_TTL r = c_TTL (ag_cfg a)"
    "k = Renew \<Longrightarrow> r_Epoch r = ag_epoch a"
    by (auto simp: send_def newRecord_def brokerNow_def unanswered_def tickDeadline_eq Let_def)
  have "ag_inflight (agent_run es a') \<noteq> None"
    using unanswered_run [OF s(3) assms(4)] by (auto simp: unanswered_def)
  then show ?thesis using w s k(2) renew tick_blocked by (auto split: if_splits)
qed

theorem tick_follows_writer_rules_witness:
  "\<exists>r a'. agent_tick (101 * Second) (sample_agent\<lparr>ag_inflight := None\<rparr>) = (Some r, a') \<and>
     r_Kind r = Renew \<and> r_Epoch r = 4 \<and>
     fst (agent_tick (102 * Second) (agent_run [Fetched (101 * Second) 9, Tick (101 * Second)] a')) = None"
proof -
  let ?a = "sample_agent\<lparr>ag_inflight := None\<rparr>"
  obtain r a' where t: "agent_tick (101 * Second) ?a = (Some r, a')"
    by (simp add: agent_tick_def tickDeadline_eq tickSilence_def tickDecide_def believing_iff send_def
        sample_agent_def sample_view_def sample_config_def Second_def time_Sub_exact is_i64_def
        i64_min_def i64_max_def Let_def)
  have wf: "agent_wf ?a"
  proof -
    have "view_wf sample_view" by (simp add: view_wf_def sample_view_def Second_def)
    then show ?thesis
      by (simp add: agent_wf_def sample_agent_def sample_timing inflight_ok_def belief_ok_def)
        (simp add: sample_config_def sample_view_def Second_def)
  qed
  have "believing ?a (101 * Second)" "ag_epoch ?a = 4" "0 \<le> 101 * Second" by code_simp+
  moreover have "list_all (\<lambda>e. \<not> answers e) [Fetched (101 * Second) 9, Tick (101 * Second)]" by simp
  ultimately show ?thesis
    using tick_follows_writer_rules [OF wf _ t, of "[Fetched (101 * Second) 9, Tick (101 * Second)]"
        "102 * Second"] t by auto
qed

text \<open>Release gives the belief up before anything is written: from then on the agent believes
  at no time, and the release it returns, exactly when it believed, names the epoch it held.\<close>
lemma release_drops_belief:
  "(if believing a now
    then agent_release now a =
           (Some \<lparr>r_Offset = 0, r_Timestamp = 0, r_Kind = Release, r_Holder = c_Holder (ag_cfg a),
                   r_Epoch = ag_epoch a, r_TTL = c_TTL (ag_cfg a)\<rparr>, a\<lparr>ag_deadline := 0\<rparr>) \<and>
         \<not> believing (a\<lparr>ag_deadline := 0\<rparr>) (max 0 t)
    else agent_release now a = (None, a))"
  by (simp add: agent_release_def newRecord_def agent_simps go_simps Let_def)


text \<open>
  The only ways out of uncertainty that \<open>record\<close> has: a record right after the last one, behind a
  TTL without one by the brokers' clock, or a renewal or release of the term of a pending record.
\<close>

definition reads_proof :: "agent \<Rightarrow> event \<Rightarrow> bool" where
  "reads_proof a e \<longleftrightarrow>
     (case e of
        Read now off ts val \<Rightarrow> off = ag_nextOffset a \<and>
          (case DecodeValue val of
             Inl _ \<Rightarrow> False
           | Inr d \<Rightarrow> silent_before (ag_view a) (d\<lparr>r_Offset := off, r_Timestamp := ts\<rparr>) \<or>
               r_Kind d \<noteq> Claim \<and> find_anchor (r_Holder d) (r_Epoch d) (v_pending (ag_view a)) \<noteq> None)
      | _ \<Rightarrow> False)"

lemma record_uncertain:
  assumes "\<not> v_certain (ag_view a)" "\<not> reads_proof a (Read now off ts val)"
  shows "\<not> v_certain (ag_view (snd (agent_record now off ts val a)))"
proof (cases "ag_nextOffset a = off")
  case False
  with assms(1) record_after_hole [of a off now ts val] show ?thesis
    by (cases "off < ag_nextOffset a") (auto simp: agent_record_old)
next
  case True
  have view: "ag_view (seeRecord now off ts a) = ag_view a" using True by simp
  have "\<not> v_certain v"
    if d: "DecodeValue val = Inr d"
      and app: "Apply (ag_view a) (d\<lparr>r_Offset := off, r_Timestamp := ts\<rparr>) = Inr (out, v)" for d out v
  proof -
    let ?r = "d\<lparr>r_Offset := off, r_Timestamp := ts\<rparr>"
    have no: "\<not> silent_before (ag_view a) ?r"
      "r_Kind d = Claim \<or> find_anchor (r_Holder d) (r_Epoch d) (v_pending (ag_view a)) = None"
      using assms(2) True d by (auto simp: reads_proof_def)
    have "(out, v) = keepPending (stamped (ag_view a) ?r) (clamped (ag_view a) ?r)"
      using Apply_Inr(9) [OF app assms(1) no(1)] no(2)
      by (auto simp: applyUncertain_def rec_term_def)
    with assms(1) show ?thesis by (auto simp: keepPending_def)
  qed
  with assms(1) True view show ?thesis
    by (simp add: agent_record_def Let_def del: seeRecord_frame(9) split: sum.splits)
qed

text \<open>Uncertain, and silence counted from \<open>now\<close> or later.\<close>

definition unsure_since :: "gtime \<Rightarrow> agent \<Rightarrow> bool" where
  "unsure_since now a \<longleftrightarrow> \<not> v_certain (ag_view a) \<and> now \<le> ag_caughtUpAt a"

lemma unsure_tick:
  assumes "timing_ok (ag_cfg a)" "unsure_since now a" "t < now + (c_TTL (ag_cfg a) + c_Margin (ag_cfg a))"
  shows "fst (agent_tick t a) = None" "unsure_since now (snd (agent_tick t a))"
proof -
  let ?d = "c_TTL (ag_cfg a) + c_Margin (ag_cfg a)"
  have d: "?d \<le> i64_max" "i64_min < ?d" "i64_add (c_TTL (ag_cfg a)) (c_Margin (ag_cfg a)) = ?d"
    using timing_bounds [OF assms(1)] by (auto simp: is_i64_def i64_min_def go_simps)
  have "now \<le> silentSince a" using assms(2) by (auto simp: unsure_since_def silentSince_def go_simps)
  then have "\<not> ?d \<le> time_Sub t (silentSince a)"
    using assms(3) d(1,2) time_Sub_ge [of ?d t "silentSince a"] by auto
  then have "tickSilence t (tickDeadline t a) = tickDeadline t a"
    using d(3) by (simp add: tickSilence_def agent_simps silentSince_deadline)
  then show "fst (agent_tick t a) = None" "unsure_since now (snd (agent_tick t a))"
    using assms(2) by (simp_all add: agent_tick_def tickDecide_def unsure_since_def agent_simps)
qed

lemma caughtUp_frame [simp]:
  "ag_caughtUpAt (settle now out a) = ag_caughtUpAt a"
  "ag_caughtUpAt (ownRecord now off k out a) = ag_caughtUpAt a"
  "ag_caughtUpAt (checkTerm now a) = ag_caughtUpAt a"
  "ag_caughtUpAt (acked now res a) = ag_caughtUpAt a"
  by (simp_all add: settle_def ownRecord_def checkTerm_def acked_def extendBelief_def dropBelief_def
      Let_def split: option.splits)

lemma caughtUp_record:
  "ag_caughtUpAt (snd (agent_record t off ts val a)) =
     (if ag_nextOffset a < off then t else ag_caughtUpAt a)"
  by (simp add: agent_record_def seeRecord_def Let_def split: sum.splits)

definition within :: "gtime \<Rightarrow> gtime \<Rightarrow> event \<Rightarrow> bool" where
  "within now end_at e \<longleftrightarrow> e = FetchFailed \<or> now \<le> event_time e \<and> event_time e < end_at"

lemma unsure_step:
  assumes "timing_ok (ag_cfg a)" "unsure_since now a" "\<not> reads_proof a e"
    and "within now (now + (c_TTL (ag_cfg a) + c_Margin (ag_cfg a))) e"
  shows "unsure_since now (snd (agent_step e a))"
proof (cases e)
  case (Read t off ts val)
  with assms record_uncertain [of a t off ts val] show ?thesis
    by (auto simp: unsure_since_def caughtUp_record within_def event_time_def)
next
  case (Tick t)
  with assms unsure_tick [OF assms(1,2)] show ?thesis by (simp add: within_def event_time_def)
qed (use assms in \<open>auto simp: unsure_since_def fetchFailed_def fetched_def agent_release_def
        dropBelief_eq within_def event_time_def Let_def\<close>)

lemma unsure_run:
  assumes "timing_ok (ag_cfg a)" "unsure_since now a"
    and "list_all (within now (now + (c_TTL (ag_cfg a) + c_Margin (ag_cfg a)))) es"
    and "\<And>es1 e es2. es = es1 @ e # es2 \<Longrightarrow> \<not> reads_proof (agent_run es1 a) e"
  shows "unsure_since now (agent_run es a)"
  using assms
proof (induction es arbitrary: a)
  case (Cons e es)
  have "unsure_since now (snd (agent_step e a))"
    using unsure_step [OF Cons.prems(1,2)] Cons.prems(3) Cons.prems(4) [of "[]"] by simp
  moreover have "\<not> reads_proof (agent_run es1 (snd (agent_step e a))) e'"
    if "es = es1 @ e' # es2" for es1 e' es2
    using Cons.prems(4) [of "e # es1"] that by simp
  ultimately show ?case using Cons.IH [of "snd (agent_step e a)"] Cons.prems(1,3) by simp
qed simp

text \<open>C19: a hole in the offsets makes the view uncertain whatever the record after it says, and
  for a TTL plus the margin no tick writes anything, whatever else happens, unless a record read
  meanwhile proves the state: it follows a silence of a TTL by the brokers' timestamps, or it is a
  renewal or release of the term of a record read since the hole. (A stop may still release.)\<close>
theorem hole_silences_agent:
  assumes "timing_ok (ag_cfg a)" "ag_nextOffset a < off"
    and "list_all (within now (now + (c_TTL (ag_cfg a) + c_Margin (ag_cfg a)))) (es @ [Tick t])"
  shows "\<not> v_certain (ag_view (snd (agent_record now off ts val a))) \<and>
    (fst (agent_tick t (agent_run es (snd (agent_record now off ts val a)))) \<noteq> None \<longrightarrow>
      (\<exists>es1 e es2. es = es1 @ e # es2 \<and>
         reads_proof (agent_run es1 (snd (agent_record now off ts val a))) e))"
proof -
  let ?a = "snd (agent_record now off ts val a)"
  have cfg: "ag_cfg ?a = ag_cfg a" using agent_step_cfg [of "Read now off ts val" a] by simp
  have unc: "unsure_since now ?a"
    using record_after_hole [OF assms(2)] assms(2) by (simp add: unsure_since_def caughtUp_record)
  have "fst (agent_tick t (agent_run es ?a)) = None"
    if no: "\<not> (\<exists>es1 e es2. es = es1 @ e # es2 \<and> reads_proof (agent_run es1 ?a) e)"
  proof -
    have "unsure_since now (agent_run es ?a)"
      by (rule unsure_run [OF _ unc]) (use no assms(1,3) cfg in auto)
    from unsure_tick(1) [OF _ this] show ?thesis
      using assms(1,3) cfg by (simp add: within_def event_time_def)
  qed
  moreover have "\<not> v_certain (ag_view ?a)" using unc by (simp add: unsure_since_def)
  ultimately show ?thesis by satx
qed

theorem hole_silences_agent_witness:
  "fst (agent_tick (111 * Second) (agent_run [Fetched (101 * Second) 10, FetchFailed, Tick (103 * Second)]
     (snd (agent_record (100 * Second) 9 (197 * Second) (value_of sample_renew) sample_agent)))) = None"
proof -
  let ?es = "[Fetched (101 * Second) 10, FetchFailed, Tick (103 * Second)]"
  have no: "\<not> reads_proof b e" if "?es = es1 @ e # es2" for b es1 e es2
  proof -
    have "e \<in> set ?es" unfolding that by simp
    then show ?thesis by (auto simp: reads_proof_def)
  qed
  have "timing_ok (ag_cfg sample_agent)" "ag_nextOffset sample_agent < 9"
    by (simp_all add: sample_agent_def sample_timing)
  moreover have "list_all (within (100 * Second) (100 * Second + (c_TTL (ag_cfg sample_agent) +
      c_Margin (ag_cfg sample_agent)))) (?es @ [Tick (111 * Second)])"
    by (simp add: within_def event_time_def sample_agent_def sample_config_def Second_def)
  ultimately have "fst (agent_tick (111 * Second) (agent_run ?es (snd (agent_record (100 * Second) 9
      (197 * Second) (value_of sample_renew) sample_agent)))) \<noteq> None \<longrightarrow>
    (\<exists>es1 e es2. ?es = es1 @ e # es2 \<and> reads_proof (agent_run es1 (snd (agent_record (100 * Second) 9
      (197 * Second) (value_of sample_renew) sample_agent))) e)"
    by (rule hole_silences_agent [THEN conjunct2])
  with no show ?thesis by blast
qed

text \<open>An agent that believes after reading a record its view is certain about owns the term the
  log shows: own holder, the epoch it believes in, not expired by the broker's clock. A term that
  ended in the log, or that another participant has taken, ends the belief at once.\<close>
lemma believer_owns_log_term:
  assumes "ag_nextOffset a \<le> off" "DecodeValue val = Inr d"
    and "agent_record now off ts val a = (None, a')"
    and "believing a' now" "v_certain (ag_view a')" "0 \<le> now"
  shows "st_Holder (v_state (ag_view a')) = c_Holder (ag_cfg a') \<and>
         st_Epoch (v_state (ag_view a')) = ag_epoch a' \<and>
         HeldAt (v_state (ag_view a')) (v_clock (ag_view a'))"
proof -
  obtain b where "a' = checkTerm now b"
    using assms(1-3) by (auto simp: agent_record_def Let_def split: sum.splits)
  with assms(4-6) show ?thesis
    by (auto simp: checkTerm_def agent_simps Let_def split: if_splits)
qed

theorem believer_owns_log_term_witness:
  "st_Epoch (v_state (ag_view sample_after)) = 4 \<and>
   HeldAt (v_state (ag_view sample_after)) (v_clock (ag_view sample_after))"
proof -
  have "believing sample_after (100 * Second)" "v_certain (ag_view sample_after)"
    "ag_nextOffset sample_agent \<le> 7" "ag_epoch sample_after = 4" "0 \<le> 100 * Second"
    by code_simp+
  with believer_owns_log_term [OF _ sample_renew_decodes sample_read] show ?thesis by simp
qed

text \<open>A claimant that waits: nothing in flight, no belief.\<close>

definition waiting :: "gtime \<Rightarrow> agent \<Rightarrow> bool" where
  "waiting until a \<longleftrightarrow> ag_inflight a = None \<and> ag_deadline a = 0 \<and> ag_nextClaimAt a = until"

definition up_to :: "gtime \<Rightarrow> event \<Rightarrow> bool" where
  "up_to until e \<longleftrightarrow> 0 \<le> event_time e \<and> event_time e \<le> until"

lemma waiting_tick:
  assumes "waiting until a" "0 \<le> t" "t \<le> until"
  shows "fst (agent_tick t a) = None" "waiting until (snd (agent_tick t a))"
  using assms by (simp_all add: agent_tick_def tickDecide_def waiting_def agent_simps go_simps)

lemma waiting_step:
  assumes "waiting until a" "up_to until e"
  shows "fst (agent_step e a) = None \<and> waiting until (snd (agent_step e a))"
proof (cases e)
  case (Read t off ts val)
  have own: "ownRecord t off k out b = b" if "ag_inflight b = None" for k out b
    using that by (simp add: ownRecord_def)
  have check: "checkTerm t b = b" if "ag_deadline b = 0" for b
    using that assms(2) Read by (simp add: checkTerm_def agent_simps up_to_def event_time_def)
  have "ag_nextClaimAt (seeRecord t off ts a) = ag_nextClaimAt a"
    by (simp add: seeRecord_def Let_def)
  with Read assms(1) show ?thesis
    by (simp add: waiting_def agent_record_def own check Let_def del: seeRecord_frame(9) split: sum.splits prod.splits)
next
  case (Tick t)
  with waiting_tick [OF assms(1)] assms(2) show ?thesis by (simp add: up_to_def event_time_def)
qed (use assms in \<open>auto simp: waiting_def up_to_def event_time_def fetchFailed_def fetched_def
        acked_def agent_release_def believing_iff Let_def\<close>)

lemma waiting_run:
  "waiting until a \<Longrightarrow> list_all (up_to until) es \<Longrightarrow> waiting until (agent_run es a)"
  by (induction es arbitrary: a) (simp_all add: waiting_step)

text \<open>C37: a rejected claim makes the agent wait at least one poll interval and at most one TTL, and
  until that wait is over it writes nothing, whatever it reads and whatever else happens.\<close>
theorem rejected_claim_backs_off:
  assumes "timing_ok (ag_cfg a)" "ag_inflight a = Some f" "if_kind f = Claim" "ag_deadline a = 0"
    and "a' = settle now Rejected a"
    and "list_all (up_to (ag_nextClaimAt a')) (es @ [e])"
  shows "now + pollEvery (ag_cfg a) \<le> ag_nextClaimAt a' \<and>
         ag_nextClaimAt a' \<le> now + c_TTL (ag_cfg a) \<and>
         fst (agent_step e (agent_run es a')) = None"
proof -
  have "pollEvery (ag_cfg a) \<le> c_TTL (ag_cfg a)"
    using pollEvery_bounds [OF assms(1)] assms(1) by (auto simp: timing_ok_def)
  then have n: "now + pollEvery (ag_cfg a) \<le> ag_nextClaimAt a'"
    "ag_nextClaimAt a' \<le> now + c_TTL (ag_cfg a)" "waiting (ag_nextClaimAt a') a'"
    using assms(2-5) by (auto simp: settle_def waiting_def Let_def go_simps)
  with waiting_step [OF waiting_run [OF n(3)]] assms(6) show ?thesis by simp
qed

definition sample_claimant :: agent where
  "sample_claimant = sample_agent\<lparr>ag_deadline := 0,
     ag_inflight := Some \<lparr>if_kind = Claim, if_sentAt = 97 * Second, if_offset = 6\<rparr>\<rparr>"

theorem rejected_claim_backs_off_witness:
  "ag_nextClaimAt (settle (100 * Second) Rejected sample_claimant) = 105 * Second \<and>
   fst (agent_step (Tick (105 * Second)) (agent_run
     [Read (101 * Second) 7 (197 * Second) (value_of sample_renew), Tick (104 * Second)]
     (settle (100 * Second) Rejected sample_claimant))) = None"
proof -
  let ?es = "[Read (101 * Second) 7 (197 * Second) (value_of sample_renew), Tick (104 * Second)]"
  have n: "ag_nextClaimAt (settle (100 * Second) Rejected sample_claimant) = 105 * Second" by code_simp
  have "list_all (up_to (105 * Second)) (?es @ [Tick (105 * Second)])"
    by (simp add: up_to_def event_time_def Second_def)
  with rejected_claim_backs_off [of sample_claimant _ _ "100 * Second" ?es "Tick (105 * Second)"]
    sample_timing n show ?thesis
    by (simp add: sample_claimant_def sample_agent_def)
qed

text \<open>C18: silence makes an uncertain view certain only at the end of the log as last reported, on a
  working connection, a TTL plus the margin after the last record was read and after the agent
  caught up; the lease is then free.\<close>
theorem silence_takes_ttl_and_margin:
  assumes "agent_wf a" "\<not> v_certain (ag_view a)" "v_certain (ag_view (snd (agent_tick now a)))"
  shows "ag_connected a \<and> ag_highWater a \<le> ag_nextOffset a \<and>
         c_TTL (ag_cfg a) + c_Margin (ag_cfg a) \<le> now - ag_lastRecordAt a \<and>
         c_TTL (ag_cfg a) + c_Margin (ag_cfg a) \<le> now - ag_caughtUpAt a \<and>
         st_Holder (v_state (ag_view (snd (agent_tick now a)))) = []"
proof -
  let ?b = "tickDeadline now a" and ?d = "c_TTL (ag_cfg a) + c_Margin (ag_cfg a)"
  have ok: "timing_ok (ag_cfg a)" using assms(1) by (simp add: agent_wf_def)
  have b: "ag_cfg ?b = ag_cfg a" "ag_view ?b = ag_view a" "ag_connected ?b = ag_connected a"
    "ag_highWater ?b = ag_highWater a" "ag_nextOffset ?b = ag_nextOffset a"
    "silentSince ?b = silentSince a"
    by (simp_all add: agent_simps silentSince_deadline)
  have view: "ag_view (snd (agent_tick now a)) = ag_view (tickSilence now ?b)"
    by (simp add: agent_tick_def tickDecide_def send_def Let_def)
  then have c: "ag_connected a" "ag_highWater a \<le> ag_nextOffset a"
    "i64_add (c_TTL (ag_cfg a)) (c_Margin (ag_cfg a)) \<le> time_Sub now (silentSince a)"
    using assms(2,3) b by (auto simp: tickSilence_def split: if_splits)
  have "?d \<le> i64_max" "i64_min < ?d"
    using timing_bounds [OF ok] by (auto simp: is_i64_def i64_min_def)
  then have "?d \<le> now - silentSince a"
    using c(3) timing_bounds [OF ok] time_Sub_ge [of ?d now "silentSince a"] by (simp add: go_simps)
  moreover have "ag_lastRecordAt a \<le> silentSince a" "ag_caughtUpAt a \<le> silentSince a"
    by (auto simp: silentSince_def go_simps)
  moreover have "v_ttl (ag_view a) = c_TTL (ag_cfg a)" using assms(1) by (simp add: agent_wf_def)
  ultimately show ?thesis
    using c assms(2,3) b view by (auto simp: tickSilence_def Quiet_def)
qed

definition sample_late :: agent where
  "sample_late = sample_agent\<lparr>ag_deadline := 0, ag_inflight := None, ag_view :=
     \<lparr>v_ttl = 10 * Second, v_certain = False, v_state = zero_state, v_clock = 195 * Second,
      v_lastOffset = 6, v_seen = True, v_pending = []\<rparr>\<rparr>"

theorem silence_takes_ttl_and_margin_witness:
  "st_Holder (v_state (ag_view (snd (agent_tick (107 * Second) sample_late)))) = []"
proof -
  have "agent_wf sample_late"
    by (simp add: agent_wf_def sample_late_def sample_agent_def sample_timing view_wf_def
        pending_ok_def inflight_ok_def belief_ok_def) (simp add: sample_config_def Second_def)
  moreover have "v_certain (ag_view (snd (agent_tick (107 * Second) sample_late)))" by code_simp
  moreover have "\<not> v_certain (ag_view sample_late)" by code_simp
  ultimately show ?thesis using silence_takes_ttl_and_margin by blast
qed

end
