(* ===== verification/CandidateRules.thy ===== *)
theory CandidateRules
  imports Candidate AgentRules
begin

section \<open>What a candidate promises (lease/candidate.go)\<close>

text \<open>
  The status a candidate reports against the agent's belief, the change signal, the stop, and what
  the loop keeps of the agent's invariant. \<open>lease_source\<close> is the interface through which the scaler
  sees a candidate (scaler.Source); its interpretation on \<open>Status\<close> and the change signal is here.
\<close>

subsection \<open>The interface of a status source\<close>

locale lease_source =
  fixes status_at :: "gtime \<Rightarrow> 'c \<Rightarrow> status"
    and take_signal :: "'c \<Rightarrow> 'c option"
    and ok :: "'c \<Rightarrow> bool"
  assumes holding_bounded: "ok c \<Longrightarrow> s_Holding (status_at now c) \<Longrightarrow> now < s_Deadline (status_at now c)"
    and holding_ends: "ok c \<Longrightarrow> s_Holding (status_at now c) \<Longrightarrow> t \<le> now \<Longrightarrow> s_Holding (status_at t c)"
    and take_keeps: "take_signal c = Some c' \<Longrightarrow> status_at now c' = status_at now c"
    and take_ok: "ok c \<Longrightarrow> take_signal c = Some c' \<Longrightarrow> ok c'"
    and take_once: "take_signal c = Some c' \<Longrightarrow> take_signal c' = None"
begin

text \<open>A source nobody updates can only stop holding.\<close>

lemma stays_standby: "ok c \<Longrightarrow> \<not> s_Holding (status_at t c) \<Longrightarrow> t \<le> now \<Longrightarrow> \<not> s_Holding (status_at now c)"
  using holding_ends by blast

text \<open>Of two receivers of one signal the second gets none, though it sees the same status.\<close>

lemma second_receiver: "take_signal c = Some c' \<Longrightarrow> take_signal c' = None \<and> status_at now c' = status_at now c"
  using take_once take_keeps by blast

end

text \<open>What every published status satisfies: \<open>Holding\<close> is only ever set by \<open>Status\<close>.\<close>

definition published :: "candidate \<Rightarrow> bool" where
  "published c \<longleftrightarrow> \<not> s_Holding (cd_status c)"

lemma Status_holding: "published c \<Longrightarrow> s_Holding (Status now c) \<longleftrightarrow> cd_deadline c \<noteq> 0 \<and> now < cd_deadline c"
  by (simp add: Status_def published_def go_simps)

interpretation cand: lease_source Status take_changed published
proof unfold_locales
  show "published c \<Longrightarrow> s_Holding (Status now c) \<Longrightarrow> now < s_Deadline (Status now c)" for c now
    by (simp add: Status_def published_def go_simps split: if_splits)
  show "published c \<Longrightarrow> s_Holding (Status now c) \<Longrightarrow> t \<le> now \<Longrightarrow> s_Holding (Status t c)" for c now t
    by (simp add: Status_holding)
  show "take_changed c = Some c' \<Longrightarrow> Status now c' = Status now c" for c c' now
    by (auto simp: take_changed_def Status_def split: if_splits)
  show "published c \<Longrightarrow> take_changed c = Some c' \<Longrightarrow> published c'" for c c'
    by (auto simp: take_changed_def published_def split: if_splits)
  show "take_changed c = Some c' \<Longrightarrow> take_changed c' = None" for c c'
    by (auto simp: take_changed_def split: if_splits)
qed

subsection \<open>Publishing\<close>

lemma agent_status_eq:
  "agent_status now a =
     (\<lparr>s_Holding = False, s_Epoch = 0, s_Deadline = 0, s_Certain = v_certain (ag_view a),
       s_Lease = (if v_certain (ag_view a) then v_state (ag_view a) else zero_state),
       s_AsOf = v_clock (ag_view a)\<rparr>, if believing a now then ag_deadline a else 0, ag_epoch a)"
  by (simp add: agent_status_def zero_status_def go_simps Let_def)

lemma setStatus_fields [simp]:
  "cd_status (setStatus (s, d, e) c) = s" "cd_deadline (setStatus (s, d, e) c) = d"
  "cd_epoch (setStatus (s, d, e) c) = e" "cd_cfg (setStatus st c) = cd_cfg c"
  by (simp_all add: setStatus_def Let_def split: prod.splits)

lemma publish_fields [simp]:
  "rn_a (publish now r) = rn_a r" "cd_cfg (rn_c (publish now r)) = cd_cfg (rn_c r)"
  by (simp_all add: publish_def)

lemma published_publish [simp]: "published (rn_c (publish now r))"
  by (simp add: publish_def published_def agent_status_eq)

text \<open>Whatever changed since the signal was last taken, the signal is there.\<close>

definition same_status :: "candidate \<Rightarrow> candidate \<Rightarrow> bool" where
  "same_status c c' \<longleftrightarrow>
     cd_status c' = cd_status c \<and> cd_deadline c' = cd_deadline c \<and> cd_epoch c' = cd_epoch c"

lemma setStatus_signal:
  "cd_changed (setStatus st c) \<longleftrightarrow> cd_changed c \<or> \<not> same_status c (setStatus st c)"
  by (auto simp: setStatus_def same_status_def Let_def split: prod.splits)

lemma fold_setStatus_signal:
  "cd_changed c \<Longrightarrow> cd_changed (fold setStatus sts c)"
  by (induction sts arbitrary: c) (simp_all add: setStatus_signal)

subsection \<open>The loop keeps the agent's invariant\<close>

definition run_wf :: "kfk_run \<Rightarrow> bool" where
  "run_wf r \<longleftrightarrow> agent_wf (rn_a r) \<and> ag_cfg (rn_a r) = cd_cfg (rn_c r) \<and> published (rn_c r)"

lemma note_errors_wf:
  "agent_wf a \<Longrightarrow> agent_wf (fold note_error es a) \<and> ag_cfg (fold note_error es a) = ag_cfg a"
  by (induction es arbitrary: a) (auto simp: note_error_def fetchFailed_wf split: fetch_error.splits)

lemma consume_records_wf:
  "agent_wf a \<Longrightarrow> agent_wf (snd (consume_records now krs (err, a))) \<and>
     ag_cfg (snd (consume_records now krs (err, a))) = ag_cfg a"
proof (induction krs arbitrary: err a)
  case (Cons kr krs)
  let ?p = "agent_record now (kr_Offset kr) (kr_Timestamp kr) (kr_Value kr) a"
  have "agent_wf (snd ?p)" "ag_cfg (snd ?p) = ag_cfg a"
    using agent_record_wf [OF Cons.prems] agent_step_cfg [of "Read now (kr_Offset kr) (kr_Timestamp kr)
      (kr_Value kr)" a] by simp_all
  with Cons.IH [of "snd ?p"] Cons.prems show ?case by (simp add: case_prod_unfold Let_def)
qed simp

lemma consume_partition_wf:
  assumes "agent_wf (snd s)"
  shows "agent_wf (snd (consume_partition cfg now fp s)) \<and>
    ag_cfg (snd (consume_partition cfg now fp s)) = ag_cfg (snd s)"
  using consume_records_wf [of "fetched now (fp_HighWatermark fp) (snd s)"] fetched_wf [OF assms] assms
  by (simp add: consume_partition_def)

lemma consume_partitions_wf:
  "agent_wf (snd s) \<Longrightarrow> agent_wf (snd (fold (consume_partition cfg now) fps s)) \<and>
     ag_cfg (snd (fold (consume_partition cfg now) fps s)) = ag_cfg (snd s)"
  by (induction fps arbitrary: s) (simp_all add: consume_partition_wf)

lemma drain_wf: "agent_wf a \<Longrightarrow> agent_wf (drain rs a) \<and> ag_cfg (drain rs a) = ag_cfg a"
proof (induction rs arbitrary: a)
  case (Cons r rs)
  then show ?case by (cases r) (simp add: acked_wf)
qed simp

lemma run_wf_publish: "agent_wf a \<Longrightarrow> ag_cfg a = cd_cfg (rn_c r) \<Longrightarrow> run_wf (publish now (r\<lparr>rn_a := a\<rparr>))"
  by (simp add: run_wf_def)

lemma consume_wf:
  assumes "run_wf r"
  shows "run_wf (snd (consume now fs r)) \<and> cd_cfg (rn_c (snd (consume now fs r))) = cd_cfg (rn_c r)"
proof -
  let ?a = "fold note_error (fs_errors fs) (rn_a r)"
  let ?p = "fold (consume_partition (cd_cfg (rn_c r)) now) (fs_partitions fs) (None, ?a)"
  have "agent_wf (snd ?p)" "ag_cfg (snd ?p) = cd_cfg (rn_c r)"
    using consume_partitions_wf [of "(None, ?a)"] note_errors_wf [of "rn_a r"] assms
    by (auto simp: run_wf_def)
  then show ?thesis
    using assms by (simp add: consume_def case_prod_unfold Let_def run_wf_def)
qed

lemma loop_turn_wf:
  assumes "run_wf r"
  shows "run_wf (snd (snd (loop_turn t r))) \<and> cd_cfg (rn_c (snd (snd (loop_turn t r)))) = cd_cfg (rn_c r)"
proof -
  let ?r1 = "snd (consume (tn_consumed t) (tn_fetches t) r)"
  let ?a = "drain (tn_results t) (rn_a ?r1)"
  have 1: "run_wf ?r1" "cd_cfg (rn_c ?r1) = cd_cfg (rn_c r)" using consume_wf [OF assms] by auto
  have 2: "agent_wf ?a" "ag_cfg ?a = cd_cfg (rn_c r)"
    using drain_wf [of "rn_a ?r1"] 1 by (auto simp: run_wf_def)
  have 3: "agent_wf (snd (agent_tick (tn_ticked t) ?a))"
    "ag_cfg (snd (agent_tick (tn_ticked t) ?a)) = cd_cfg (rn_c r)"
    using agent_tick_wf [OF 2(1)] agent_step_cfg [of "Tick (tn_ticked t)" ?a] 2(2) by simp_all
  show ?thesis
    using 1 2 3 assms
    by (simp add: loop_turn_def tick_produce_def case_prod_unfold Let_def run_wf_def split: stop.splits)
qed

lemma loop_wf:
  "run_wf r \<Longrightarrow> run_wf (snd (snd (loop ts r))) \<and> cd_cfg (rn_c (snd (snd (loop ts r)))) = cd_cfg (rn_c r)"
proof (induction ts arbitrary: r)
  case (Cons t ts)
  obtain e out r' where t: "loop_turn t r = (e, out, r')" by (metis prod_cases3)
  then have r': "run_wf r'" "cd_cfg (rn_c r') = cd_cfg (rn_c r)" using loop_turn_wf [OF Cons.prems] by (metis snd_conv)+
  then show ?case
    using t Cons.IH [OF r'(1)] by (cases e) (simp_all add: case_prod_unfold Let_def)
qed simp

lemma bootstrap_wf:
  assumes "timing_ok (cd_cfg c)" "bootstrap c b now = Inr r"
  shows "run_wf r"
proof -
  obtain s e a where "newAgent (cd_cfg c) s e now = Some a" "r = publish now \<lparr>rn_c = c, rn_a = a\<rparr>"
    using assms(2) by (auto simp: bootstrap_def split: sum.splits option.splits prod.splits)
  moreover from this have "agent_wf a" "ag_cfg a = cd_cfg c"
    using newAgent_wf assms(1)
    by (auto simp: newAgent_def Let_def split: option.splits if_splits)
  ultimately show ?thesis by (simp add: run_wf_def)
qed


subsection \<open>A candidate to try them on\<close>

definition sample_candidate :: candidate where
  "sample_candidate = \<lparr>cd_cfg = sample_config ''a'', cd_status = zero_status, cd_changed = False,
                       cd_deadline = 0, cd_epoch = 0\<rparr>"

definition sample_run :: kfk_run where
  "sample_run = \<lparr>rn_c = sample_candidate, rn_a = sample_agent\<rparr>"

lemma sample_agent_wf: "agent_wf sample_agent"
proof -
  have "view_wf sample_view" by (simp add: view_wf_def sample_view_def Second_def)
  then show ?thesis
    by (simp add: agent_wf_def sample_agent_def sample_timing inflight_ok_def belief_ok_def)
      (simp add: sample_config_def sample_view_def Second_def)
qed

lemma sample_run_wf: "run_wf sample_run"
  using sample_agent_wf
  by (simp add: run_wf_def sample_run_def sample_candidate_def published_def zero_status_def)
    (simp add: sample_agent_def)

subsection \<open>Properties\<close>

text \<open>C17: at any time after a status was published, however late (a stalled loop, a process that
  wakes up), Status reports Holding exactly while the agent's belief lasts, with its epoch and
  deadline; what it says of the log's lease is there only if the view is certain.\<close>
theorem status_is_belief:
  assumes "0 \<le> t" "t \<le> now"
  shows "s_Holding (Status now (rn_c (publish t r))) = believing (rn_a r) now \<and>
    (believing (rn_a r) now \<longrightarrow>
       s_Epoch (Status now (rn_c (publish t r))) = ag_epoch (rn_a r) \<and>
       s_Deadline (Status now (rn_c (publish t r))) = ag_deadline (rn_a r)) \<and>
    s_Lease (Status now (rn_c (publish t r))) =
      (if s_Certain (Status now (rn_c (publish t r))) then v_state (ag_view (rn_a r)) else zero_state)"
  using assms by (simp add: publish_def agent_status_eq Status_def agent_simps go_simps)

theorem status_is_belief_witness:
  "s_Holding (Status (102 * Second) (rn_c (publish (100 * Second) sample_run))) \<and>
   s_Epoch (Status (102 * Second) (rn_c (publish (100 * Second) sample_run))) = 4 \<and>
   \<not> s_Holding (Status (103 * Second) (rn_c (publish (100 * Second) sample_run)))"
  using status_is_belief [of "100 * Second" "102 * Second" sample_run]
    status_is_belief [of "100 * Second" "103 * Second" sample_run]
  by (simp add: sample_run_def sample_agent_def agent_simps Second_def)

text \<open>C34: no change of the published status is ever lost on a receiver that lags: after any number of
  updates that leave it different from what it was when the signal was last taken, the signal is
  in the channel.\<close>
theorem change_signal_not_lost:
  assumes "\<not> same_status c (fold setStatus sts c)"
  shows "cd_changed (fold setStatus sts c)"
  using assms
proof (induction sts arbitrary: c)
  case Nil
  then show ?case by (simp add: same_status_def)
next
  case (Cons st sts)
  show ?case
  proof (cases "same_status c (setStatus st c)")
    case True
    with Cons.prems have "\<not> same_status (setStatus st c) (fold setStatus sts (setStatus st c))"
      by (simp add: same_status_def)
    with Cons.IH show ?thesis by simp
  next
    case False
    then show ?thesis using fold_setStatus_signal by (simp add: setStatus_signal)
  qed
qed

theorem change_signal_not_lost_witness:
  "cd_changed (fold setStatus [(zero_status, 5, 1), (zero_status, 0, 1)] sample_candidate)"
  by (rule change_signal_not_lost) (simp add: same_status_def sample_candidate_def)

text \<open>C20: a stop gives the lease up: from then on Status never reports Holding, and a participant that
  believed writes, under the lease's topic, partition and key, a value that every reader decodes
  to the release of its term.\<close>
theorem shutdown_releases:
  assumes "0 \<le> t" "t \<le> now" "run_wf r" "valid_utf8 (c_Holder (cd_cfg (rn_c r)))"
    and "c_Holder (cd_cfg (rn_c r)) \<noteq> []" "is_i64 (ag_epoch (rn_a r))"
  shows "\<not> s_Holding (Status now (rn_c (snd (shutdown t r)))) \<and>
    (if believing (rn_a r) t
     then \<exists>m d. fst (shutdown t r) = Some m \<and> km_Topic m = c_Topic (cd_cfg (rn_c r)) \<and>
       km_Partition m = c_Partition (cd_cfg (rn_c r)) \<and> km_Key m = recordKey \<and>
       DecodeValue (km_Value m) = Inr d \<and> r_Kind d = Release \<and>
       r_Holder d = c_Holder (cd_cfg (rn_c r)) \<and> r_Epoch d = ag_epoch (rn_a r)
     else fst (shutdown t r) = None)"
proof -
  have cfg: "ag_cfg (rn_a r) = cd_cfg (rn_c r)" "timing_ok (cd_cfg (rn_c r))"
    using assms(3) by (auto simp: run_wf_def agent_wf_def)
  have "\<not> believing (snd (agent_release t (rn_a r))) now"
    using assms(1,2) release_belief [of t "rn_a r"] by (auto simp: believing_iff split: if_splits)
  moreover have "rn_c (snd (shutdown t r)) =
      rn_c (publish t (r\<lparr>rn_a := snd (agent_release t (rn_a r))\<rparr>))"
    by (simp add: shutdown_def case_prod_unfold Let_def split: option.splits)
  ultimately have "\<not> s_Holding (Status now (rn_c (snd (shutdown t r))))"
    using assms(1,2) by (simp add: publish_def agent_status_eq Status_def believing_iff go_simps)
  moreover have "fst (shutdown t r) = None" if "\<not> believing (rn_a r) t"
    using that by (simp add: shutdown_def agent_release_def Let_def)
  moreover have "\<exists>b. fst (shutdown t r) = Some \<lparr>km_Topic = c_Topic (cd_cfg (rn_c r)),
      km_Partition = c_Partition (cd_cfg (rn_c r)), km_Key = recordKey, km_Value = b\<rparr> \<and>
      DecodeValue b = Inr (carried (newRecord (rn_a r) Release (ag_epoch (rn_a r))))"
    if "believing (rn_a r) t"
  proof -
    let ?m = "newRecord (rn_a r) Release (ag_epoch (rn_a r))"
    have "encodable ?m"
      using assms(4-6) cfg timing_bounds(5) [OF cfg(2)]
      by (simp add: encodable_def newRecord_def Let_def)
    with codec.encode_decode obtain b where "EncodeValue ?m = Inr b" "DecodeValue b = Inr (carried ?m)"
      by blast
    moreover have "newRecord (rn_a r\<lparr>ag_deadline := 0\<rparr>) k e = newRecord (rn_a r) k e" for k e
      by (simp add: newRecord_def Let_def)
    ultimately show ?thesis
      using that cfg
      by (simp add: shutdown_def agent_release_def dropBelief_eq produce_def kafkaRecord_def Let_def)
  qed
  ultimately show ?thesis
    by (auto simp: carried_def newRecord_def cfg Let_def)
qed

theorem shutdown_releases_witness:
  "\<exists>m d. fst (shutdown (100 * Second) sample_run) = Some m \<and> DecodeValue (km_Value m) = Inr d \<and>
     r_Kind d = Release \<and> r_Epoch d = 4"
proof -
  have "plain_key ''a''" by code_simp
  then have "valid_utf8 (c_Holder (cd_cfg (rn_c sample_run)))"
    using plain_key_quote by (simp add: sample_run_def sample_candidate_def sample_config_def)
  moreover have "c_Holder (cd_cfg (rn_c sample_run)) \<noteq> []" "is_i64 (ag_epoch (rn_a sample_run))"
    "believing (rn_a sample_run) (100 * Second)" "ag_epoch (rn_a sample_run) = 4"
    "0 \<le> 100 * Second" by code_simp+
  ultimately show ?thesis
    using shutdown_releases [OF _ order_refl sample_run_wf, of "100 * Second"] by fastforce
qed

text \<open>C21: every run of the loop keeps the agent's invariant: whatever fetches, errors and produce
  results the client delivers, and whenever it ends, the view is well-formed, one claim or renewal
  at most is in flight, and the belief ends within TTL less margin of the last send.\<close>
theorem loop_keeps_invariant:
  assumes "NewCandidate host rand cfg = Inr c" "timing_ok (cd_cfg c)" "bootstrap c b now = Inr r"
    and "loop turns r = (e, ms, r')"
  shows "agent_wf (rn_a r') \<and> ag_cfg (rn_a r') = cd_cfg c"
proof -
  have "run_wf r" "cd_cfg (rn_c r) = cd_cfg c"
    using bootstrap_wf [OF assms(2,3)] assms(3)
    by (auto simp: bootstrap_def split: sum.splits option.splits prod.splits)
  with loop_wf [of r turns] assms(4) show ?thesis by (simp add: run_wf_def)
qed

definition quiet_turn :: "gtime \<Rightarrow> turn" where
  "quiet_turn t = \<lparr>tn_fetches = \<lparr>fs_closed = False, fs_errors = [FetchDeadline], fs_partitions = []\<rparr>,
     tn_consumed = t, tn_results = [], tn_stop = GoOn, tn_ticked = t\<rparr>"

theorem loop_keeps_invariant_witness:
  "\<exists>c r e ms r'. NewCandidate [] None (sample_config ''a'') = Inr c \<and>
     bootstrap c (Inr (\<lparr>lo_Offset = 0, lo_Err = None\<rparr>, \<lparr>lo_Offset = 0, lo_Err = None\<rparr>)) Second = Inr r \<and>
     loop [quiet_turn (2 * Second)] r = (e, ms, r') \<and> agent_wf (rn_a r')"
proof -
  let ?b = "Inr (\<lparr>lo_Offset = 0, lo_Err = None\<rparr>, \<lparr>lo_Offset = 0, lo_Err = None\<rparr>)"
  have "withDefaults [] None (sample_config ''a'') = Inr (sample_config ''a'')"
    by (simp add: withDefaults_def sample_config_def Second_def i64_add_def i64_wrap_def Let_def)
  then have c: "NewCandidate [] None (sample_config ''a'') = Inr sample_candidate"
    by (simp add: NewCandidate_def sample_candidate_def go_simps)
  obtain a where "newAgent (sample_config ''a'') 0 0 Second = Some a"
    by (simp add: newAgent_def NewView_def NewViewFromStart_def sample_config_def Second_def)
  then obtain r where r: "bootstrap sample_candidate ?b Second = Inr r"
    by (simp add: bootstrap_def sample_candidate_def)
  obtain e ms r' where l: "loop [quiet_turn (2 * Second)] r = (e, ms, r')" by (metis prod_cases3)
  have "timing_ok (cd_cfg sample_candidate)" by (simp add: sample_candidate_def sample_timing)
  from loop_keeps_invariant [OF c this r l] c r l show ?thesis by blast
qed

text \<open>Changed is not signalled when the belief runs out by the clock: the status goes from
  holding to not holding while the loop is stalled, and no receiver is told.\<close>
lemma expiry_not_signalled:
  "\<exists>c. published c \<and> \<not> cd_changed c \<and> s_Holding (Status (102 * Second) c) \<and>
     \<not> s_Holding (Status (103 * Second) c) \<and> take_changed c = None"
proof (intro exI conjI)
  let ?c = "(rn_c (publish (100 * Second) sample_run))\<lparr>cd_changed := False\<rparr>"
  show "published ?c" using published_publish [of "100 * Second" sample_run]
    by (simp add: published_def)
  show "\<not> cd_changed ?c" "take_changed ?c = None" by (simp_all add: take_changed_def)
  show "s_Holding (Status (102 * Second) ?c)" by code_simp
  show "\<not> s_Holding (Status (103 * Second) ?c)" by code_simp
qed

end
