(* ===== verification/Agreement.thy ===== *)
theory Agreement
  imports LeaseSpec
begin

section \<open>Readers of a truncated log agree with the whole log (lease/view.go, docs/protocol.md)\<close>

text \<open>
  docs/protocol.md, "Reading a truncated log": a view that starts in the middle, or that skipped
  records, becomes certain only through silence or an anchor, and is then right. Here the log is
  a list of records at offsets 0, 1, 2, ...; \<open>full_at\<close> is the view of a reader that saw all of
  it, and \<open>read_some\<close> is a reader that sees any subset of the records and calls \<open>Gap\<close> at every
  hole, as \<open>agent.record\<close> does. \<open>read_some_agrees\<close> needs broker timestamps that do not step
  backwards and the writers' rule behind the anchor (\<open>anchors_hold\<close>); theory \<open>TimelyReaders\<close>
  discharges both for logs the modelled agents write, theory \<open>Counterexamples\<close> shows that neither
  can be dropped.
\<close>

subsection \<open>Logs, the whole-log reader and its verdicts\<close>

definition apply_step :: "view \<Rightarrow> lrecord \<Rightarrow> view" where
  "apply_step v r = (case Apply v r of Inl _ \<Rightarrow> v | Inr (_, v') \<Rightarrow> v')"

definition start_view :: "duration \<Rightarrow> view" where
  "start_view ttl =
     \<lparr>v_ttl = ttl, v_certain = True, v_state = zero_state\<lparr>st_Epoch := -1\<rparr>, v_clock = time_zero,
      v_lastOffset = -1, v_seen = False, v_pending = []\<rparr>"

lemma NewViewFromStart_start: "0 < ttl \<Longrightarrow> NewViewFromStart ttl = Some (start_view ttl)"
  by (simp add: NewViewFromStart_def NewView_def start_view_def)

definition full_at :: "duration \<Rightarrow> lrecord list \<Rightarrow> nat \<Rightarrow> view" where
  "full_at ttl log n = foldl apply_step (start_view ttl) (take n log)"

definition verdict :: "duration \<Rightarrow> lrecord list \<Rightarrow> nat \<Rightarrow> outcome" where
  "verdict ttl log n =
     (case Apply (full_at ttl log n) (log ! n) of Inl _ \<Rightarrow> Rejected | Inr (out, _) \<Rightarrow> out)"

text \<open>The log: offsets count from 0, every record is proper.\<close>

definition log_ok :: "lrecord list \<Rightarrow> bool" where
  "log_ok log \<longleftrightarrow> (\<forall>i \<in> set [0..<length log]. r_Offset (log ! i) = int i \<and> proper (log ! i))"

definition clock_ok :: "lrecord list \<Rightarrow> bool" where
  "clock_ok log \<longleftrightarrow> sorted (map r_Timestamp log) \<and> (\<forall>r \<in> set log. 0 \<le> r_Timestamp r)"

text \<open>
  The writers' rule behind the anchor: a record followed by a renew or release of its own term
  had been accepted.
\<close>

definition anchors_hold :: "duration \<Rightarrow> lrecord list \<Rightarrow> bool" where
  "anchors_hold ttl log \<longleftrightarrow>
     (\<forall>j \<in> set [0..<length log]. \<forall>i \<in> set [0..<j].
        r_Kind (log ! i) \<noteq> Release \<and> r_Kind (log ! j) \<noteq> Claim \<and>
        rec_term (log ! i) = rec_term (log ! j) \<and> ttl_ok ttl (log ! i) \<longrightarrow>
        verdict ttl log i = Accepted)"

text \<open>
  Two states that answer alike from \<open>t\<close> on: both free, or the same term.
\<close>

definition same_lease :: "gtime \<Rightarrow> lease_state \<Rightarrow> lease_state \<Rightarrow> bool" where
  "same_lease t s s' \<longleftrightarrow> HeldAt s t = HeldAt s' t \<and> (HeldAt s t \<longrightarrow> s = s')"

text \<open>A reader of some of the records, as \<open>agent.record\<close> drives its view.\<close>

fun read_some :: "view \<Rightarrow> int \<Rightarrow> lrecord list \<Rightarrow> view" where
  "read_some v nextOffset [] = v"
| "read_some v nextOffset (r # rs) =
     read_some (apply_step (if nextOffset < r_Offset r then Gap v else v) r) (r_Offset r + 1) rs"

subsection \<open>Lemmas on folds and filters\<close>

lemma same_lease_refl [simp]: "same_lease t s s"
  by (simp add: same_lease_def)

lemma HeldAt_antimono: "HeldAt s t' \<Longrightarrow> t \<le> t' \<Longrightarrow> HeldAt s t"
  by (simp add: HeldAt_iff)

lemma same_lease_mono: "same_lease t s s' \<Longrightarrow> t \<le> t' \<Longrightarrow> same_lease t' s s'"
  unfolding same_lease_def by (metis HeldAt_antimono)

lemma fold_rec_cong:
  assumes "v_ttl v = v_ttl w" "v_state v = v_state w"
  shows "fst (fold_rec v r) = fst (fold_rec w r)"
    "v_state (snd (fold_rec v r)) = v_state (snd (fold_rec w r))"
  using assms by (cases "r_Kind r"; simp add: fold_rec_def validTTL_def Let_def)+

lemma fold_rec_invalid: "\<not> validTTL v r \<Longrightarrow> fold_rec v r = (Rejected, v)"
  by (simp add: fold_rec_def)

text \<open>Two readers that answer alike give the same verdict and answer alike afterwards.\<close>

lemma fold_rec_same:
  assumes "v_ttl v = v_ttl w" "same_lease (r_Timestamp r) (v_state v) (v_state w)"
  shows "fst (fold_rec v r) = fst (fold_rec w r)"
    "same_lease (r_Timestamp r) (v_state (snd (fold_rec v r))) (v_state (snd (fold_rec w r)))"
proof -
  consider "v_state v = v_state w"
    | "\<not> HeldAt (v_state v) (r_Timestamp r)" "\<not> HeldAt (v_state w) (r_Timestamp r)"
    using assms(2) by (auto simp: same_lease_def)
  then have "fst (fold_rec v r) = fst (fold_rec w r) \<and>
    same_lease (r_Timestamp r) (v_state (snd (fold_rec v r))) (v_state (snd (fold_rec w r)))"
  proof cases
    case 1
    with fold_rec_cong [OF assms(1) 1, of r] show ?thesis by simp
  next
    case 2
    then show ?thesis using assms
      by (auto simp: fold_rec_def validTTL_def Let_def split: kind.splits)
  qed
  then show "fst (fold_rec v r) = fst (fold_rec w r)"
    "same_lease (r_Timestamp r) (v_state (snd (fold_rec v r))) (v_state (snd (fold_rec w r)))"
    by auto
qed

lemma drop_filter: "\<exists>k \<le> length xs. drop j (filter P xs) = filter P (drop k xs)"
proof (induction xs arbitrary: j)
  case (Cons x xs)
  show ?case
  proof (cases "P x \<and> j = 0")
    case True
    then show ?thesis by (intro exI [of _ 0]) auto
  next
    case False
    obtain k where "k \<le> length xs"
      "drop (if P x then j - 1 else j) (filter P xs) = filter P (drop k xs)"
      using Cons.IH by blast
    with False show ?thesis
      by (intro exI [of _ "Suc k"]) (auto simp: drop_Cons' split: if_splits)
  qed
qed simp

lemma filter_split:
  "filter P xs = front @ p # rest \<Longrightarrow>
     \<exists>i < length xs. xs ! i = p \<and> P p \<and> rest = filter P (drop (Suc i) xs)"
proof (induction xs arbitrary: front)
  case (Cons x xs)
  show ?case
  proof (cases "P x \<and> front = []")
    case True
    with Cons.prems show ?thesis by (intro exI [of _ 0]) auto
  next
    case False
    with Cons.prems obtain front' where "filter P xs = front' @ p # rest"
      by (cases front) (auto split: if_splits)
    from Cons.IH [OF this] obtain i where
      "i < length xs" "xs ! i = p" "P p" "rest = filter P (drop (Suc i) xs)" by blast
    then show ?thesis by (intro exI [of _ "Suc i"]) auto
  qed
qed simp

lemma full_at_0 [simp]: "full_at ttl log 0 = start_view ttl"
  by (simp add: full_at_def)

lemma full_at_Suc: "n < length log \<Longrightarrow> full_at ttl log (Suc n) = apply_step (full_at ttl log n) (log ! n)"
  by (simp add: full_at_def take_Suc_conv_app_nth)

lemma log_okD:
  assumes "log_ok log" "n < length log"
  shows "r_Offset (log ! n) = int n" "proper (log ! n)"
  using assms by (auto simp: log_ok_def)

lemma clock_ok_ge0: "clock_ok log \<Longrightarrow> n < length log \<Longrightarrow> 0 \<le> r_Timestamp (log ! n)"
  by (auto simp: clock_ok_def)

lemma clock_ok_mono:
  "clock_ok log \<Longrightarrow> m \<le> n \<Longrightarrow> n < length log \<Longrightarrow> r_Timestamp (log ! m) \<le> r_Timestamp (log ! n)"
  using sorted_nth_mono [of "map r_Timestamp log" m n] by (simp add: clock_ok_def)


subsection \<open>The whole-log reader\<close>

lemma clamped_id: "v_clock v \<le> r_Timestamp r \<Longrightarrow> clamped v r = r"
  by (simp add: clamped_def)

lemma full_facts:
  assumes "log_ok log" "clock_ok log" "0 < ttl" "n \<le> length log"
  shows "v_ttl (full_at ttl log n) = ttl \<and> v_certain (full_at ttl log n) \<and>
    v_lastOffset (full_at ttl log n) = int n - 1 \<and>
    v_clock (full_at ttl log n) = (if n = 0 then 0 else r_Timestamp (log ! (n - 1))) \<and>
    view_wf (full_at ttl log n)"
  using assms(4)
proof (induction n)
  case 0
  then show ?case
    using assms(3) by (simp add: start_view_def view_wf_def time_zero_def)
next
  case (Suc n)
  let ?v = "full_at ttl log n" and ?r = "log ! n"
  from Suc have IH: "v_ttl ?v = ttl" "v_certain ?v" "v_lastOffset ?v = int n - 1" "view_wf ?v"
    "v_clock ?v = (if n = 0 then 0 else r_Timestamp (log ! (n - 1)))" by simp_all
  have n: "n < length log" using Suc.prems by simp
  have le: "v_clock ?v \<le> r_Timestamp ?r"
    using clock_ok_mono [OF assms(2), of "n - 1" n] clock_ok_ge0 [OF assms(2) n] n IH(5) by auto
  obtain out v' where a: "Apply ?v ?r = Inr (out, v')"
    using vr.accepts_next [of ?v ?r] IH(3) log_okD [OF assms(1) n] by auto
  have "full_at ttl log (Suc n) = v'" using a full_at_Suc [OF n] by (simp add: apply_step_def)
  with IH le Apply_Inr [OF a] Apply_wf [OF IH(4) a] vr.stays_certain [OF IH(2) a]
    log_okD [OF assms(1) n]
  show ?case by (simp add: max_def)
qed

lemmas full_ttl = full_facts [THEN conjunct1]

lemma full_clock_le:
  assumes "log_ok log" "clock_ok log" "0 < ttl" "n < length log"
  shows "v_clock (full_at ttl log n) \<le> r_Timestamp (log ! n)"
  using full_facts [OF assms(1-3), of n] assms(4) clock_ok_mono [OF assms(2), of "n - 1" n]
    clock_ok_ge0 [OF assms(2,4)] by auto

lemma full_step:
  assumes "log_ok log" "clock_ok log" "0 < ttl" "n < length log"
  shows "verdict ttl log n = fst (fold_rec (full_at ttl log n) (log ! n))"
    "v_state (full_at ttl log (Suc n)) = v_state (snd (fold_rec (full_at ttl log n) (log ! n)))"
proof -
  let ?v = "full_at ttl log n" and ?r = "log ! n"
  have f: "v_certain ?v" "v_lastOffset ?v = int n - 1"
    using full_facts [OF assms(1-3), of n] assms(4) by simp_all
  have c: "clamped ?v ?r = ?r" by (intro clamped_id full_clock_le assms)
  have "Apply ?v ?r = Inr (fold_rec (stamped ?v ?r) ?r)"
    using f log_okD [OF assms(1,4)] by (simp add: Apply_shape proper_def c)
  moreover have "fst (fold_rec (stamped ?v ?r) ?r) = fst (fold_rec ?v ?r)"
    "v_state (snd (fold_rec (stamped ?v ?r) ?r)) = v_state (snd (fold_rec ?v ?r))"
    by (rule fold_rec_cong; simp)+
  ultimately show "verdict ttl log n = fst (fold_rec ?v ?r)"
    "v_state (full_at ttl log (Suc n)) = v_state (snd (fold_rec ?v ?r))"
    by (auto simp: verdict_def full_at_Suc [OF assms(4)] apply_step_def split: prod.splits)
qed

text \<open>Replaying the valid records from an exact state is what the whole-log reader did.\<close>

lemma replay_full:
  assumes "log_ok log" "clock_ok log" "0 < ttl" "m \<le> n" "n \<le> length log"
    and "v_ttl v = ttl" "v_state v = v_state (full_at ttl log m)"
  shows "v_state (replay v (filter (ttl_ok ttl) (drop m (take n log)))) = v_state (full_at ttl log n)"
  using assms(4-7)
proof (induction "n - m" arbitrary: m v)
  case 0
  then show ?case by simp
next
  case (Suc k)
  then have m: "m < n" "m < length log" by simp_all
  have d: "drop m (take n log) = log ! m # drop (Suc m) (take n log)"
    using m Suc.prems(2) by (simp add: Cons_nth_drop_Suc [symmetric])
  let ?r = "log ! m" and ?f = "full_at ttl log m"
  have ttl: "v_ttl ?f = ttl" using full_ttl [OF assms(1-3), of m] m by simp
  have nx: "v_state (snd (fold_rec v ?r)) = v_state (full_at ttl log (Suc m))"
    using fold_rec_cong [of v ?f ?r] full_step(2) [OF assms(1-3) m(2)] Suc.prems ttl by simp
  show ?case
  proof (cases "ttl_ok ttl ?r")
    case True
    with d nx Suc show ?thesis by simp
  next
    case False
    then have "fold_rec v ?r = (Rejected, v)"
      using Suc.prems by (simp add: fold_rec_invalid validTTL_def ttl_ok_def)
    with nx d False Suc show ?thesis by simp
  qed
qed

subsection \<open>What a reader of some of the records knows\<close>

text \<open>
  \<open>tracks ttl log n t v\<close>: the view has read up to (not including) record \<open>n\<close>, nothing it will
  read is older than \<open>t\<close>, and what it claims to know agrees with the whole log from \<open>t\<close> on.
\<close>

definition tracks :: "duration \<Rightarrow> lrecord list \<Rightarrow> nat \<Rightarrow> gtime \<Rightarrow> view \<Rightarrow> bool" where
  "tracks ttl log n t v \<longleftrightarrow>
     v_ttl v = ttl \<and> v_lastOffset v < int n \<and> n \<le> length log \<and>
     v_clock v \<le> v_clock (full_at ttl log n) \<and> v_clock (full_at ttl log n) \<le> t \<and>
     (v_seen v \<longrightarrow> v_clock v = v_clock (full_at ttl log n)) \<and>
     (if v_certain v then same_lease t (v_state v) (v_state (full_at ttl log n))
      else \<exists>k \<le> n. v_pending v = filter (ttl_ok ttl) (drop k (take n log)))"

lemma tracks_later: "tracks ttl log n t v \<Longrightarrow> t \<le> t' \<Longrightarrow> tracks ttl log n t' v"
  by (auto simp: tracks_def intro: same_lease_mono)

lemma full_clock_mono:
  assumes "log_ok log" "clock_ok log" "0 < ttl" "m \<le> n" "n \<le> length log"
  shows "v_clock (full_at ttl log m) \<le> v_clock (full_at ttl log n)"
proof (cases "m = 0 \<or> m = n")
  case True
  then show ?thesis
    using full_facts [OF assms(1-3), of n] full_facts [OF assms(1-3), of m] assms(4,5)
      clock_ok_ge0 [OF assms(2), of "n - 1"] by auto
next
  case False
  then show ?thesis
    using full_facts [OF assms(1-3), of n] full_facts [OF assms(1-3), of m] assms(4,5)
      clock_ok_mono [OF assms(2), of "m - 1" "n - 1"] by auto
qed

text \<open>A hole: the reader falls back to knowing nothing.\<close>

lemma tracks_Gap:
  assumes "log_ok log" "clock_ok log" "0 < ttl" "tracks ttl log n t v" "n \<le> m" "m \<le> length log"
    "v_clock (full_at ttl log m) \<le> t'"
  shows "tracks ttl log m t' (Gap v)"
  using assms full_clock_mono [OF assms(1-3,5,6)]
  by (auto simp: tracks_def intro!: exI [of _ m])

text \<open>Silence at the end of the log: the term the log knows of is over.\<close>

lemma tracks_Quiet:
  assumes "tracks ttl log n t v" "\<not> HeldAt (v_state (full_at ttl log n)) t"
  shows "tracks ttl log n t (setFree v)"
  using assms by (auto simp: tracks_def same_lease_def)

lemma anchored_state:
  assumes "log_ok log" "clock_ok log" "0 < ttl" "i < length log"
    and "verdict ttl log i = Accepted" "r_Kind (log ! i) \<noteq> Release"
  shows "v_state (full_at ttl log (Suc i)) =
    \<lparr>st_Holder = fst (rec_term (log ! i)), st_Epoch = snd (rec_term (log ! i)),
     st_Expires = time_Add (r_Timestamp (log ! i)) (r_TTL (log ! i))\<rparr>"
proof -
  have "fst (fold_rec (full_at ttl log i) (log ! i)) = Accepted"
    using full_step(1) [OF assms(1-4)] assms(5) by simp
  moreover have "known_kind (r_Kind (log ! i))" using log_okD(2) [OF assms(1,4)] by (simp add: proper_def)
  ultimately show ?thesis
    using full_step(2) [OF assms(1-4)] assms(6)
    by (cases "r_Kind (log ! i)")
      (auto simp: fold_rec_def rec_term_def Let_def split: if_splits)
qed


lemma time_Sub_le: "0 < d \<Longrightarrow> d \<le> time_Sub t u \<Longrightarrow> d \<le> t - u"
  by (auto simp: time_Sub_def i64_sat_def i64_min_def i64_max_def split: if_splits)

lemma validTTL_ttl_ok: "v_ttl v = ttl \<Longrightarrow> validTTL v r = ttl_ok ttl r"
  by (simp add: validTTL_def ttl_ok_def)

text \<open>A certain reader that agrees before a record agrees after it.\<close>

lemma tracks_certain:
  assumes "log_ok log" "clock_ok log" "0 < ttl" "n < length log"
    and "v_certain v" "v_ttl v = ttl" "v_clock v = r_Timestamp (log ! n)"
    "v_lastOffset v = int n"
    and "same_lease (r_Timestamp (log ! n)) (v_state v) (v_state (full_at ttl log n))"
  shows "tracks ttl log (Suc n) (r_Timestamp (log ! n)) (snd (fold_rec v (log ! n)))"
proof -
  have ttl: "v_ttl v = v_ttl (full_at ttl log n)"
    using full_ttl [OF assms(1-3), of n] assms(4,6) by simp
  have "v_clock (full_at ttl log (Suc n)) = r_Timestamp (log ! n)"
    using full_facts [OF assms(1-3), of "Suc n"] assms(4) by simp
  with fold_rec_same(2) [OF ttl assms(9)] full_step(2) [OF assms(1-4)] assms
  show ?thesis by (simp add: tracks_def)
qed

text \<open>Silence before a record: no term the log knows of can still be live.\<close>

lemma silent_truth:
  assumes "log_ok log" "clock_ok log" "0 < ttl" "n < length log" "tracks ttl log n t v"
    and "silent_before v (log ! n)" "v_clock v \<le> r_Timestamp (log ! n)"
  shows "\<not> HeldAt (v_state (full_at ttl log n)) (r_Timestamp (log ! n))"
proof -
  have f: "v_certain (full_at ttl log n)" "view_wf (full_at ttl log n)" "v_ttl (full_at ttl log n) = ttl"
    using full_facts [OF assms(1-3), of n] assms(4) by simp_all
  have c: "v_clock (full_at ttl log n) = v_clock v" "v_ttl v = ttl"
    using assms(5,6) by (auto simp: tracks_def silent_before_def)
  have "ttl \<le> time_Sub (r_Timestamp (log ! n)) (v_clock v)"
    using assms(6,7) c by (simp add: silent_before_def max_def)
  then have "ttl \<le> r_Timestamp (log ! n) - v_clock v"
    using assms(3) time_Sub_le by blast
  with f c show ?thesis by (auto simp: view_wf_def HeldAt_iff)
qed

text \<open>The anchor: from a proven record on, the reader replays what the whole log says.\<close>

lemma tracks_anchor:
  assumes ok: "log_ok log" "clock_ok log" "0 < ttl" "n < length log" and anch: "anchors_hold ttl log"
    and v: "v_ttl v = ttl" "v_clock v = r_Timestamp (log ! n)" "v_lastOffset v = int n"
    and pend: "v_pending v = filter (ttl_ok ttl) (drop k (take n log))"
    and r: "r_Kind (log ! n) \<noteq> Claim"
    and found: "find_anchor (fst (rec_term (log ! n))) (snd (rec_term (log ! n))) (v_pending v)
                  = Some (p, rest)"
  shows "tracks ttl log (Suc n) (r_Timestamp (log ! n)) (snd (applyUncertain v (log ! n)))"
proof -
  let ?r = "log ! n"
  from find_anchor_Some [OF found] obtain front where
    p: "r_Kind p \<noteq> Release" "rec_term p = rec_term ?r" and split: "v_pending v = front @ p # rest"
    by auto
  from filter_split [OF split [unfolded pend]] obtain i' where
    i': "i' < length (drop k (take n log))" "drop k (take n log) ! i' = p" "ttl_ok ttl p"
    "rest = filter (ttl_ok ttl) (drop (Suc i') (drop k (take n log)))" by blast
  define i where "i = k + i'"
  have i: "i < n" "log ! i = p" "rest = filter (ttl_ok ttl) (drop (Suc i) (take n log))"
    using i' ok(4) by (auto simp: i_def nth_append ac_simps)
  have acc: "verdict ttl log i = Accepted"
    using anch i(1,2) p r i'(3) ok(4) by (fastforce simp: anchors_hold_def)
  let ?a = "v\<lparr>v_state := \<lparr>st_Holder = fst (rec_term ?r), st_Epoch = snd (rec_term ?r),
                st_Expires = time_Add (r_Timestamp p) (r_TTL p)\<rparr>,
             v_certain := True, v_pending := []\<rparr>"
  have "v_state ?a = v_state (full_at ttl log (Suc i))"
    using anchored_state [OF ok(1-3) _ acc] i p ok(4) by simp
  then have "v_state (replay ?a rest) = v_state (full_at ttl log n)"
    using replay_full [OF ok(1-3), of "Suc i" n ?a] i v ok(4) by simp
  then have "tracks ttl log (Suc n) (r_Timestamp ?r) (snd (fold_rec (replay ?a rest) ?r))"
    using v ok by (intro tracks_certain) auto
  with found r show ?thesis by (simp add: applyUncertain_def)
qed

lemma tracks_pending:
  assumes ok: "log_ok log" "clock_ok log" "0 < ttl" "n < length log"
    and v: "v_ttl v = ttl" "v_clock v = r_Timestamp (log ! n)" "v_lastOffset v = int n"
      "\<not> v_certain v"
    and pend: "v_pending v = filter (ttl_ok ttl) (drop k (take n log))" "k \<le> n"
  shows "tracks ttl log (Suc n) (r_Timestamp (log ! n)) (snd (keepPending v (log ! n)))"
proof -
  let ?w = "if validTTL v (log ! n) then v\<lparr>v_pending := v_pending v @ [log ! n]\<rparr> else v"
  have c: "v_clock (full_at ttl log (Suc n)) = r_Timestamp (log ! n)"
    using full_facts [OF ok(1-3), of "Suc n"] ok(4) by simp
  have "v_pending ?w = filter (ttl_ok ttl) (drop k (take (Suc n) log))"
    using pend v ok(4) by (simp add: take_Suc_conv_app_nth validTTL_ttl_ok)
  moreover obtain j where "v_pending (prunePending ?w) = drop j (v_pending ?w)"
    using dropWhile_eq_drop by (fastforce simp: prunePending_def Let_def)
  ultimately have "v_pending (prunePending ?w) =
      drop j (filter (ttl_ok ttl) (drop k (take (Suc n) log)))" by simp
  with drop_filter [of "drop k (take (Suc n) log)" j "ttl_ok ttl"] obtain k' where
    k': "k' \<le> length (drop k (take (Suc n) log))"
    "v_pending (prunePending ?w) = filter (ttl_ok ttl) (drop k' (drop k (take (Suc n) log)))"
    by auto
  then have "\<exists>m \<le> Suc n. v_pending (prunePending ?w) = filter (ttl_ok ttl) (drop m (take (Suc n) log))"
    using ok(4) pend(2) by (intro exI [of _ "k + k'"]) (auto simp: ac_simps)
  with v c ok(4) show ?thesis
    by (cases "validTTL v (log ! n)") (simp_all add: tracks_def keepPending_def)
qed

lemma tracks_Apply:
  assumes ok: "log_ok log" "clock_ok log" "0 < ttl" "n < length log" and anch: "anchors_hold ttl log"
    and tr: "tracks ttl log n t v" and t: "t \<le> r_Timestamp (log ! n)"
  shows "tracks ttl log (Suc n) (r_Timestamp (log ! n)) (apply_step v (log ! n))"
proof -
  let ?r = "log ! n"
  have v: "v_ttl v = ttl" "v_lastOffset v < int n" "v_clock v \<le> r_Timestamp ?r"
    using tr t by (auto simp: tracks_def)
  have c: "clamped v ?r = ?r" using v(3) by (rule clamped_id)
  have st: "v_ttl (stamped v ?r) = ttl" "v_clock (stamped v ?r) = r_Timestamp ?r"
    "v_lastOffset (stamped v ?r) = int n"
    using v log_okD [OF ok(1,4)] by simp_all
  have app: "apply_step v ?r = snd (if v_certain v then fold_rec (stamped v ?r) ?r
      else if silent_before v ?r then fold_rec (setFree (stamped v ?r)) ?r
      else applyUncertain (stamped v ?r) ?r)"
    using v log_okD [OF ok(1,4)] by (auto simp: apply_step_def Apply_shape proper_def c split: prod.splits)
  consider (cert) "v_certain v" | (silent) "\<not> v_certain v" "silent_before v ?r"
    | (unc) "\<not> v_certain v" "\<not> silent_before v ?r" by blast
  then show ?thesis
  proof cases
    case cert
    then have "same_lease (r_Timestamp ?r) (v_state v) (v_state (full_at ttl log n))"
      using tr t by (auto simp: tracks_def intro: same_lease_mono)
    with cert st ok app show ?thesis by (simp add: tracks_certain)
  next
    case silent
    then have "same_lease (r_Timestamp ?r) (v_state (setFree (stamped v ?r)))
        (v_state (full_at ttl log n))"
      using silent_truth [OF ok tr] v by (simp add: same_lease_def)
    with silent st ok app show ?thesis by (simp add: tracks_certain)
  next
    case unc
    then obtain k where k: "k \<le> n" "v_pending v = filter (ttl_ok ttl) (drop k (take n log))"
      using tr by (auto simp: tracks_def)
    show ?thesis
    proof (cases "r_Kind ?r = Claim \<or>
        find_anchor (fst (rec_term ?r)) (snd (rec_term ?r)) (v_pending v) = None")
      case True
      then have "applyUncertain (stamped v ?r) ?r = keepPending (stamped v ?r) ?r"
        by (auto simp: applyUncertain_def)
      with unc app k st ok show ?thesis by (simp add: tracks_pending)
    next
      case False
      with unc app k st ok anch show ?thesis by (auto intro: tracks_anchor)
    qed
  qed
qed


subsection \<open>A reader of any part of the log\<close>

text \<open>The records a reader got to see: some of the log's, in offset order.\<close>

definition part_of :: "lrecord list \<Rightarrow> lrecord list \<Rightarrow> bool" where
  "part_of log rs \<longleftrightarrow> sorted_wrt (\<lambda>p q. r_Offset p < r_Offset q) rs \<and> set rs \<subseteq> set log"

lemma part_of_nth:
  assumes "log_ok log" "part_of log rs" "r \<in> set rs"
  shows "\<exists>m < length log. r = log ! m \<and> r_Offset r = int m"
proof -
  from assms(2,3) have "r \<in> set log" by (auto simp: part_of_def)
  then obtain m where "m < length log" "r = log ! m" by (metis in_set_conv_nth)
  with log_okD(1) [OF assms(1)] show ?thesis by blast
qed

lemma apply_step_seen:
  assumes "v_lastOffset v < r_Offset r" "proper r"
  shows "v_seen (apply_step v r)"
  using Apply_Inr(6) vr.accepts_next [OF assms] by (fastforce simp: apply_step_def)

lemma read_some_tracks:
  assumes ok: "log_ok log" "clock_ok log" "0 < ttl" and anch: "anchors_hold ttl log"
    and "tracks ttl log n (v_clock (full_at ttl log n)) v"
    and "\<forall>r \<in> set rs. int n \<le> r_Offset r" "part_of log rs" "rs \<noteq> []"
  shows "tracks ttl log (nat (r_Offset (last rs)) + 1) (r_Timestamp (last rs)) (read_some v (int n) rs)
    \<and> v_seen (read_some v (int n) rs)"
  using assms(5-8)
proof (induction rs arbitrary: n v)
  case (Cons r rs)
  obtain m where m: "m < length log" "r = log ! m" "r_Offset r = int m"
    using part_of_nth [OF ok(1) Cons.prems(3)] by auto
  let ?v = "if int n < r_Offset r then Gap v else v" and ?t = "v_clock (full_at ttl log m)"
  have nm: "n \<le> m" using Cons.prems(2) m by simp
  have tr: "tracks ttl log m ?t ?v"
  proof (cases "n = m")
    case False
    with tracks_Gap [OF ok Cons.prems(1) nm] m nm show ?thesis by simp
  qed (use Cons.prems(1) m in simp)
  let ?w = "apply_step ?v r"
  have w: "tracks ttl log (Suc m) (r_Timestamp r) ?w"
    using tracks_Apply [OF ok m(1) anch tr full_clock_le [OF ok m(1)]] m(2) by simp
  have seen: "v_seen ?w"
    using tr log_okD [OF ok(1) m(1)] m by (intro apply_step_seen) (auto simp: tracks_def)
  have step: "read_some v (int n) (r # rs) = read_some ?w (int (Suc m)) rs"
    using m by (simp add: add.commute)
  show ?case
  proof (cases rs)
    case Nil
    with w seen step m show ?thesis by simp
  next
    case (Cons q qs)
    have c: "v_clock (full_at ttl log (Suc m)) = r_Timestamp r"
      using full_facts [OF ok, of "Suc m"] m by simp
    have p: "part_of log rs" "\<forall>q \<in> set rs. int (Suc m) \<le> r_Offset q"
      using Cons.prems(3) m by (auto simp: part_of_def)
    from Cons.IH [of "Suc m" ?w] w c p Cons step show ?thesis by simp
  qed
qed simp

lemma tracks_new:
  assumes "log_ok log" "clock_ok log" "NewView ttl = Some v" "n \<le> length log"
  shows "tracks ttl log n (v_clock (full_at ttl log n)) v"
proof -
  have ttl: "0 < ttl" and v: "\<not> v_certain v" "\<not> v_seen v" "v_pending v = []" "v_ttl v = ttl"
    "v_clock v = 0" "v_lastOffset v = -1"
    using assms(3) by (auto simp: NewView_def time_zero_def split: if_splits)
  then show ?thesis
    using full_facts [OF assms(1,2) ttl assms(4)] assms(4) clock_ok_ge0 [OF assms(2), of "n - 1"]
    by (auto simp: tracks_def intro!: exI [of _ n])
qed

lemma tracks_from_start:
  assumes "0 < ttl"
  shows "tracks ttl log 0 (v_clock (full_at ttl log 0)) (start_view ttl)"
  by (simp add: tracks_def start_view_def)

text \<open>
  The log of the whole reader at the point a partial reader has reached, and what their agreement
  means.
\<close>

definition agrees_with_log :: "duration \<Rightarrow> lrecord list \<Rightarrow> lrecord list \<Rightarrow> view \<Rightarrow> bool" where
  "agrees_with_log ttl log rs v \<longleftrightarrow>
     same_lease (v_clock v) (v_state v) (v_state (full_at ttl log (nat (r_Offset (last rs)) + 1)))"

lemma read_some_agrees:
  assumes "log_ok log" "clock_ok log" "0 < ttl" "anchors_hold ttl log"
    and "tracks ttl log n (v_clock (full_at ttl log n)) v"
    and "\<forall>r \<in> set rs. int n \<le> r_Offset r" "part_of log rs" "rs \<noteq> []"
    and "v_certain (read_some v (int n) rs)"
  shows "agrees_with_log ttl log rs (read_some v (int n) rs)"
proof -
  let ?v = "read_some v (int n) rs" and ?m = "nat (r_Offset (last rs)) + 1"
  have t: "tracks ttl log ?m (r_Timestamp (last rs)) ?v" "v_seen ?v"
    using read_some_tracks [OF assms(1-8)] by auto
  obtain k where k: "k < length log" "last rs = log ! k" "r_Offset (last rs) = int k"
    using part_of_nth [OF assms(1,7), of "last rs"] assms(8) by auto
  then have "v_clock (full_at ttl log ?m) = r_Timestamp (last rs)"
    using full_facts [OF assms(1-3), of "Suc k"] by simp
  with t assms(9) show ?thesis by (simp add: tracks_def agrees_with_log_def)
qed


end
