(* ===== verification/Protocol.thy ===== *)
theory Protocol
  imports Agreement AgentInvariant
begin

section \<open>The protocol: agents, their clocks and the log\<close>

text \<open>
  Any number of agents of lease/agent.go around one partition, as docs/protocol.md and the
  simulation in lease/sim_test.go put them together. An agent joins at any time and reads the whole
  history. The log stores the bytes \<open>EncodeValue\<close> writes, under broker timestamps within \<open>skew\<close> of
  real time; a record lands any time after it was sent, more than once or never, also after the
  agent was told that it failed; records and acknowledgements are read any time later, duplicates
  included; an agent may act on a reading of its clock that is arbitrarily old (a frozen process).
  Local clocks may drift by \<open>drift\<close> while one TTL passes. The theorem is that of docs/protocol.md,
  "The margin": with \<open>2 * skew + drift \<le> margin\<close> no two agents ever believe at the same time, because
  a believer's term is the live term at the end of the log, whatever it has read.
\<close>

subsection \<open>The system\<close>

type_synonym pid = nat

text \<open>What the participants and their surroundings are, and what is assumed of them.\<close>

record world =
  wd_config :: "pid \<Rightarrow> config"
  wd_clock :: "pid \<Rightarrow> gtime \<Rightarrow> gtime"
  wd_ttl :: duration
  wd_skew :: duration
  wd_drift :: duration

definition participant_ok :: "world \<Rightarrow> pid \<Rightarrow> bool" where
  "participant_ok W p \<longleftrightarrow>
     timing_ok (wd_config W p) \<and> c_TTL (wd_config W p) = wd_ttl W \<and>
     2 * wd_skew W + wd_drift W \<le> c_Margin (wd_config W p) \<and>
     c_Holder (wd_config W p) \<noteq> [] \<and> valid_utf8 (c_Holder (wd_config W p))"

definition clock_drift_ok :: "world \<Rightarrow> pid \<Rightarrow> bool" where
  "clock_drift_ok W p \<longleftrightarrow>
     (\<forall>t. 0 \<le> wd_clock W p t) \<and>
     (\<forall>s t. 0 \<le> s \<and> s \<le> t \<and> wd_clock W p t - wd_clock W p s < wd_ttl W \<longrightarrow>
        t - s \<le> wd_clock W p t - wd_clock W p s + wd_drift W)"

definition world_ok :: "world \<Rightarrow> bool" where
  "world_ok W \<longleftrightarrow>
     0 \<le> wd_skew W \<and> 0 \<le> wd_drift W \<and> wd_ttl W mod Millisecond = 0 \<and>
     (\<forall>p. participant_ok W p \<and> clock_drift_ok W p) \<and>
     (\<forall>p q. c_Holder (wd_config W p) = c_Holder (wd_config W q) \<longrightarrow> p = q)"

text \<open>A record on its way: who sent it, the instant that counts as its send time, what it says.\<close>

record sent_record =
  sn_pid :: pid
  sn_time :: gtime
  sn_rec :: lrecord

text \<open>A message of the partition: timestamp, value, and which record it is.\<close>

record message =
  ms_ts :: gtime
  ms_value :: string
  ms_sent :: nat

record system =
  sy_now :: gtime
  sy_sent :: "sent_record list"
  sy_log :: "message list"
  sy_agent :: "pid \<rightharpoonup> agent"
  sy_current :: "pid \<Rightarrow> nat"

definition sys_init :: "system \<Rightarrow> bool" where
  "sys_init s \<longleftrightarrow>
     0 \<le> sy_now s \<and> sy_sent s = [] \<and> sy_log s = [] \<and> sy_agent s = Map.empty"

definition set_agent :: "system \<Rightarrow> pid \<Rightarrow> agent \<Rightarrow> system" where
  "set_agent s p a = s\<lparr>sy_agent := (sy_agent s)(p \<mapsto> a)\<rparr>"

text \<open>
  The steps. \<open>t\<close> is the instant at which the process read its clock; an acknowledgement carries the
  offset at which the record in flight landed (each produce is answered once, and what is in flight
  is only dropped by its answer or after it, so an answer is always about the current record).
\<close>

inductive sys_step :: "world \<Rightarrow> system \<Rightarrow> system \<Rightarrow> bool" for W :: world where
  pass: "sy_now s \<le> now' \<Longrightarrow> sys_step W s (s\<lparr>sy_now := now'\<rparr>)"
| join:
    "0 \<le> t \<Longrightarrow> t \<le> sy_now s \<Longrightarrow> sy_agent s p = None \<Longrightarrow>
     newAgent (wd_config W p) 0 endOff (wd_clock W p t) = Some a \<Longrightarrow> sys_step W s (set_agent s p a)"
| produce:
    "0 \<le> t \<Longrightarrow> t \<le> sy_now s \<Longrightarrow> sy_agent s p = Some a \<Longrightarrow>
     agent_tick (wd_clock W p t) a = (Some r, a') \<Longrightarrow>
     sys_step W s ((set_agent s p a')
       \<lparr>sy_sent := sy_sent s @ [\<lparr>sn_pid = p, sn_time = t, sn_rec = r\<rparr>],
        sy_current := (sy_current s)(p := length (sy_sent s))\<rparr>)"
| idle:
    "0 \<le> t \<Longrightarrow> t \<le> sy_now s \<Longrightarrow> sy_agent s p = Some a \<Longrightarrow>
     agent_tick (wd_clock W p t) a = (None, a') \<Longrightarrow> sys_step W s (set_agent s p a')"
| give_up:
    "0 \<le> t \<Longrightarrow> t \<le> sy_now s \<Longrightarrow> sy_agent s p = Some a \<Longrightarrow>
     agent_release (wd_clock W p t) a = (Some r, a') \<Longrightarrow>
     sys_step W s ((set_agent s p a')
       \<lparr>sy_sent := sy_sent s @ [\<lparr>sn_pid = p, sn_time = t, sn_rec = r\<rparr>]\<rparr>)"
| land:
    "k < length (sy_sent s) \<Longrightarrow> EncodeValue (sn_rec (sy_sent s ! k)) = Inr b \<Longrightarrow>
     sy_now s - wd_skew W \<le> ts \<Longrightarrow> ts \<le> sy_now s + wd_skew W \<Longrightarrow> 0 \<le> ts \<Longrightarrow>
     int (length (sy_log s)) \<le> i64_max \<Longrightarrow>
     sys_step W s (s\<lparr>sy_log := sy_log s @ [\<lparr>ms_ts = ts, ms_value = b, ms_sent = k\<rparr>]\<rparr>)"
| receive:
    "0 \<le> t \<Longrightarrow> t \<le> sy_now s \<Longrightarrow> sy_agent s p = Some a \<Longrightarrow> n < length (sy_log s) \<Longrightarrow>
     int n \<le> ag_nextOffset a \<Longrightarrow>
     agent_record (wd_clock W p t) (int n) (ms_ts (sy_log s ! n)) (ms_value (sy_log s ! n)) a =
       (err, a') \<Longrightarrow>
     sys_step W s (set_agent s p a')"
| ack:
    "0 \<le> t \<Longrightarrow> t \<le> sy_now s \<Longrightarrow> sy_agent s p = Some a \<Longrightarrow> n < length (sy_log s) \<Longrightarrow>
     ms_sent (sy_log s ! n) = sy_current s p \<Longrightarrow>
     sys_step W s (set_agent s p (acked (wd_clock W p t) (Some (int n)) a))"
| ack_failed:
    "0 \<le> t \<Longrightarrow> t \<le> sy_now s \<Longrightarrow> sy_agent s p = Some a \<Longrightarrow>
     sys_step W s (set_agent s p (acked (wd_clock W p t) None a))"
| fetch:
    "0 \<le> t \<Longrightarrow> t \<le> sy_now s \<Longrightarrow> sy_agent s p = Some a \<Longrightarrow>
     sys_step W s (set_agent s p (fetched (wd_clock W p t) hw a))"
| fetch_failed: "sy_agent s p = Some a \<Longrightarrow> sys_step W s (set_agent s p (fetchFailed a))"

inductive reachable :: "world \<Rightarrow> system \<Rightarrow> bool" for W :: world where
  start: "sys_init s \<Longrightarrow> reachable W s"
| step: "reachable W s \<Longrightarrow> sys_step W s s' \<Longrightarrow> reachable W s'"

subsection \<open>The log as records\<close>

definition decoded :: "message \<Rightarrow> lrecord" where
  "decoded m =
     (case DecodeValue (ms_value m) of
        Inr d \<Rightarrow> d
      | Inl _ \<Rightarrow> \<lparr>r_Offset = 0, r_Timestamp = 0, r_Kind = KindOther 0, r_Holder = [], r_Epoch = 0,
                  r_TTL = 0\<rparr>)"

definition log_recs :: "message list \<Rightarrow> lrecord list" where
  "log_recs L =
     map (\<lambda>n. (decoded (L ! n))\<lparr>r_Offset := int n, r_Timestamp := ms_ts (L ! n)\<rparr>) [0..<length L]"

lemma length_log_recs [simp]: "length (log_recs L) = length L"
  by (simp add: log_recs_def)

lemma log_recs_nth:
  "n < length L \<Longrightarrow> log_recs L ! n = (decoded (L ! n))\<lparr>r_Offset := int n, r_Timestamp := ms_ts (L ! n)\<rparr>"
  by (simp add: log_recs_def)

lemma log_recs_snoc:
  "log_recs (L @ [m]) =
     log_recs L @ [(decoded m)\<lparr>r_Offset := int (length L), r_Timestamp := ms_ts m\<rparr>]"
  by (auto simp: log_recs_def nth_append intro!: nth_equalityI)

lemma full_at_append: "n \<le> length L \<Longrightarrow> full_at ttl (L @ M) n = full_at ttl L n"
  by (simp add: full_at_def)

lemma verdict_append: "n < length L \<Longrightarrow> verdict ttl (L @ M) n = verdict ttl L n"
  by (simp add: verdict_def full_at_append nth_append)

text \<open>The reader of the whole log, without any assumption on the timestamps.\<close>

lemma full_reader:
  assumes "log_ok L" "0 < ttl" "n \<le> length L"
  shows "v_certain (full_at ttl L n) \<and> v_ttl (full_at ttl L n) = ttl \<and>
    v_lastOffset (full_at ttl L n) = int n - 1 \<and> view_wf (full_at ttl L n)"
  using assms(3)
proof (induction n)
  case 0
  then show ?case using assms(2) by (simp add: start_view_def view_wf_def)
next
  case (Suc n)
  then have n: "n < length L" and IH: "v_certain (full_at ttl L n)" "v_ttl (full_at ttl L n) = ttl"
    "v_lastOffset (full_at ttl L n) = int n - 1" "view_wf (full_at ttl L n)" by simp_all
  obtain out v where a: "Apply (full_at ttl L n) (L ! n) = Inr (out, v)"
    using vr.accepts_next [of "full_at ttl L n" "L ! n"] log_okD [OF assms(1) n] IH(3) by auto
  then have "full_at ttl L (Suc n) = v" using full_at_Suc [OF n] by (simp add: apply_step_def)
  with Apply_Inr(3,5) [OF a] Apply_wf [OF IH(4) a] vr.stays_certain [OF IH(1) a]
    log_okD [OF assms(1) n] IH show ?case by simp
qed

lemma full_Apply:
  assumes "log_ok L" "0 < ttl" "n < length L"
  shows "Apply (full_at ttl L n) (L ! n) = Inr (verdict ttl L n, full_at ttl L (Suc n))"
proof -
  obtain out v where a: "Apply (full_at ttl L n) (L ! n) = Inr (out, v)"
    using vr.accepts_next [of "full_at ttl L n" "L ! n"] log_okD [OF assms(1,3)]
      full_reader [OF assms(1,2), of n] assms(3) by auto
  then show ?thesis using full_at_Suc [OF assms(3)] by (simp add: apply_step_def verdict_def)
qed

lemma full_clock:
  assumes "log_ok L" "0 < ttl" "n \<le> length L" "\<forall>r \<in> set L. r_Timestamp r \<le> T" "0 \<le> T"
  shows "v_clock (full_at ttl L n) \<le> T \<and> (\<forall>m < n. r_Timestamp (L ! m) \<le> v_clock (full_at ttl L n))"
  using assms(3)
proof (induction n)
  case 0
  then show ?case using assms(5) by (simp add: start_view_def go_simps)
next
  case (Suc n)
  then have n: "n < length L" by simp
  have "v_clock (full_at ttl L (Suc n)) = max (v_clock (full_at ttl L n)) (r_Timestamp (L ! n))"
    using Apply_Inr(4) [OF full_Apply [OF assms(1,2) n]] .
  with Suc n assms(4) show ?case by (auto simp: less_Suc_eq le_max_iff_disj)
qed

end
