(* ===== verification/LiveTerms.thy ===== *)
theory LiveTerms
  imports Protocol
begin

section \<open>Live terms in the log\<close>

text \<open>
  The part of the protocol's safety that is about the log alone: an accepted claim or renewal keeps
  its term alive at the end of the log until a TTL after it was sent, as far as the brokers' clocks
  can tell, unless a release of that term has landed. It rests on the interface of the log reader
  (\<open>vr.live_term_survives\<close>, \<open>vr.granted_claim\<close>, \<open>vr.accepted_renew\<close>).
\<close>

subsection \<open>What is on the wire and in the log\<close>

definition made_by :: "world \<Rightarrow> pid \<Rightarrow> lrecord \<Rightarrow> bool" where
  "made_by W p r \<longleftrightarrow>
     r_Offset r = 0 \<and> r_Timestamp r = 0 \<and> known_kind (r_Kind r) \<and>
     r_Holder r = c_Holder (wd_config W p) \<and> r_TTL r = wd_ttl W \<and> is_i64 (r_Epoch r) \<and>
     (r_Kind r = Claim \<longrightarrow> r_Epoch r = 0)"

definition sent_ok :: "world \<Rightarrow> gtime \<Rightarrow> sent_record list \<Rightarrow> bool" where
  "sent_ok W now S \<longleftrightarrow> 0 \<le> now \<and>
     (\<forall>x \<in> set S. 0 \<le> sn_time x \<and> sn_time x \<le> now \<and> made_by W (sn_pid x) (sn_rec x))"

definition msgs_ok :: "world \<Rightarrow> gtime \<Rightarrow> sent_record list \<Rightarrow> message list \<Rightarrow> bool" where
  "msgs_ok W now S L \<longleftrightarrow> int (length L) \<le> i64_max + 1 \<and>
     (\<forall>m \<in> set L. ms_sent m < length S \<and> decoded m = sn_rec (S ! ms_sent m) \<and>
        DecodeValue (ms_value m) = Inr (decoded m) \<and> 0 \<le> ms_ts m \<and>
        ms_ts m \<le> now + wd_skew W \<and> sn_time (S ! ms_sent m) - wd_skew W \<le> ms_ts m)"

definition released :: "sent_record list \<Rightarrow> string \<Rightarrow> int \<Rightarrow> bool" where
  "released S h e \<longleftrightarrow>
     (\<exists>x \<in> set S. r_Kind (sn_rec x) = Release \<and> r_Holder (sn_rec x) = h \<and> r_Epoch (sn_rec x) = e)"

definition sent_at :: "sent_record list \<Rightarrow> message list \<Rightarrow> nat \<Rightarrow> gtime" where
  "sent_at S L n = sn_time (S ! ms_sent (L ! n))"

definition end_view :: "world \<Rightarrow> message list \<Rightarrow> view" where
  "end_view W L = full_at (wd_ttl W) (log_recs L) (length L)"

definition grants :: "world \<Rightarrow> message list \<Rightarrow> nat \<Rightarrow> string \<Rightarrow> int \<Rightarrow> bool" where
  "grants W L n h e \<longleftrightarrow>
     n < length L \<and> verdict (wd_ttl W) (log_recs L) n = Accepted \<and>
     r_Kind (log_recs L ! n) \<noteq> Release \<and> rec_term (log_recs L ! n) = (h, e)"

text \<open>A release of the term has landed.\<close>

definition freed :: "message list \<Rightarrow> string \<Rightarrow> int \<Rightarrow> bool" where
  "freed L h e \<longleftrightarrow>
     (\<exists>m \<in> set L. r_Kind (decoded m) = Release \<and> r_Holder (decoded m) = h \<and> r_Epoch (decoded m) = e)"

definition live_terms :: "world \<Rightarrow> gtime \<Rightarrow> sent_record list \<Rightarrow> message list \<Rightarrow> bool" where
  "live_terms W now S L \<longleftrightarrow>
     (\<forall>n h e. grants W L n h e \<and> \<not> freed L h e \<and>
        now + wd_skew W < sent_at S L n - wd_skew W + wd_ttl W \<longrightarrow>
        (\<exists>x \<ge> sent_at S L n - wd_skew W + wd_ttl W. abs_state (v_state (end_view W L)) = Held h e x))"

lemma live_termsD:
  assumes "live_terms W now S L" "grants W L n h e" "\<not> freed L h e"
    and "now + wd_skew W < sent_at S L n - wd_skew W + wd_ttl W"
  obtains x where "sent_at S L n - wd_skew W + wd_ttl W \<le> x"
    "abs_state (v_state (end_view W L)) = Held h e x"
  using assms unfolding live_terms_def by blast

text \<open>What the world assumes, unpacked.\<close>

lemma world_okD:
  assumes "world_ok W"
  shows "0 < wd_ttl W" "0 \<le> wd_skew W" "0 \<le> wd_drift W" "wd_ttl W mod Millisecond = 0"
    "is_i64 (wd_ttl W)" "timing_ok (wd_config W p)" "c_TTL (wd_config W p) = wd_ttl W"
    "2 * wd_skew W + wd_drift W \<le> c_Margin (wd_config W p)"
    "c_Holder (wd_config W p) \<noteq> []" "valid_utf8 (c_Holder (wd_config W p))"
    "c_Holder (wd_config W p) = c_Holder (wd_config W q) \<longleftrightarrow> p = q"
    "0 \<le> wd_clock W p t"
    "0 \<le> s \<Longrightarrow> s \<le> t \<Longrightarrow> wd_clock W p t - wd_clock W p s < wd_ttl W \<Longrightarrow>
       t - s \<le> wd_clock W p t - wd_clock W p s + wd_drift W"
proof -
  have p: "participant_ok W p" "clock_drift_ok W p" using assms by (auto simp: world_ok_def)
  then show "timing_ok (wd_config W p)" "c_TTL (wd_config W p) = wd_ttl W"
    "2 * wd_skew W + wd_drift W \<le> c_Margin (wd_config W p)"
    "c_Holder (wd_config W p) \<noteq> []" "valid_utf8 (c_Holder (wd_config W p))"
    "0 \<le> wd_clock W p t"
    "0 \<le> s \<Longrightarrow> s \<le> t \<Longrightarrow> wd_clock W p t - wd_clock W p s < wd_ttl W \<Longrightarrow>
       t - s \<le> wd_clock W p t - wd_clock W p s + wd_drift W"
    by (auto simp: participant_ok_def clock_drift_ok_def)
  then show "0 < wd_ttl W" "is_i64 (wd_ttl W)" using timing_bounds [of "wd_config W p"] by auto
qed (use assms in \<open>auto simp: world_ok_def\<close>)

text \<open>A record of a participant survives the wire unchanged.\<close>

lemma made_by_wire:
  assumes "world_ok W" "made_by W p r"
  shows "encodable r" "carried r = r"
proof -
  show "encodable r"
    using assms world_okD(5,9,10) [OF assms(1)] by (auto simp: made_by_def encodable_def)
  have "0 < wd_ttl W" "wd_ttl W mod Millisecond = 0" using world_okD [OF assms(1)] by auto
  then have "Milliseconds (wd_ttl W) * Millisecond = wd_ttl W"
    by (simp add: Milliseconds_floor)
  then show "carried r = r"
    using assms(2) by (auto simp: made_by_def carried_def go_simps)
qed

lemma made_by_decoded:
  assumes "world_ok W" "made_by W p r" "EncodeValue r = Inr b"
  shows "DecodeValue b = Inr r"
  using codec.decode_encode [of r b] made_by_wire [OF assms(1,2)] assms(3) by simp

lemma msgs_okD:
  assumes "msgs_ok W now S L" "n < length L"
  shows "ms_sent (L ! n) < length S" "decoded (L ! n) = sn_rec (S ! ms_sent (L ! n))"
    "DecodeValue (ms_value (L ! n)) = Inr (decoded (L ! n))" "0 \<le> ms_ts (L ! n)"
    "ms_ts (L ! n) \<le> now + wd_skew W" "sent_at S L n - wd_skew W \<le> ms_ts (L ! n)"
    "is_i64 (int n)"
  using assms by (auto simp: msgs_ok_def sent_at_def is_i64_def i64_min_def i64_max_def)

text \<open>A release that landed was sent.\<close>

lemma freed_released:
  assumes "msgs_ok W now S L" "freed L h e"
  shows "released S h e"
proof -
  obtain n where n: "n < length L" "r_Kind (decoded (L ! n)) = Release" "r_Holder (decoded (L ! n)) = h"
    "r_Epoch (decoded (L ! n)) = e"
    using assms(2) by (auto simp: freed_def in_set_conv_nth)
  with msgs_okD(1,2) [OF assms(1) n(1)] show ?thesis
    by (auto simp: released_def intro!: bexI [of _ "S ! ms_sent (L ! n)"])
qed

lemma msgs_log_ok:
  assumes "world_ok W" "sent_ok W now S" "msgs_ok W now S L"
  shows "log_ok (log_recs L)"
    "n < length L \<Longrightarrow> r_TTL (log_recs L ! n) = wd_ttl W"
    "n < length L \<Longrightarrow> made_by W (sn_pid (S ! ms_sent (L ! n))) (decoded (L ! n))"
proof -
  have m: "made_by W (sn_pid (S ! ms_sent (L ! n))) (decoded (L ! n))" if "n < length L" for n
    using assms(2) msgs_okD(1,2) [OF assms(3) that] by (auto simp: sent_ok_def)
  then have "proper (log_recs L ! n)" if "n < length L" for n
    using that world_okD(9) [OF assms(1)] m [OF that]
    by (auto simp: log_recs_nth proper_def made_by_def)
  then show "log_ok (log_recs L)" by (simp add: log_ok_def log_recs_nth)
  show "n < length L \<Longrightarrow> r_TTL (log_recs L ! n) = wd_ttl W"
    "n < length L \<Longrightarrow> made_by W (sn_pid (S ! ms_sent (L ! n))) (decoded (L ! n))"
    using m by (auto simp: log_recs_nth made_by_def)
qed

lemma end_view_facts:
  assumes "world_ok W" "sent_ok W now S" "msgs_ok W now S L"
  shows "v_certain (end_view W L)" "v_ttl (end_view W L) = wd_ttl W"
    "v_clock (end_view W L) \<le> now + wd_skew W" "view_wf (end_view W L)"
    "n < length L \<Longrightarrow> ms_ts (L ! n) \<le> v_clock (end_view W L)"
proof -
  note lok = msgs_log_ok(1) [OF assms] and ttl = world_okD(1) [OF assms(1)]
  have ts: "\<forall>r \<in> set (log_recs L). r_Timestamp r \<le> now + wd_skew W"
    using msgs_okD(5) [OF assms(3)] by (auto simp: log_recs_def)
  have "0 \<le> now + wd_skew W"
    using assms(2) world_okD(2) [OF assms(1)] by (simp add: sent_ok_def)
  from full_clock [OF lok ttl _ ts this, of "length L"] full_reader [OF lok ttl, of "length L"]
  show "v_certain (end_view W L)" "v_ttl (end_view W L) = wd_ttl W"
    "v_clock (end_view W L) \<le> now + wd_skew W" "view_wf (end_view W L)"
    "n < length L \<Longrightarrow> ms_ts (L ! n) \<le> v_clock (end_view W L)"
    by (auto simp: end_view_def log_recs_nth)
qed

lemma end_view_snoc:
  assumes "world_ok W" "sent_ok W now S" "msgs_ok W now S (L @ [m])"
  shows "Apply (end_view W L) (log_recs (L @ [m]) ! length L) =
     Inr (verdict (wd_ttl W) (log_recs (L @ [m])) (length L), end_view W (L @ [m]))"
  using full_Apply [OF msgs_log_ok(1) [OF assms] world_okD(1) [OF assms(1)], of "length L"]
  by (simp add: end_view_def log_recs_snoc full_at_append)

lemma grants_append: "n < length L \<Longrightarrow> grants W (L @ [m]) n h e = grants W L n h e"
  by (simp add: grants_def log_recs_snoc verdict_append nth_append)

subsection \<open>Preservation\<close>

lemma live_terms_later:
  "live_terms W now S L \<Longrightarrow> now \<le> now' \<Longrightarrow> live_terms W now' S L"
  unfolding live_terms_def by (meson add_right_mono order_le_less_trans)

lemma sent_at_append: "msgs_ok W now S L \<Longrightarrow> n < length L \<Longrightarrow> sent_at (S @ X) L n = sent_at S L n"
  using msgs_okD(1) by (simp add: sent_at_def nth_append)

lemma live_terms_sent:
  assumes "msgs_ok W now S L" "live_terms W now S L"
  shows "live_terms W now (S @ X) L"
  unfolding live_terms_def
proof (intro allI impI, elim conjE)
  fix n h e assume g: "grants W L n h e" "\<not> freed L h e"
    "now + wd_skew W < sent_at (S @ X) L n - wd_skew W + wd_ttl W"
  then have "sent_at (S @ X) L n = sent_at S L n"
    using sent_at_append [OF assms(1)] by (simp add: grants_def)
  with g assms(2)
  show "\<exists>x \<ge> sent_at (S @ X) L n - wd_skew W + wd_ttl W.
      abs_state (v_state (end_view W L)) = Held h e x"
    by (auto simp: live_terms_def)
qed

text \<open>A record that lands: terms that were live stay, and an accepted one starts a live term.\<close>

lemma live_terms_land:
  assumes W: "world_ok W" and S: "sent_ok W now S" and L: "msgs_ok W now S (L @ [m])"
    and live: "live_terms W now S L"
  shows "live_terms W now S (L @ [m])"
  unfolding live_terms_def
proof (intro allI impI, elim conjE)
  fix n h e
  let ?L = "L @ [m]" and ?v = "end_view W L" and ?v' = "end_view W (L @ [m])"
    and ?r = "log_recs (L @ [m]) ! length L"
  let ?x = "sent_at S ?L n - wd_skew W + wd_ttl W"
  assume g: "grants W ?L n h e" "\<not> freed ?L h e" "now + wd_skew W < ?x"
  have L0: "msgs_ok W now S L" using L by (simp add: msgs_ok_def)
  note app = end_view_snoc [OF W S L]
  note v = end_view_facts [OF W S L0] and v' = end_view_facts [OF W S L]
  have pr: "proper ?r" "r_TTL ?r = wd_ttl W"
    using log_okD(2) [OF msgs_log_ok(1) [OF W S L], of "length L"] msgs_log_ok(2) [OF W S L] by auto
  show "\<exists>x \<ge> ?x. abs_state (v_state ?v') = Held h e x"
  proof (cases "n = length L")
    case False
    then have n: "n < length L" using g(1) by (simp add: grants_def)
    then have "sent_at S ?L n = sent_at S L n" by (simp add: sent_at_def nth_append)
    moreover have "\<not> freed L h e" using g(2) by (auto simp: freed_def)
    ultimately obtain x where
      x: "?x \<le> x" "abs_state (v_state ?v) = Held h e x"
      using g(1,3) grants_append [OF n] by (auto elim: live_termsD [OF live])
    have "x \<le> v_clock ?v + v_ttl ?v" "v_clock ?v' < x"
      using x v v' g(3) by (auto simp: view_wf_def abs_state_Held)
    moreover have "\<not> (r_Kind ?r = Release \<and> r_Holder ?r = h \<and> r_Epoch ?r = e)"
      using g(2) by (simp add: freed_def log_recs_nth)
    ultimately show ?thesis
      using vr.live_term_survives [OF v(1) pr(1) app x(2)] pr(2) v(2) x(1) by force
  next
    case True
    then have acc: "Apply ?v ?r = Inr (Accepted, ?v')" and k: "r_Kind ?r \<noteq> Release"
      "rec_term ?r = (h, e)" using g(1) app by (auto simp: grants_def)
    have off: "r_Offset ?r = int (length L)" by (simp add: log_recs_nth)
    have "?x \<le> v_clock ?v' + wd_ttl W"
      using v'(5) [of n] msgs_okD(6) [OF L, of n] True by auto
    moreover have "r_Kind ?r = Claim \<or> r_Kind ?r = Renew"
      using pr(1) k(1) by (auto simp: proper_def known_kind_iff)
    ultimately show ?thesis
      using vr.granted_claim [OF v(1) pr(1) acc] vr.accepted_renew [OF v(1) pr(1) acc] pr(2) k(2)
      by (auto simp: rec_term_def)
  qed
qed

end
