(* ===== verification/Safety.thy ===== *)
theory Safety
  imports LiveTerms
begin

section \<open>No two holders\<close>

text \<open>
  The part of the protocol's safety that is about one agent: its view is the whole-log view of what
  it has read, what is in flight is its current record, and a belief is backed by an accepted
  record of its own that was sent early enough. With theory \<open>LiveTerms\<close> this gives the protocol's
  promise: a believer's term is live in the log, so there is one believer at most, and epochs grow.
\<close>

subsection \<open>What an agent knows and believes\<close>

definition reads_log :: "world \<Rightarrow> message list \<Rightarrow> pid \<Rightarrow> agent \<Rightarrow> bool" where
  "reads_log W L p a \<longleftrightarrow>
     ag_cfg a = wd_config W p \<and>
     (\<exists>n \<le> length L. ag_nextOffset a = int n \<and>
        ag_view a = full_at (wd_ttl W) (log_recs L) n \<and>
        (\<forall>i out. ag_ownOutcomes a i = Some out \<longrightarrow>
           (\<exists>m < n. i = int m \<and> verdict (wd_ttl W) (log_recs L) m = out)))"

definition flight_ok :: "world \<Rightarrow> sent_record list \<Rightarrow> message list \<Rightarrow> pid \<Rightarrow> nat \<Rightarrow> agent \<Rightarrow> bool" where
  "flight_ok W S L p cur a \<longleftrightarrow>
     (\<forall>f. ag_inflight a = Some f \<longrightarrow>
        cur < length S \<and> sn_pid (S ! cur) = p \<and>
        if_sentAt f = wd_clock W p (sn_time (S ! cur)) \<and>
        if_kind f = r_Kind (sn_rec (S ! cur)) \<and> (if_kind f = Claim \<or> if_kind f = Renew) \<and>
        (if_kind f = Renew \<longrightarrow> r_Epoch (sn_rec (S ! cur)) = ag_epoch a) \<and>
        (if_offset f = -1 \<or> (\<exists>m < length L. if_offset f = int m \<and> ms_sent (L ! m) = cur)))"

text \<open>An epoch of an earlier claim, not of the one in flight.\<close>

definition spent :: "message list \<Rightarrow> nat \<Rightarrow> agent \<Rightarrow> int \<Rightarrow> bool" where
  "spent L cur a e \<longleftrightarrow>
     (\<exists>m < length L. e = int m \<and> (ag_inflight a \<noteq> None \<longrightarrow> ms_sent (L ! m) \<noteq> cur))"

definition backed :: "world \<Rightarrow> sent_record list \<Rightarrow> message list \<Rightarrow> pid \<Rightarrow> agent \<Rightarrow> bool" where
  "backed W S L p a \<longleftrightarrow>
     \<not> released S (c_Holder (wd_config W p)) (ag_epoch a) \<and>
     (\<exists>m. grants W L m (c_Holder (wd_config W p)) (ag_epoch a) \<and>
        ag_deadline a = wd_clock W p (sent_at S L m) + (wd_ttl W - c_Margin (wd_config W p)))"

definition belief_inv :: "world \<Rightarrow> sent_record list \<Rightarrow> message list \<Rightarrow> pid \<Rightarrow> nat \<Rightarrow> agent \<Rightarrow> bool" where
  "belief_inv W S L p cur a \<longleftrightarrow>
     is_i64 (ag_epoch a) \<and>
     (ag_deadline a \<noteq> 0 \<longrightarrow> backed W S L p a \<and> spent L cur a (ag_epoch a)) \<and>
     (\<forall>e. released S (c_Holder (wd_config W p)) e \<longrightarrow> spent L cur a e)"

definition agent_inv :: "world \<Rightarrow> sent_record list \<Rightarrow> message list \<Rightarrow> pid \<Rightarrow> nat \<Rightarrow> agent \<Rightarrow> bool" where
  "agent_inv W S L p cur a \<longleftrightarrow>
     reads_log W L p a \<and> flight_ok W S L p cur a \<and> belief_inv W S L p cur a"

lemmas agent_inv_defs = agent_inv_def reads_log_def flight_ok_def belief_inv_def backed_def spent_def

lemma agent_inv_frame:
  assumes "agent_inv W S L p cur a"
    and "ag_cfg a' = ag_cfg a" "ag_view a' = ag_view a" "ag_nextOffset a' = ag_nextOffset a"
    "ag_ownOutcomes a' = ag_ownOutcomes a" "ag_epoch a' = ag_epoch a"
    "ag_deadline a' = ag_deadline a \<or> ag_deadline a' = 0"
    "ag_inflight a' = ag_inflight a \<or> ag_inflight a' = None"
  shows "agent_inv W S L p cur a'"
proof -
  have "reads_log W L p a'" using assms by (simp add: agent_inv_def reads_log_def)
  moreover have "flight_ok W S L p cur a'"
    using assms by (auto simp: agent_inv_def flight_ok_def)
  moreover have "spent L cur a e \<Longrightarrow> spent L cur a' e" for e
    using assms(8) by (auto simp: spent_def)
  ultimately show ?thesis
    using assms(1,6,7) by (auto simp: agent_inv_def belief_inv_def backed_def)
qed

subsection \<open>The log and the wire grow\<close>

lemma grants_later: "grants W L n h e \<Longrightarrow> grants W (L @ [m]) n h e"
  using grants_append [of n L W m h e] by (simp add: grants_def)

lemma agent_inv_land:
  assumes "agent_inv W S L p cur a"
  shows "agent_inv W S (L @ [m]) p cur a"
proof -
  have r: "reads_log W (L @ [m]) p a"
    using assms by (fastforce simp: agent_inv_def reads_log_def log_recs_snoc full_at_append
        verdict_append)
  have f: "flight_ok W S (L @ [m]) p cur a"
    using assms by (fastforce simp: agent_inv_def flight_ok_def nth_append)
  have s: "spent L cur a e \<Longrightarrow> spent (L @ [m]) cur a e" for e
    by (fastforce simp: spent_def nth_append)
  have b: "backed W S L p a \<Longrightarrow> backed W S (L @ [m]) p a"
    unfolding backed_def
    by (metis grants_later grants_def sent_at_def nth_append)
  from r f s b assms show ?thesis by (auto simp: agent_inv_def belief_inv_def)
qed

text \<open>A record of another participant, or one that is no release.\<close>

lemma agent_inv_sent:
  assumes "agent_inv W S L p cur a" "msgs_ok W now S L"
    and "\<And>e. released (S @ [x]) (c_Holder (wd_config W p)) e \<Longrightarrow>
      released S (c_Holder (wd_config W p)) e"
  shows "agent_inv W (S @ [x]) L p cur a"
proof -
  have "sent_at (S @ [x]) L n = sent_at S L n" if "grants W L n h e" for n h e
    using that sent_at_append [OF assms(2)] by (simp add: grants_def)
  then have "backed W S L p a \<Longrightarrow> backed W (S @ [x]) L p a"
    using assms(3) by (fastforce simp: backed_def)
  then show ?thesis
    using assms(1,3) by (auto simp: agent_inv_def belief_inv_def flight_ok_def nth_append)
qed

subsection \<open>The verdict on the record in flight\<close>

lemma agent_inv_settle:
  assumes W: "world_ok W" and S: "sent_ok W now S" and L: "msgs_ok W now S L"
    and inv: "agent_inv W S L p cur a" and f: "ag_inflight a = Some f"
    and m: "m < length L" "if_offset f = int m" "verdict (wd_ttl W) (log_recs L) m = out"
      "ms_sent (L ! m) = cur"
    and t: "0 \<le> t"
  shows "agent_inv W S L p cur (settle t out a)"
proof -
  let ?h = "c_Holder (wd_config W p)" and ?d = "wd_ttl W - c_Margin (wd_config W p)"
  have cfg: "ag_cfg a = wd_config W p" using inv by (simp add: agent_inv_def reads_log_def)
  have fl: "sn_pid (S ! cur) = p" "if_sentAt f = wd_clock W p (sent_at S L m)"
    "if_kind f = r_Kind (sn_rec (S ! cur))" "if_kind f = Claim \<or> if_kind f = Renew"
    "if_kind f = Renew \<Longrightarrow> r_Epoch (sn_rec (S ! cur)) = ag_epoch a"
    using inv f m(4) by (auto simp: agent_inv_def flight_ok_def sent_at_def)
  have rec: "r_Kind (log_recs L ! m) = if_kind f" "r_Holder (log_recs L ! m) = ?h"
    "r_Offset (log_recs L ! m) = int m" "r_Epoch (log_recs L ! m) = r_Epoch (sn_rec (S ! cur))"
    using msgs_log_ok(3) [OF W S L m(1)] msgs_okD(2) [OF L m(1)] fl m
    by (auto simp: log_recs_nth made_by_def)
  have grant: "grants W L m ?h (if if_kind f = Claim then int m else ag_epoch a)" if "out = Accepted"
    using that m fl rec by (auto simp: grants_def rec_term_def)
  have fresh: "\<not> released S ?h (int m)"
    using inv f m by (auto simp: agent_inv_def belief_inv_def spent_def)
  have i: "is_i64 (int m)" using msgs_okD(7) [OF L m(1)] .
  consider (unchanged) "ag_epoch (settle t out a) = ag_epoch a"
      "ag_deadline (settle t out a) = ag_deadline a \<or> ag_deadline (settle t out a) = 0"
    | (claim) "out = Accepted" "if_kind f = Claim" "ag_epoch (settle t out a) = int m"
      "ag_deadline (settle t out a) = wd_clock W p (sent_at S L m) + ?d"
    | (renew) "out = Accepted" "if_kind f = Renew" "ag_epoch (settle t out a) = ag_epoch a"
      "ag_deadline (settle t out a) = wd_clock W p (sent_at S L m) + ?d" "ag_deadline a \<noteq> 0"
    using settle_effect [OF f _ t, of out] world_okD(6,7) [OF W, of p] fl(2) m(2) cfg by auto
  then have "belief_inv W S L p cur (settle t out a)"
  proof cases
    case unchanged
    with inv show ?thesis
      using f by (auto simp: agent_inv_def belief_inv_def backed_def spent_def settle_inflight)
  next
    case claim
    with grant fresh i inv f m(1) show ?thesis
      by (auto simp: agent_inv_def belief_inv_def backed_def spent_def settle_inflight)
  next
    case renew
    with grant inv f show ?thesis
      by (auto simp: agent_inv_def belief_inv_def backed_def spent_def settle_inflight)
  qed
  moreover have "reads_log W L p (settle t out a)" "flight_ok W S L p cur (settle t out a)"
    using inv f by (auto simp: agent_inv_def reads_log_def flight_ok_def settle_inflight)
  ultimately show ?thesis by (simp add: agent_inv_def)
qed

subsection \<open>The steps of an agent\<close>

lemma agent_inv_ownRecord:
  assumes W: "world_ok W" and S: "sent_ok W now S" and L: "msgs_ok W now S L"
    and inv: "agent_inv W S L p cur a" and t: "0 \<le> t"
    and m: "m < length L" "int m < ag_nextOffset a" "verdict (wd_ttl W) (log_recs L) m = out"
  shows "agent_inv W S L p cur (ownRecord t (int m) k out a)"
proof (cases "ag_inflight a")
  case None
  with inv show ?thesis by (simp add: ownRecord_def)
next
  case (Some f)
  consider "ownRecord t (int m) k out a = a"
    | "ownRecord t (int m) k out a = a\<lparr>ag_ownOutcomes := (ag_ownOutcomes a)(int m \<mapsto> out)\<rparr>"
    | "if_offset f = int m" "ownRecord t (int m) k out a = settle t out a"
    using Some by (cases "if_kind f = k"; cases "if_offset f = -1"; cases "if_offset f = int m")
      (simp_all add: ownRecord_def)
  then show ?thesis
  proof cases
    case 2
    have "reads_log W L p (a\<lparr>ag_ownOutcomes := (ag_ownOutcomes a)(int m \<mapsto> out)\<rparr>)"
      using inv m by (auto simp: agent_inv_def reads_log_def)
    with 2 inv show ?thesis
      by (auto simp: agent_inv_def flight_ok_def belief_inv_def backed_def spent_def)
  next
    case 3
    then have "ms_sent (L ! m) = cur"
      using inv Some by (fastforce simp: agent_inv_def flight_ok_def)
    with 3 show ?thesis using agent_inv_settle [OF W S L inv Some m(1) _ m(3) _ t] by simp
  qed (use inv in simp)
qed

lemma agent_inv_acked:
  assumes W: "world_ok W" and S: "sent_ok W now S" and L: "msgs_ok W now S L"
    and inv: "agent_inv W S L p cur a" and t: "0 \<le> t"
    and res: "\<And>i. res = Some i \<Longrightarrow> \<exists>n < length L. i = int n \<and> ms_sent (L ! n) = cur"
  shows "agent_inv W S L p cur (acked t res a)"
proof (cases "ag_inflight a")
  case None
  with inv show ?thesis by (simp add: acked_def)
next
  case (Some f)
  show ?thesis
  proof (cases res)
    case None
    show ?thesis
      by (rule agent_inv_frame [OF inv]) (simp_all add: acked_def None Some Let_def)
  next
    case res: (Some i)
    then obtain n where n: "n < length L" "i = int n" "ms_sent (L ! n) = cur"
      using assms(6) by blast
    let ?a = "a\<lparr>ag_inflight := Some (f\<lparr>if_offset := i\<rparr>)\<rparr>"
    have inv': "agent_inv W S L p cur ?a"
    proof -
      have "reads_log W L p ?a" using inv by (simp add: agent_inv_def reads_log_def)
      moreover have "flight_ok W S L p cur ?a"
        using inv Some n by (auto simp: agent_inv_def flight_ok_def)
      moreover have "belief_inv W S L p cur ?a"
        using inv Some by (auto simp: agent_inv_def belief_inv_def backed_def spent_def)
      ultimately show ?thesis by (simp add: agent_inv_def)
    qed
    show ?thesis
    proof (cases "ag_ownOutcomes a i")
      case None
      with inv' Some res show ?thesis by (simp add: acked_def)
    next
      case out: (Some out)
      then have "verdict (wd_ttl W) (log_recs L) n = out"
        using inv n(2) by (fastforce simp: agent_inv_def reads_log_def)
      with agent_inv_settle [OF W S L inv' _ n(1) _ _ n(3) t, of _ out] n(2) out Some res
      show ?thesis by (simp add: acked_def)
    qed
  qed
qed

lemma agent_inv_checkTerm: "agent_inv W S L p cur a \<Longrightarrow> agent_inv W S L p cur (checkTerm t a)"
  by (erule agent_inv_frame) (simp_all add: checkTerm_deadline)

text \<open>Reading the next record, or an old one again.\<close>

lemma agent_inv_record:
  assumes W: "world_ok W" and S: "sent_ok W now S" and L: "msgs_ok W now S L"
    and inv: "agent_inv W S L p cur a" and t: "0 \<le> t"
    and n: "n < length L" "int n \<le> ag_nextOffset a"
  shows "agent_inv W S L p cur (snd (agent_record t (int n) (ms_ts (L ! n)) (ms_value (L ! n)) a))"
proof (cases "int n < ag_nextOffset a")
  case True
  with inv show ?thesis by (simp add: agent_record_old)
next
  case False
  with n(2) have next_n: "ag_nextOffset a = int n" by simp
  let ?s = "seeRecord t (int n) (ms_ts (L ! n)) a" and ?ttl = "wd_ttl W" and ?R = "log_recs L"
  have view: "ag_view ?s = full_at ?ttl ?R n"
    using inv next_n by (auto simp: agent_inv_def reads_log_def)
  have dec: "DecodeValue (ms_value (L ! n)) = Inr (decoded (L ! n))" using msgs_okD(3) [OF L n(1)] .
  have rn: "?R ! n = (decoded (L ! n))\<lparr>r_Offset := int n, r_Timestamp := ms_ts (L ! n)\<rparr>"
    using log_recs_nth [OF n(1)] .
  have app: "Apply (full_at ?ttl ?R n) (?R ! n) = Inr (verdict ?ttl ?R n, full_at ?ttl ?R (Suc n))"
    using full_Apply [OF msgs_log_ok(1) [OF W S L] world_okD(1) [OF W]] n(1) by simp
  let ?v = "?s\<lparr>ag_view := full_at ?ttl ?R (Suc n)\<rparr>"
  have inv': "agent_inv W S L p cur ?v"
  proof -
    have "reads_log W L p ?v"
    proof -
      have "\<exists>m < Suc n. i = int m \<and> verdict ?ttl ?R m = out" if "ag_ownOutcomes a i = Some out" for i out
        using inv next_n that by (fastforce simp: agent_inv_def reads_log_def)
      then show ?thesis
        using inv n(1) unfolding agent_inv_def reads_log_def
        by (intro conjI exI [of _ "Suc n"]) auto
    qed
    moreover have "flight_ok W S L p cur ?v"
      using inv by (auto simp: agent_inv_def flight_ok_def)
    moreover have "belief_inv W S L p cur ?v"
      using inv by (auto simp: agent_inv_def belief_inv_def backed_def spent_def)
    ultimately show ?thesis by (simp add: agent_inv_def)
  qed
  have "agent_inv W S L p cur (checkTerm t
      (if r_Holder (decoded (L ! n)) = c_Holder (ag_cfg a)
       then ownRecord t (int n) (r_Kind (decoded (L ! n))) (verdict ?ttl ?R n) ?v else ?v))"
    using inv' agent_inv_ownRecord [OF W S L inv' t n(1)] by (intro agent_inv_checkTerm) simp
  moreover have "agent_record t (int n) (ms_ts (L ! n)) (ms_value (L ! n)) a =
    (None, checkTerm t
      (if r_Holder (decoded (L ! n)) = c_Holder (ag_cfg a)
       then ownRecord t (int n) (r_Kind (decoded (L ! n))) (verdict ?ttl ?R n) ?v else ?v))"
    by (rule agent_record_applied [OF _ dec]) (use next_n app rn view in simp_all)
  ultimately show ?thesis by simp
qed

lemma reads_certain:
  assumes "world_ok W" "sent_ok W now S" "msgs_ok W now S L" "reads_log W L p a"
  shows "v_certain (ag_view a)"
  using assms(4) full_reader [OF msgs_log_ok(1) [OF assms(1-3)] world_okD(1) [OF assms(1)]]
  by (auto simp: reads_log_def)

lemma agent_inv_deadline: "agent_inv W S L p cur a \<Longrightarrow> agent_inv W S L p cur (tickDeadline t a)"
  by (erule agent_inv_frame) (simp_all add: tickDeadline_eq)

lemma tick_certain:
  assumes "v_certain (ag_view a)"
  shows "agent_tick t a = (None, tickDeadline t a) \<or>
    (\<exists>k. (k = Claim \<or> k = Renew) \<and> (k = Renew \<longrightarrow> ag_deadline a \<noteq> 0 \<or> t < 0) \<and> ag_inflight a = None \<and>
      (\<exists>r a'. send t k (tickDeadline t a) = (r, a') \<and> agent_tick t a = (Some r, a')))"
proof -
  have "tickSilence t (tickDeadline t a) = tickDeadline t a"
    using assms by (simp add: tickDeadline_eq)
  then show ?thesis
    by (auto simp: agent_tick_def tickDecide_def believing_iff tickDeadline_eq send_def Let_def)
qed

text \<open>Writing: the new record becomes the current one.\<close>

lemma agent_inv_send:
  assumes inv: "agent_inv W S L p cur a" and L: "msgs_ok W now S L" and none: "ag_inflight a = None"
    and k: "k = Claim \<or> k = Renew" and s: "send (wd_clock W p t) k a = (r, a')"
  shows "agent_inv W (S @ [\<lparr>sn_pid = p, sn_time = t, sn_rec = r\<rparr>]) L p (length S) a'"
proof -
  let ?S = "S @ [\<lparr>sn_pid = p, sn_time = t, sn_rec = r\<rparr>]"
  have a': "a' = a\<lparr>ag_inflight := Some \<lparr>if_kind = k, if_sentAt = wd_clock W p t, if_offset = -1\<rparr>,
      ag_lastSend := wd_clock W p t\<rparr>" and r: "r_Kind r = k" "k = Renew \<Longrightarrow> r_Epoch r = ag_epoch a"
    using s by (auto simp: send_def newRecord_def Let_def)
  have "released ?S h e \<Longrightarrow> released S h e" for h e
    using k r(1) by (auto simp: released_def)
  then have inv': "agent_inv W ?S L p cur a"
    by (intro agent_inv_sent [OF inv L])
  have "ms_sent (L ! m) < length S" if "m < length L" for m using msgs_okD(1) [OF L that] .
  then have sp: "spent L cur a e \<Longrightarrow> spent L (length S) a' e" for e
    by (fastforce simp: spent_def)
  have "flight_ok W ?S L p (length S) a'"
    using k r by (auto simp: flight_ok_def a')
  moreover have "reads_log W L p a'" using inv by (simp add: agent_inv_def reads_log_def a')
  moreover have "belief_inv W ?S L p (length S) a'"
    using inv' sp by (auto simp: agent_inv_def belief_inv_def backed_def a')
  ultimately show ?thesis by (simp add: agent_inv_def)
qed


subsection \<open>The system\<close>

definition sys_inv :: "world \<Rightarrow> system \<Rightarrow> bool" where
  "sys_inv W s \<longleftrightarrow>
     sent_ok W (sy_now s) (sy_sent s) \<and> msgs_ok W (sy_now s) (sy_sent s) (sy_log s) \<and>
     live_terms W (sy_now s) (sy_sent s) (sy_log s) \<and>
     (\<forall>p a. sy_agent s p = Some a \<longrightarrow> agent_inv W (sy_sent s) (sy_log s) p (sy_current s p) a) \<and>
     (\<forall>x \<in> set (sy_sent s). sy_agent s (sn_pid x) \<noteq> None)"

lemma sys_invD:
  assumes "sys_inv W s"
  shows "sent_ok W (sy_now s) (sy_sent s)" "msgs_ok W (sy_now s) (sy_sent s) (sy_log s)"
    "live_terms W (sy_now s) (sy_sent s) (sy_log s)"
    "sy_agent s p = Some a \<Longrightarrow> agent_inv W (sy_sent s) (sy_log s) p (sy_current s p) a"
    "x \<in> set (sy_sent s) \<Longrightarrow> sy_agent s (sn_pid x) \<noteq> None"
  using assms by (auto simp: sys_inv_def)

lemma fresh_agent:
  assumes "newAgent cfg 0 e now = Some a"
  shows "ag_cfg a = cfg" "ag_nextOffset a = 0" "0 < c_TTL cfg" "ag_view a = start_view (c_TTL cfg)"
    "ag_ownOutcomes a = Map.empty" "ag_inflight a = None" "ag_deadline a = 0" "ag_epoch a = -1"
  using assms
  by (auto simp: newAgent_def NewView_def NewViewFromStart_def start_view_def go_simps Let_def
      split: if_splits)

lemma sys_inv_init: "world_ok W \<Longrightarrow> sys_init s \<Longrightarrow> sys_inv W s"
  by (auto simp: sys_inv_def sys_init_def sent_ok_def msgs_ok_def live_terms_def grants_def i64_max_def)

text \<open>A step of one agent that writes nothing.\<close>

lemma sys_inv_set_agent:
  assumes "sys_inv W s" "agent_inv W (sy_sent s) (sy_log s) p (sy_current s p) a"
  shows "sys_inv W (set_agent s p a)"
  using assms by (auto simp: sys_inv_def set_agent_def)

text \<open>An agent that joins: nothing of its holder's is on the wire yet.\<close>

lemma sys_inv_join:
  assumes W: "world_ok W" and inv: "sys_inv W s" and new: "sy_agent s p = None"
    and a: "newAgent (wd_config W p) 0 e now = Some a"
  shows "sys_inv W (set_agent s p a)"
proof (rule sys_inv_set_agent [OF inv])
  note i = sys_invD [OF inv] and f = fresh_agent [OF a]
  have "\<not> released (sy_sent s) (c_Holder (wd_config W p)) ep" for ep
  proof
    assume "released (sy_sent s) (c_Holder (wd_config W p)) ep"
    then obtain x where x: "x \<in> set (sy_sent s)" "r_Holder (sn_rec x) = c_Holder (wd_config W p)"
      by (auto simp: released_def)
    with i(1) have "c_Holder (wd_config W (sn_pid x)) = c_Holder (wd_config W p)"
      by (auto simp: sent_ok_def made_by_def)
    then have "sn_pid x = p" using world_okD(11) [OF W] by blast
    with i(5) [OF x(1)] new show False by simp
  qed
  then show "agent_inv W (sy_sent s) (sy_log s) p (sy_current s p) a"
    using f world_okD(1,7) [OF W]
    by (simp add: agent_inv_def reads_log_def flight_ok_def belief_inv_def is_i64_def
        i64_min_def i64_max_def)
qed

text \<open>A new record on the wire.\<close>

lemma sent_ok_snoc:
  assumes "sent_ok W now S" "0 \<le> t" "t \<le> now" "made_by W p r"
  shows "sent_ok W now (S @ [\<lparr>sn_pid = p, sn_time = t, sn_rec = r\<rparr>])"
  using assms by (auto simp: sent_ok_def)

lemma msgs_ok_sent: "msgs_ok W now S L \<Longrightarrow> msgs_ok W now (S @ X) L"
  by (fastforce simp: msgs_ok_def nth_append)

lemma newRecord_made_by:
  assumes "world_ok W" "ag_cfg a = wd_config W p" "is_i64 e" "known_kind k"
  shows "made_by W p (newRecord a k e)"
  using assms(2-4) world_okD(7) [OF assms(1)]
  by (auto simp: made_by_def newRecord_def is_i64_def i64_min_def i64_max_def go_simps Let_def)

lemma sys_inv_wire:
  assumes W: "world_ok W" and inv: "sys_inv W s" and t: "0 \<le> t" "t \<le> sy_now s"
    and r: "made_by W p r" and p: "sy_agent s p \<noteq> None"
    and a: "agent_inv W (sy_sent s @ [\<lparr>sn_pid = p, sn_time = t, sn_rec = r\<rparr>]) (sy_log s) p cur a'"
  shows "sys_inv W ((set_agent s p a')
    \<lparr>sy_sent := sy_sent s @ [\<lparr>sn_pid = p, sn_time = t, sn_rec = r\<rparr>],
     sy_current := (sy_current s)(p := cur)\<rparr>)"
proof -
  note i = sys_invD [OF inv]
  have "agent_inv W (sy_sent s @ [\<lparr>sn_pid = p, sn_time = t, sn_rec = r\<rparr>]) (sy_log s) q
      (sy_current s q) b" if "q \<noteq> p" "sy_agent s q = Some b" for q b
  proof (rule agent_inv_sent [OF i(4) [OF that(2)] i(2)])
    fix e
    assume "released (sy_sent s @ [\<lparr>sn_pid = p, sn_time = t, sn_rec = r\<rparr>]) (c_Holder (wd_config W q)) e"
    then show "released (sy_sent s) (c_Holder (wd_config W q)) e"
      using r that world_okD(11) [OF W] by (auto simp: released_def made_by_def)
  qed
  then show ?thesis
    using a p i(5) sent_ok_snoc [OF i(1) t r] msgs_ok_sent [OF i(2)] live_terms_sent [OF i(2,3)]
    by (auto simp: sys_inv_def set_agent_def)
qed


lemma msgs_ok_land:
  assumes "world_ok W" "sent_ok W now S" "msgs_ok W now S L" "k < length S"
    and "EncodeValue (sn_rec (S ! k)) = Inr b" "now - wd_skew W \<le> ts" "ts \<le> now + wd_skew W" "0 \<le> ts"
    and "int (length L) \<le> i64_max"
  shows "msgs_ok W now S (L @ [\<lparr>ms_ts = ts, ms_value = b, ms_sent = k\<rparr>])"
proof -
  have "made_by W (sn_pid (S ! k)) (sn_rec (S ! k))" "sn_time (S ! k) \<le> now"
    using assms(2,4) by (auto simp: sent_ok_def)
  with made_by_decoded [OF assms(1) _ assms(5)] have
    "DecodeValue b = Inr (sn_rec (S ! k))" "sn_time (S ! k) - wd_skew W \<le> ts"
    using assms(6) by auto
  then show ?thesis
    using assms(3,4,7-9) by (auto simp: msgs_ok_def decoded_def)
qed

lemma sys_inv_pass:
  assumes "world_ok W" "sys_inv W s" "sy_now s \<le> now'"
  shows "sys_inv W (s\<lparr>sy_now := now'\<rparr>)"
proof -
  have "sent_ok W now' (sy_sent s)" "msgs_ok W now' (sy_sent s) (sy_log s)"
    using assms(2,3) by (fastforce simp: sys_inv_def sent_ok_def msgs_ok_def)+
  then show ?thesis
    using assms(2,3) live_terms_later by (auto simp: sys_inv_def)
qed

lemma sys_inv_produce:
  assumes W: "world_ok W" and inv: "sys_inv W s" and t: "0 \<le> t" "t \<le> sy_now s"
    and p: "sy_agent s p = Some a" and tick: "agent_tick (wd_clock W p t) a = (Some r, a')"
  shows "sys_inv W ((set_agent s p a')
    \<lparr>sy_sent := sy_sent s @ [\<lparr>sn_pid = p, sn_time = t, sn_rec = r\<rparr>],
     sy_current := (sy_current s)(p := length (sy_sent s))\<rparr>)"
proof -
  let ?a = "tickDeadline (wd_clock W p t) a"
  note i = sys_invD [OF inv]
  have c: "v_certain (ag_view a)"
    using reads_certain [OF W i(1,2)] i(4) [OF p] by (auto simp: agent_inv_def)
  obtain k where k: "k = Claim \<or> k = Renew" "ag_inflight a = None"
    "send (wd_clock W p t) k ?a = (r, a')"
    using tick_certain [OF c, of "wd_clock W p t"] tick by (auto split: prod.splits)
  have a: "agent_inv W (sy_sent s) (sy_log s) p (sy_current s p) ?a"
    using agent_inv_deadline [OF i(4) [OF p]] .
  have "ag_inflight ?a = None" using k(2) by (simp add: tickDeadline_eq)
  from agent_inv_send [OF a i(2) this k(1,3)] have
    new: "agent_inv W (sy_sent s @ [\<lparr>sn_pid = p, sn_time = t, sn_rec = r\<rparr>]) (sy_log s) p
      (length (sy_sent s)) a'" .
  have "r = newRecord ?a k (ag_epoch ?a)"
    using k(3) by (auto simp: send_def newRecord_def Let_def)
  moreover have "ag_cfg ?a = wd_config W p" "is_i64 (ag_epoch ?a)"
    using a by (auto simp: agent_inv_def reads_log_def belief_inv_def)
  ultimately have "made_by W p r" using newRecord_made_by [OF W] k(1) by auto
  from sys_inv_wire [OF W inv t this _ new] p show ?thesis by simp
qed

lemma sys_inv_give_up:
  assumes W: "world_ok W" and inv: "sys_inv W s" and t: "0 \<le> t" "t \<le> sy_now s"
    and p: "sy_agent s p = Some a" and tick: "agent_release (wd_clock W p t) a = (Some r, a')"
  shows "sys_inv W ((set_agent s p a')
    \<lparr>sy_sent := sy_sent s @ [\<lparr>sn_pid = p, sn_time = t, sn_rec = r\<rparr>]\<rparr>)"
proof -
  have i: "agent_inv W (sy_sent s) (sy_log s) p (sy_current s p) a" using sys_invD(4) [OF inv p] .
  have b: "believing a (wd_clock W p t)" and a': "a' = a\<lparr>ag_deadline := 0\<rparr>"
    and r: "r = newRecord a Release (ag_epoch a)"
    using tick by (auto simp: agent_release_def newRecord_def dropBelief_eq Let_def split: if_splits)
  have cfg: "ag_cfg a = wd_config W p" "is_i64 (ag_epoch a)"
    using i by (auto simp: agent_inv_def reads_log_def belief_inv_def)
  then have mb: "made_by W p r" using newRecord_made_by [OF W] r by auto
  have "ag_deadline a \<noteq> 0"
    using b world_okD(12) [OF W, of p t] by (auto simp: believing_iff)
  then have sp: "spent (sy_log s) (sy_current s p) a (ag_epoch a)"
    using i by (simp add: agent_inv_def belief_inv_def)
  let ?S = "sy_sent s @ [\<lparr>sn_pid = p, sn_time = t, sn_rec = r\<rparr>]"
  have rel: "released ?S (c_Holder (wd_config W p)) e \<Longrightarrow>
      released (sy_sent s) (c_Holder (wd_config W p)) e \<or> e = ag_epoch a" for e
    by (auto simp: released_def r newRecord_def Let_def)
  have "flight_ok W ?S (sy_log s) p (sy_current s p) a'" "reads_log W (sy_log s) p a'"
    using i by (auto simp: agent_inv_def flight_ok_def reads_log_def nth_append a')
  moreover have "belief_inv W ?S (sy_log s) p (sy_current s p) a'"
    using i rel sp by (auto simp: agent_inv_def belief_inv_def spent_def a')
  ultimately have "agent_inv W ?S (sy_log s) p (sy_current s p) a'" by (simp add: agent_inv_def)
  from sys_inv_wire [OF W inv t mb _ this] p show ?thesis
    by (simp add: set_agent_def)
qed

lemma sys_inv_land:
  assumes W: "world_ok W" and inv: "sys_inv W s" and k: "k < length (sy_sent s)"
    and b: "EncodeValue (sn_rec (sy_sent s ! k)) = Inr b"
    and ts: "sy_now s - wd_skew W \<le> ts" "ts \<le> sy_now s + wd_skew W" "0 \<le> ts"
    and l: "int (length (sy_log s)) \<le> i64_max"
  shows "sys_inv W (s\<lparr>sy_log := sy_log s @ [\<lparr>ms_ts = ts, ms_value = b, ms_sent = k\<rparr>]\<rparr>)"
proof -
  note i = sys_invD [OF inv]
  have m: "msgs_ok W (sy_now s) (sy_sent s) (sy_log s @ [\<lparr>ms_ts = ts, ms_value = b, ms_sent = k\<rparr>])"
    using msgs_ok_land [OF W i(1,2) k b ts l] .
  show ?thesis
    using i(1,5) m live_terms_land [OF W i(1) m i(3)] agent_inv_land [OF i(4)]
    by (simp add: sys_inv_def)
qed

lemma sys_inv_step:
  assumes W: "world_ok W" and inv: "sys_inv W s" and step: "sys_step W s s'"
  shows "sys_inv W s'"
proof -
  note i = sys_invD [OF inv] and set = sys_inv_set_agent [OF inv] and clock = world_okD(12) [OF W]
  from step show ?thesis
  proof cases
    case (pass now')
    with sys_inv_pass [OF W inv] show ?thesis by simp
  next
    case (join t p e a)
    with sys_inv_join [OF W inv join(4,5)] show ?thesis by simp
  next
    case (produce t p a r a')
    with sys_inv_produce [OF W inv produce(2-5)] show ?thesis by simp
  next
    case (idle t p a a')
    have "v_certain (ag_view a)"
      using reads_certain [OF W i(1,2)] i(4) [OF idle(4)] by (auto simp: agent_inv_def)
    then have "a' = tickDeadline (wd_clock W p t) a"
      using tick_certain [of a "wd_clock W p t"] idle(5) by (auto split: prod.splits)
    with idle(1) set [OF agent_inv_deadline [OF i(4) [OF idle(4)]]] show ?thesis by simp
  next
    case (give_up t p a r a')
    with sys_inv_give_up [OF W inv give_up(2-5)] show ?thesis by simp
  next
    case (land k b ts)
    with sys_inv_land [OF W inv land(2-7)] show ?thesis by simp
  next
    case (receive t p a n err a')
    then have "a' = snd (agent_record (wd_clock W p t) (int n) (ms_ts (sy_log s ! n))
        (ms_value (sy_log s ! n)) a)" by simp
    with receive(1) set [OF agent_inv_record [OF W i(1,2) i(4) [OF receive(4)] clock receive(5,6)]]
    show ?thesis by simp
  next
    case (ack t p a n)
    have "agent_inv W (sy_sent s) (sy_log s) p (sy_current s p) (acked (wd_clock W p t) (Some (int n)) a)"
      by (rule agent_inv_acked [OF W i(1,2) i(4) [OF ack(4)] clock]) (use ack in auto)
    with set ack(1) show ?thesis by simp
  next
    case (ack_failed t p a)
    have "agent_inv W (sy_sent s) (sy_log s) p (sy_current s p) (acked (wd_clock W p t) None a)"
      by (rule agent_inv_acked [OF W i(1,2) i(4) [OF ack_failed(4)] clock]) simp
    with set ack_failed(1) show ?thesis by simp
  next
    case (fetch t p a hw)
    have "agent_inv W (sy_sent s) (sy_log s) p (sy_current s p) (fetched (wd_clock W p t) hw a)"
      by (rule agent_inv_frame [OF i(4) [OF fetch(4)]]) simp_all
    with set fetch(1) show ?thesis by simp
  next
    case (fetch_failed p a)
    have "agent_inv W (sy_sent s) (sy_log s) p (sy_current s p) (fetchFailed a)"
      by (rule agent_inv_frame [OF i(4) [OF fetch_failed(2)]]) simp_all
    with set fetch_failed(1) show ?thesis by simp
  qed
qed

lemma reachable_inv: "reachable W s \<Longrightarrow> world_ok W \<Longrightarrow> sys_inv W s"
  by (induction rule: reachable.induct) (auto intro: sys_inv_init sys_inv_step)


subsection \<open>A belief is a live term of the log\<close>

text \<open>
  A deadline and an epoch that rest on an accepted record: the belief of an agent, or what a
  candidate published of it.
\<close>

definition grounded :: "world \<Rightarrow> system \<Rightarrow> pid \<Rightarrow> gtime \<Rightarrow> int \<Rightarrow> bool" where
  "grounded W s p d e \<longleftrightarrow>
     \<not> released (sy_sent s) (c_Holder (wd_config W p)) e \<and>
     (\<exists>m. grants W (sy_log s) m (c_Holder (wd_config W p)) e \<and>
        d = wd_clock W p (sent_at (sy_sent s) (sy_log s) m) + (wd_ttl W - c_Margin (wd_config W p)))"

lemma grounded_live:
  assumes W: "world_ok W" and inv: "sys_inv W s" and g: "grounded W s p d e"
    and d: "wd_clock W p (sy_now s) < d"
  shows "\<exists>x. abs_state (v_state (end_view W (sy_log s))) = Held (c_Holder (wd_config W p)) e x \<and>
    sy_now s + wd_skew W < x"
proof -
  let ?h = "c_Holder (wd_config W p)"
  note i = sys_invD [OF inv]
  obtain m where m: "grants W (sy_log s) m ?h e" "\<not> released (sy_sent s) ?h e"
    "d = wd_clock W p (sent_at (sy_sent s) (sy_log s) m) + (wd_ttl W - c_Margin (wd_config W p))"
    using g by (auto simp: grounded_def)
  let ?S = "sent_at (sy_sent s) (sy_log s) m"
  have n: "m < length (sy_log s)" using m(1) by (simp add: grants_def)
  then have S: "0 \<le> ?S" "?S \<le> sy_now s"
    using i(1) msgs_okD(1) [OF i(2) n] by (auto simp: sent_ok_def sent_at_def)
  have loc: "wd_clock W p (sy_now s) - wd_clock W p ?S < wd_ttl W - c_Margin (wd_config W p)"
    using d m(3) by simp
  then have "sy_now s - ?S \<le> wd_clock W p (sy_now s) - wd_clock W p ?S + wd_drift W"
    using world_okD(13) [OF W S, of p] world_okD(2,3) [OF W] world_okD(8) [OF W, of p] by simp
  then have "sy_now s + wd_skew W < ?S - wd_skew W + wd_ttl W"
    using loc world_okD(8) [OF W, of p] by simp
  then show ?thesis
    using live_termsD [OF i(3) m(1)] freed_released [OF i(2)] m(2) by (metis order_less_le_trans)
qed

lemma belief_grounded:
  assumes W: "world_ok W" and inv: "sys_inv W s" and p: "sy_agent s p = Some a"
    and d: "ag_deadline a \<noteq> 0"
  shows "grounded W s p (ag_deadline a) (ag_epoch a)"
  using sys_invD(4) [OF inv p] d by (simp add: agent_inv_def belief_inv_def backed_def grounded_def)

lemma belief_live:
  assumes W: "world_ok W" and r: "reachable W s" and p: "sy_agent s p = Some a"
    and b: "believing a (wd_clock W p (sy_now s))"
  shows "\<exists>x. abs_state (v_state (end_view W (sy_log s))) =
      Held (c_Holder (wd_config W p)) (ag_epoch a) x \<and> sy_now s + wd_skew W < x"
proof -
  have "ag_deadline a \<noteq> 0" "wd_clock W p (sy_now s) < ag_deadline a"
    using b world_okD(12) [OF W, of p "sy_now s"] by (auto simp: believing_iff)
  with grounded_live [OF W _ belief_grounded [OF W _ p]] reachable_inv [OF r W]
  show ?thesis by blast
qed

subsection \<open>Epochs in the log\<close>

lemma full_epoch_step:
  assumes "log_ok L" "0 < ttl" "n < length L"
  shows "v_state (full_at ttl L (Suc n)) = v_state (full_at ttl L n) \<or>
    st_Epoch (v_state (full_at ttl L (Suc n))) = int n \<and>
      st_Holder (v_state (full_at ttl L (Suc n))) = r_Holder (L ! n) \<or>
    st_Epoch (v_state (full_at ttl L (Suc n))) = st_Epoch (v_state (full_at ttl L n)) \<and>
      st_Holder (v_state (full_at ttl L (Suc n))) \<in> {st_Holder (v_state (full_at ttl L n)), []}"
proof -
  let ?v = "full_at ttl L n"
  have "full_at ttl L (Suc n) = snd (fold_rec (stamped ?v (L ! n)) (clamped ?v (L ! n)))"
    using Apply_Inr(7) [OF full_Apply [OF assms]] full_reader [OF assms(1,2), of n] assms(3)
    by (metis less_imp_le snd_conv)
  then show ?thesis
    using log_okD(1) [OF assms(1,3)]
    by (auto simp: fold_rec_def Let_def split: kind.splits)
qed

text \<open>The epoch of a held term is the offset of a record by its holder; epochs only grow.\<close>

lemma full_epoch:
  assumes "log_ok L" "0 < ttl" "n \<le> length L"
  shows "-1 \<le> st_Epoch (v_state (full_at ttl L n)) \<and> st_Epoch (v_state (full_at ttl L n)) < int n \<and>
    (st_Holder (v_state (full_at ttl L n)) \<noteq> [] \<longrightarrow>
      (\<exists>m < n. st_Epoch (v_state (full_at ttl L n)) = int m \<and>
         st_Holder (v_state (full_at ttl L n)) = r_Holder (L ! m)))"
  using assms(3)
proof (induction n)
  case 0
  then show ?case by (simp add: start_view_def)
next
  case (Suc n)
  with full_epoch_step [OF assms(1,2), of n] show ?case by (fastforce simp: less_Suc_eq)
qed

lemma full_epoch_mono:
  assumes "log_ok L" "0 < ttl" "n \<le> m" "m \<le> length L"
  shows "st_Epoch (v_state (full_at ttl L n)) \<le> st_Epoch (v_state (full_at ttl L m))"
  using assms(3,4)
proof (induction m rule: dec_induct)
  case (step m)
  with full_epoch_step [OF assms(1,2), of m] full_epoch [OF assms(1,2), of m] show ?case by auto
qed simp

lemma sys_step_log: "sys_step W s s' \<Longrightarrow> \<exists>M. sy_log s' = sy_log s @ M"
  by (induction rule: sys_step.induct) (auto simp: set_agent_def)

lemma sys_steps_log: "(sys_step W)\<^sup>*\<^sup>* s s' \<Longrightarrow> \<exists>M. sy_log s' = sy_log s @ M"
proof (induction rule: rtranclp_induct)
  case (step t u)
  with sys_step_log [OF step(2)] show ?case by (metis append.assoc)
qed simp

lemma reachable_steps: "(sys_step W)\<^sup>*\<^sup>* s s' \<Longrightarrow> reachable W s \<Longrightarrow> reachable W s'"
  by (induction rule: rtranclp_induct) (auto intro: reachable.step)

lemma end_view_prefix:
  "n \<le> length L \<Longrightarrow> full_at ttl (log_recs (L @ M)) n = full_at ttl (log_recs L) n"
proof (induction M rule: rev_induct)
  case (snoc m M)
  then show ?case
    by (simp add: log_recs_snoc full_at_append flip: append_assoc)
qed simp

text \<open>The epochs of two terms that were live at the end of the log, one after the other.\<close>

lemma live_epochs:
  assumes W: "world_ok W" and inv: "sys_inv W s'" and st: "(sys_step W)\<^sup>*\<^sup>* s s'"
    and p: "abs_state (v_state (end_view W (sy_log s))) = Held (c_Holder (wd_config W p)) d x"
    and q: "abs_state (v_state (end_view W (sy_log s'))) = Held (c_Holder (wd_config W q)) e y"
  shows "d \<le> e \<and> (d = e \<longrightarrow> p = q)"
proof -
  let ?L = "sy_log s" and ?L' = "sy_log s'" and ?ttl = "wd_ttl W"
  let ?v = "v_state (full_at ?ttl (log_recs ?L') (length ?L))"
    and ?v' = "v_state (full_at ?ttl (log_recs ?L') (length ?L'))"
  note i = sys_invD [OF inv]
  have ok: "log_ok (log_recs ?L')" "0 < ?ttl"
    using msgs_log_ok(1) [OF W i(1,2)] world_okD(1) [OF W] by auto
  obtain M where M: "?L' = ?L @ M" using sys_steps_log [OF st] by blast
  have e: "v_state (end_view W ?L) = ?v" "v_state (end_view W ?L') = ?v'"
    using end_view_prefix [of "length ?L" ?L ?ttl M] M by (simp_all add: end_view_def)
  have p: "st_Holder ?v = c_Holder (wd_config W p)" "st_Epoch ?v = d"
    and q: "st_Holder ?v' = c_Holder (wd_config W q)" "st_Epoch ?v' = e"
    using p q e by (auto simp: abs_state_Held)
  have "st_Epoch ?v \<le> st_Epoch ?v'" using full_epoch_mono [OF ok] M by simp
  moreover have "st_Holder ?v = st_Holder ?v'" if "st_Epoch ?v = st_Epoch ?v'"
    using full_epoch [OF ok, of "length ?L"] full_epoch [OF ok, of "length ?L'"] that p(1) q(1)
      world_okD(9) [OF W] M by auto
  ultimately show ?thesis using p q world_okD(11) [OF W] by auto
qed

end
