(* ===== verification/MutualExclusion.thy ===== *)
theory MutualExclusion
  imports Safety
begin

section \<open>The promise of the protocol\<close>

text \<open>
  The three statements a user of the lease relies on, over every reachable state of the system of
  theory \<open>Protocol\<close>, and a run in which one of infinitely many participants gets the lease.
\<close>

subsection \<open>A run\<close>

text \<open>
  Participant \<open>p\<close> is called \<open>a...a\<close>, with \<open>p + 1\<close> letters; clocks are perfect, brokers may be off by
  a second. At 100 s participant 0 claims, the claim lands at once, is read back and acknowledged.
\<close>

definition run_config :: "pid \<Rightarrow> config" where
  "run_config p =
     \<lparr>c_Brokers = [''b:9092''], c_Topic = ''t'', c_Partition = 0, c_CreateTopic = False,
      c_Holder = replicate (Suc p) (CHR ''a''), c_TTL = 10 * Second, c_Margin = 2 * Second,
      c_RenewEvery = 3 * Second, c_Auth = zero_auth, c_Logger = Some DefaultLogger,
      c_ClientOpts = []\<rparr>"

definition run_world :: world where
  "run_world = \<lparr>wd_config = run_config, wd_clock = (\<lambda>p t. max 0 t), wd_ttl = 10 * Second,
                wd_skew = Second, wd_drift = 0\<rparr>"

definition run_agent :: "pid \<Rightarrow> agent" where
  "run_agent p =
     \<lparr>ag_cfg = run_config p, ag_view = start_view (10 * Second), ag_nextOffset = 0,
      ag_highWater = 0, ag_ownOutcomes = Map.empty, ag_epoch = -1, ag_deadline = 0,
      ag_inflight = None, ag_lastSend = 0, ag_nextClaimAt = 0, ag_connected = True,
      ag_fetchedOnce = False, ag_caughtUpAt = 0, ag_lastRecordAt = 0, ag_lastRecordBroker = 0\<rparr>"

definition run_claim :: lrecord where
  "run_claim = \<lparr>r_Offset = 0, r_Timestamp = 0, r_Kind = Claim, r_Holder = ''a'', r_Epoch = 0,
                r_TTL = 10 * Second\<rparr>"

definition claimed_agent :: agent where
  "claimed_agent = (run_agent 0)\<lparr>ag_inflight :=
     Some \<lparr>if_kind = Claim, if_sentAt = 100 * Second, if_offset = -1\<rparr>, ag_lastSend := 100 * Second\<rparr>"

definition granted_view :: view where
  "granted_view = (start_view (10 * Second))
     \<lparr>v_state := \<lparr>st_Holder = ''a'', st_Epoch = 0, st_Expires = 110 * Second\<rparr>,
      v_clock := 100 * Second, v_lastOffset := 0, v_seen := True\<rparr>"

definition read_agent :: agent where
  "read_agent = claimed_agent\<lparr>ag_nextOffset := 1, ag_lastRecordAt := 100 * Second,
     ag_lastRecordBroker := 100 * Second, ag_view := granted_view, ag_ownOutcomes := [0 \<mapsto> Accepted]\<rparr>"

definition holding_agent :: agent where
  "holding_agent = read_agent\<lparr>ag_inflight := None, ag_ownOutcomes := Map.empty, ag_epoch := 0,
     ag_deadline := 108 * Second\<rparr>"

definition run_system :: "gtime \<Rightarrow> sent_record list \<Rightarrow> message list \<Rightarrow> (pid \<rightharpoonup> agent) \<Rightarrow> system" where
  "run_system now S L A =
     \<lparr>sy_now = now, sy_sent = S, sy_log = L, sy_agent = A, sy_current = (\<lambda>p. 0)\<rparr>"

abbreviation run_sent :: sent_record where
  "run_sent \<equiv> \<lparr>sn_pid = 0, sn_time = 100 * Second, sn_rec = run_claim\<rparr>"

abbreviation run_msg :: message where
  "run_msg \<equiv> \<lparr>ms_ts = 100 * Second, ms_value = value_of run_claim, ms_sent = 0\<rparr>"

definition two_agents :: "agent \<Rightarrow> pid \<rightharpoonup> agent" where
  "two_agents a = [0 \<mapsto> a, 1 \<mapsto> run_agent 1]"

lemma two_agents [simp]:
  "two_agents a 0 = Some a" "two_agents a (Suc 0) = Some (run_agent (Suc 0))"
  "(two_agents a)(0 \<mapsto> b) = two_agents b"
  by (auto simp: two_agents_def fun_eq_iff)

definition holding_system :: system where
  "holding_system = run_system (100 * Second) [run_sent] [run_msg] (two_agents holding_agent)"

lemma run_holder: "plain_key (replicate n (CHR ''a''))"
proof (induction n)
  case (Suc n)
  have "html_safe (byte (CHR ''a''))" by code_simp
  with Suc show ?case by (simp add: plain_key_def)
qed (simp add: plain_key_def)

lemma run_world_ok: "world_ok run_world"
proof -
  have "timing_ok (run_config p)" for p
    by (simp add: run_config_def timing_ok_def Second_def)
  then have "participant_ok run_world p" for p
    using plain_key_quote [OF run_holder, of "Suc p"]
    by (simp add: participant_ok_def run_world_def) (simp add: run_config_def Second_def)
  moreover have "clock_drift_ok run_world p" for p
    by (simp add: clock_drift_ok_def run_world_def)
  moreover have "p = q" if "c_Holder (run_config p) = c_Holder (run_config q)" for p q
    using arg_cong [OF that, of length] by (simp add: run_config_def)
  ultimately show ?thesis
    by (simp add: world_ok_def) (simp add: run_world_def Second_def Millisecond_def)
qed

lemma run_claim_wire: "EncodeValue run_claim = Inr (value_of run_claim)"
    "DecodeValue (value_of run_claim) = Inr run_claim"
proof -
  have "made_by run_world 0 run_claim"
    by (simp add: made_by_def run_claim_def run_world_def run_config_def is_i64_def i64_min_def
        i64_max_def)
  from made_by_wire [OF run_world_ok this]
  show "EncodeValue run_claim = Inr (value_of run_claim)"
    "DecodeValue (value_of run_claim) = Inr run_claim"
    using encode_value_of [of run_claim] decode_value_of [of run_claim] by simp_all
qed

lemma run_starts: "sys_init (run_system 0 [] [] Map.empty)"
  by (simp add: sys_init_def run_system_def)

lemma run_join: "newAgent (run_config p) 0 0 0 = Some (run_agent p)"
  by (simp add: newAgent_def NewView_def NewViewFromStart_def run_agent_def start_view_def
      run_config_def Second_def go_simps Let_def)

lemma run_tick:
  "agent_tick (100 * Second) (run_agent 0) = (Some run_claim, claimed_agent)"
  by (simp add: agent_tick_def tickDeadline_eq tickSilence_def tickDecide_def believing_iff send_def
      newRecord_def run_agent_def claimed_agent_def run_claim_def start_view_def HeldAt_iff
      run_config_def Second_def go_simps Let_def)

lemma run_read:
  "agent_record (100 * Second) 0 (100 * Second) (value_of run_claim) claimed_agent =
     (None, read_agent)"
proof -
  have app: "Apply (ag_view (seeRecord (100 * Second) 0 (100 * Second) claimed_agent))
      (run_claim\<lparr>r_Offset := 0, r_Timestamp := 100 * Second\<rparr>) = Inr (Accepted, granted_view)"
    by code_simp
  have "checkTerm (100 * Second) (ownRecord (100 * Second) 0 Claim Accepted
      ((seeRecord (100 * Second) 0 (100 * Second) claimed_agent)\<lparr>ag_view := granted_view\<rparr>)) = read_agent"
    by (simp add: read_agent_def claimed_agent_def run_agent_def seeRecord_def ownRecord_def
        checkTerm_def believing_iff Second_def Let_def)
  with agent_record_applied [OF _ run_claim_wire(2) app] show ?thesis
    by (simp add: claimed_agent_def run_agent_def run_claim_def run_config_def)
qed

lemma run_ack: "acked (100 * Second) (Some 0) read_agent = holding_agent"
  by (simp add: acked_def settle_def extendBelief_def i64_sub_def i64_wrap_def read_agent_def
      holding_agent_def claimed_agent_def run_agent_def run_config_def Second_def go_simps Let_def)

lemma run_reaches: "reachable run_world holding_system"
proof -
  note defs = run_system_def set_agent_def
  have w: "wd_clock run_world 0 (100 * Second) = 100 * Second" "wd_skew run_world = Second"
    by (simp_all add: run_world_def Second_def)
  let ?s0 = "run_system 0 [] [] [0 \<mapsto> run_agent 0]"
    and ?s1 = "run_system 0 [] [] (two_agents (run_agent 0))"
    and ?s1' = "run_system (100 * Second) [] [] (two_agents (run_agent 0))"
    and ?s2 = "run_system (100 * Second) [run_sent] [] (two_agents claimed_agent)"
    and ?s3 = "run_system (100 * Second) [run_sent] [run_msg] (two_agents claimed_agent)"
    and ?s4 = "run_system (100 * Second) [run_sent] [run_msg] (two_agents read_agent)"
  have "reachable run_world ?s0"
    using reachable.step [OF reachable.start [OF run_starts] sys_step.join, of 0 0 run_world 0 "run_agent 0"]
      run_join [of 0] by (simp add: defs run_world_def)
  moreover have "sys_step run_world ?s0 ?s1"
    using sys_step.join [of 0 ?s0 1 run_world 0 "run_agent 1"] run_join [of 1]
    by (simp add: defs run_world_def two_agents_def)
  moreover have "sys_step run_world ?s1 ?s1'"
    using sys_step.pass [of ?s1 "100 * Second"] by (simp add: defs Second_def)
  moreover have "sys_step run_world ?s1' ?s2"
    using sys_step.produce [of "100 * Second" ?s1' 0 "run_agent 0" run_world run_claim claimed_agent]
      run_tick w by (simp add: defs Second_def fun_upd_idem)
  moreover have "sys_step run_world ?s2 ?s3"
    using sys_step.land [of 0 ?s2 "value_of run_claim" run_world "100 * Second"] run_claim_wire w
    by (simp add: defs Second_def i64_max_def)
  moreover have "sys_step run_world ?s3 ?s4"
    using sys_step.receive [of "100 * Second" ?s3 0 claimed_agent 0 run_world None read_agent] run_read w
    by (simp add: defs Second_def claimed_agent_def run_agent_def)
  moreover have "sys_step run_world ?s4 holding_system"
    using sys_step.ack [of "100 * Second" ?s4 0 read_agent 0 run_world] run_ack w
    by (simp add: defs holding_system_def Second_def)
  ultimately show ?thesis by (meson reachable.step)
qed

lemma run_holds:
  "sy_agent holding_system 0 = Some holding_agent"
  "believing holding_agent (wd_clock run_world 0 (sy_now holding_system))"
  by (simp_all add: holding_system_def run_system_def run_world_def holding_agent_def believing_iff
      Second_def)


subsection \<open>Properties\<close>

text \<open>C5: a participant that believes, by its own clock, that it holds the lease does hold it: the
  reader of the whole log finds the lease held by that participant, under the epoch it believes
  in, for longer than the brokers' skew past the present. So no record a broker can append now
  finds the lease free, whatever the participant has read or missed since.\<close>
theorem believer_holds_live_term:
  assumes "world_ok W" "reachable W s" "sy_agent s p = Some a"
    and "believing a (wd_clock W p (sy_now s))"
  shows "\<exists>x. abs_state (v_state (full_at (wd_ttl W) (log_recs (sy_log s)) (length (sy_log s)))) =
      Held (c_Holder (wd_config W p)) (ag_epoch a) x \<and> sy_now s + wd_skew W < x"
  using belief_live [OF assms] by (simp add: end_view_def)

theorem believer_holds_live_term_witness:
  "\<exists>x. abs_state (v_state (full_at (wd_ttl run_world) (log_recs (sy_log holding_system))
      (length (sy_log holding_system)))) =
      Held (c_Holder (wd_config run_world 0)) (ag_epoch holding_agent) x \<and>
      sy_now holding_system + wd_skew run_world < x"
  by (rule believer_holds_live_term [OF run_world_ok run_reaches run_holds])

text \<open>C4: no two participants believe at the same instant that they hold the lease, whatever the
  order and delay of deliveries, acknowledgements and clock readings, when the margin covers twice
  the brokers' skew and the drift of a local clock over one TTL.\<close>
theorem no_two_believers:
  assumes "world_ok W" "reachable W s"
    and "sy_agent s p = Some a" "believing a (wd_clock W p (sy_now s))"
    and "sy_agent s q = Some b" "believing b (wd_clock W q (sy_now s))"
  shows "p = q"
proof -
  obtain x y where
    "abs_state (v_state (end_view W (sy_log s))) = Held (c_Holder (wd_config W p)) (ag_epoch a) x"
    "abs_state (v_state (end_view W (sy_log s))) = Held (c_Holder (wd_config W q)) (ag_epoch b) y"
    using belief_live [OF assms(1-4)] belief_live [OF assms(1,2,5,6)] by blast
  then show ?thesis using world_okD(11) [OF assms(1)] by simp
qed

theorem no_two_believers_witness:
  "believing holding_agent (wd_clock run_world 0 (sy_now holding_system)) \<and>
   sy_agent holding_system 1 = Some (run_agent 1) \<and>
   \<not> believing (run_agent 1) (wd_clock run_world 1 (sy_now holding_system))"
proof -
  have "sy_agent holding_system 1 = Some (run_agent 1)"
    by (simp add: holding_system_def run_system_def)
  with no_two_believers [OF run_world_ok run_reaches run_holds this] run_holds show ?thesis by auto
qed

text \<open>Epochs are fencing tokens: who believes later has an epoch at least as high, and only the
  same participant can have the same one.\<close>
lemma epochs_fence:
  assumes "world_ok W" "reachable W s" "(sys_step W)\<^sup>*\<^sup>* s s'"
    and "sy_agent s p = Some a" "believing a (wd_clock W p (sy_now s))"
    and "sy_agent s' q = Some b" "believing b (wd_clock W q (sy_now s'))"
  shows "ag_epoch a \<le> ag_epoch b \<and> (ag_epoch a = ag_epoch b \<longrightarrow> p = q)"
proof -
  have r: "reachable W s'" using reachable_steps [OF assms(3,2)] .
  obtain x y where
    "abs_state (v_state (end_view W (sy_log s))) = Held (c_Holder (wd_config W p)) (ag_epoch a) x"
    "abs_state (v_state (end_view W (sy_log s'))) = Held (c_Holder (wd_config W q)) (ag_epoch b) y"
    using belief_live [OF assms(1,2,4,5)] belief_live [OF assms(1) r assms(6,7)] by blast
  with live_epochs [OF assms(1) reachable_inv [OF r assms(1)] assms(3)] show ?thesis by blast
qed

theorem epochs_fence_witness:
  "ag_epoch holding_agent \<le> ag_epoch holding_agent"
  using epochs_fence [OF run_world_ok run_reaches rtranclp.rtrancl_refl run_holds run_holds] by blast

end
