(* ===== verification/Fleet.thy ===== *)
theory Fleet
  imports CandidateRules MutualExclusion
begin

section \<open>Candidates around one partition\<close>

text \<open>
  Theory \<open>Protocol\<close> puts agents around a log; here whole candidates of lease/candidate.go share the
  partition, each in its own Run: what they share is the partition's messages, what each has is the
  agent, the published status and the place in Run it has reached. A step is what one goroutine
  does between two points at which others can look: the bootstrap, a poll with the consumption of
  its fetches, one produce result, the tick with the produce call, the stop. Between the steps of
  one turn of the loop others act, time passes and \<open>Status\<close> is read. The theory defines the system;
  theory \<open>FleetRefinement\<close> simulates its steps in the protocol (\<open>fleet_step_simulated\<close>), theory
  \<open>FleetSafety\<close> shows that a turn of the loop as the code writes it (\<open>loop_turn\<close>) is a sequence of its
  steps, and what follows for what Status reports.
\<close>

subsection \<open>The system\<close>

text \<open>Where a process is in Run: before the bootstrap, at the poll, after it, in the stop, done.\<close>

datatype process =
    NotStarted candidate
  | Polling kfk_run
  | Draining kfk_run
  | Stopping kfk_run
  | Exited kfk_run

fun candidate_of :: "process \<Rightarrow> candidate" where
  "candidate_of (NotStarted c) = c"
| "candidate_of (Polling r) = rn_c r"
| "candidate_of (Draining r) = rn_c r"
| "candidate_of (Stopping r) = rn_c r"
| "candidate_of (Exited r) = rn_c r"

fun agent_of :: "process \<Rightarrow> agent option" where
  "agent_of (NotStarted c) = None"
| "agent_of (Polling r) = Some (rn_a r)"
| "agent_of (Draining r) = Some (rn_a r)"
| "agent_of (Stopping r) = Some (rn_a r)"
| "agent_of (Exited r) = Some (rn_a r)"

fun with_candidate :: "candidate \<Rightarrow> process \<Rightarrow> process" where
  "with_candidate c (NotStarted _) = NotStarted c"
| "with_candidate c (Polling r) = Polling (r\<lparr>rn_c := c\<rparr>)"
| "with_candidate c (Draining r) = Draining (r\<lparr>rn_c := c\<rparr>)"
| "with_candidate c (Stopping r) = Stopping (r\<lparr>rn_c := c\<rparr>)"
| "with_candidate c (Exited r) = Exited (r\<lparr>rn_c := c\<rparr>)"

text \<open>A message handed to the Kafka client: by whom, and the instant of the clock reading it is
  based on.\<close>

record posted =
  po_pid :: pid
  po_time :: gtime
  po_msg :: kafka_message

record fleet =
  fl_now :: gtime
  fl_posted :: "posted list"
  fl_log :: "message list"
  fl_proc :: "pid \<Rightarrow> process"
  fl_current :: "pid \<Rightarrow> nat"

definition at_start :: "world \<Rightarrow> pid \<Rightarrow> process \<Rightarrow> bool" where
  "at_start W p pr \<longleftrightarrow>
     (\<exists>host rand cfg c. NewCandidate host rand cfg = Inr c \<and> cd_cfg c = wd_config W p \<and>
        pr = NotStarted c)"

definition fleet_init :: "world \<Rightarrow> fleet \<Rightarrow> bool" where
  "fleet_init W f \<longleftrightarrow>
     0 \<le> fl_now f \<and> fl_posted f = [] \<and> fl_log f = [] \<and> (\<forall>p. at_start W p (fl_proc f p)) \<and>
     (\<forall>p. c_Topic (wd_config W p) = c_Topic (wd_config W 0) \<and>
          c_Partition (wd_config W p) = c_Partition (wd_config W 0))"

definition set_proc :: "fleet \<Rightarrow> pid \<Rightarrow> process \<Rightarrow> fleet" where
  "set_proc f p pr = f\<lparr>fl_proc := (fl_proc f)(p := pr)\<rparr>"

definition post :: "pid \<Rightarrow> gtime \<Rightarrow> kafka_message option \<Rightarrow> fleet \<Rightarrow> fleet" where
  "post p t out f =
     (case out of None \<Rightarrow> f
      | Some m \<Rightarrow> f\<lparr>fl_posted := fl_posted f @ [\<lparr>po_pid = p, po_time = t, po_msg = m\<rparr>]\<rparr>)"

subsection \<open>What the client may deliver\<close>

text \<open>The records of the followed partition in a fetch, in the order \<open>consume\<close> takes them.\<close>

definition followed :: "config \<Rightarrow> partition_fetch \<Rightarrow> bool" where
  "followed cfg fp \<longleftrightarrow> fp_Err fp = None \<and> fp_Topic fp = c_Topic cfg \<and> fp_Partition fp = c_Partition cfg"

definition own_records :: "config \<Rightarrow> partition_fetch list \<Rightarrow> kafka_record list" where
  "own_records cfg fps = concat (map fp_Records (filter (followed cfg) fps))"

text \<open>
  They are the partition's messages, without holes from the offset the reader expects on; a message
  may come twice. (The partition keeps its whole history.)
\<close>

definition is_message :: "message list \<Rightarrow> kafka_record \<Rightarrow> bool" where
  "is_message L kr \<longleftrightarrow>
     0 \<le> kr_Offset kr \<and> nat (kr_Offset kr) < length L \<and>
     kr_Timestamp kr = ms_ts (L ! nat (kr_Offset kr)) \<and> kr_Value kr = ms_value (L ! nat (kr_Offset kr))"

fun delivered :: "message list \<Rightarrow> int \<Rightarrow> kafka_record list \<Rightarrow> bool" where
  "delivered L next [] = True"
| "delivered L next (kr # krs) \<longleftrightarrow>
     is_message L kr \<and> kr_Offset kr \<le> next \<and> delivered L (max next (kr_Offset kr + 1)) krs"

text \<open>A produce result is an error, or the offset at which the participant's last record landed.\<close>

definition answered :: "message list \<Rightarrow> nat \<Rightarrow> produce_result \<Rightarrow> bool" where
  "answered L cur res \<longleftrightarrow>
     pr_err res \<or>
     (0 \<le> pr_offset res \<and> nat (pr_offset res) < length L \<and> ms_sent (L ! nat (pr_offset res)) = cur)"

subsection \<open>Steps\<close>

inductive fleet_step :: "world \<Rightarrow> fleet \<Rightarrow> fleet \<Rightarrow> bool" for W :: world where
  pass: "fl_now f \<le> now' \<Longrightarrow> fleet_step W f (f\<lparr>fl_now := now'\<rparr>)"
| land:
    "k < length (fl_posted f) \<Longrightarrow> fl_now f - wd_skew W \<le> ts \<Longrightarrow> ts \<le> fl_now f + wd_skew W \<Longrightarrow>
     0 \<le> ts \<Longrightarrow> int (length (fl_log f)) \<le> i64_max \<Longrightarrow>
     fleet_step W f (f\<lparr>fl_log := fl_log f @
       [\<lparr>ms_ts = ts, ms_value = km_Value (po_msg (fl_posted f ! k)), ms_sent = k\<rparr>]\<rparr>)"
| start:
    "fl_proc f p = NotStarted c \<Longrightarrow> 0 \<le> t \<Longrightarrow> t \<le> fl_now f \<Longrightarrow> lo_Offset begin_off = 0 \<Longrightarrow>
     bootstrap c (Inr (begin_off, end_off)) (wd_clock W p t) = Inr r \<Longrightarrow>
     fleet_step W f (set_proc f p (Polling r))"
| poll:
    "fl_proc f p = Polling r \<Longrightarrow> 0 \<le> t \<Longrightarrow> t \<le> fl_now f \<Longrightarrow> \<not> fs_closed fs \<Longrightarrow>
     delivered (fl_log f) (ag_nextOffset (rn_a r)) (own_records (cd_cfg (rn_c r)) (fs_partitions fs)) \<Longrightarrow>
     consume (wd_clock W p t) fs r = (err, r') \<Longrightarrow>
     fleet_step W f (set_proc f p (if err = None then Draining r' else Stopping r'))"
| closed: "fl_proc f p = Polling r \<Longrightarrow> fleet_step W f (set_proc f p (Stopping r))"
| result:
    "fl_proc f p = Draining r \<Longrightarrow> 0 \<le> t \<Longrightarrow> t \<le> fl_now f \<Longrightarrow>
     answered (fl_log f) (fl_current f p) res \<Longrightarrow>
     fleet_step W f (set_proc f p (Draining (r\<lparr>rn_a := drain [(wd_clock W p t, res)] (rn_a r)\<rparr>)))"
| tick:
    "fl_proc f p = Draining r \<Longrightarrow> 0 \<le> t \<Longrightarrow> t \<le> fl_now f \<Longrightarrow>
     tick_produce (wd_clock W p t) r = (out, r') \<Longrightarrow>
     fleet_step W f (post p t out ((set_proc f p (Polling r'))
       \<lparr>fl_current := (fl_current f)(p := if out = None then fl_current f p else length (fl_posted f))\<rparr>))"
| ctx_done: "fl_proc f p = Draining r \<Longrightarrow> fleet_step W f (set_proc f p (Stopping r))"
| crash: "fl_proc f p = Draining r \<Longrightarrow> fleet_step W f (set_proc f p (Exited r))"
| stop:
    "fl_proc f p = Stopping r \<Longrightarrow> 0 \<le> t \<Longrightarrow> t \<le> fl_now f \<Longrightarrow>
     shutdown (wd_clock W p t) r = (out, r') \<Longrightarrow>
     fleet_step W f (post p t out (set_proc f p (Exited r')))"
| signal:
    "take_changed (candidate_of (fl_proc f p)) = Some c \<Longrightarrow>
     fleet_step W f (set_proc f p (with_candidate c (fl_proc f p)))"

inductive fleet_reachable :: "world \<Rightarrow> fleet \<Rightarrow> bool" for W :: world where
  start: "fleet_init W f \<Longrightarrow> fleet_reachable W f"
| step: "fleet_reachable W f \<Longrightarrow> fleet_step W f f' \<Longrightarrow> fleet_reachable W f'"

text \<open>The system of agents in it.\<close>

definition message_record :: "kafka_message \<Rightarrow> lrecord" where
  "message_record m = decoded \<lparr>ms_ts = 0, ms_value = km_Value m, ms_sent = 0\<rparr>"

definition as_sent :: "posted \<Rightarrow> sent_record" where
  "as_sent w = \<lparr>sn_pid = po_pid w, sn_time = po_time w, sn_rec = message_record (po_msg w)\<rparr>"

definition agents_of :: "fleet \<Rightarrow> system" where
  "agents_of f =
     \<lparr>sy_now = fl_now f, sy_sent = map as_sent (fl_posted f), sy_log = fl_log f,
      sy_agent = (\<lambda>p. agent_of (fl_proc f p)), sy_current = fl_current f\<rparr>"

end
