(* ===== verification/FleetRefinement.thy ===== *)
theory FleetRefinement
  imports Fleet
begin

section \<open>Candidates follow the protocol\<close>

text \<open>
  Each step of the system of candidates is a sequence of steps of the system of agents inside it
  (\<open>agents_of\<close>): a poll is a failed or successful fetch and the reading of records, a result an
  acknowledgement, a tick a produced record or none. So every state the candidates reach holds a
  state the protocol reaches, and what a candidate publishes rests on an accepted record of its own.
\<close>

subsection \<open>One agent's moves\<close>

lemma set_agent_simps [simp]:
  "set_agent (set_agent s p a) p b = set_agent s p b" "sy_agent (set_agent s p a) p = Some a"
  "sy_now (set_agent s p a) = sy_now s" "sy_log (set_agent s p a) = sy_log s"
  "sy_sent (set_agent s p a) = sy_sent s" "sy_current (set_agent s p a) = sy_current s"
  by (simp_all add: set_agent_def)

lemma set_agent_same: "sy_agent s p = Some a \<Longrightarrow> set_agent s p a = s"
  by (simp add: set_agent_def fun_upd_idem)

lemma moves_errors: "(sys_step W)\<^sup>*\<^sup>* (set_agent s p a) (set_agent s p (fold note_error es a))"
proof (induction es arbitrary: a)
  case (Cons e es)
  have "(sys_step W)\<^sup>*\<^sup>* (set_agent s p a) (set_agent s p (note_error e a))"
    using sys_step.fetch_failed [of "set_agent s p a" p a W]
    by (cases e) (auto simp: note_error_def)
  also have "(sys_step W)\<^sup>*\<^sup>* \<dots> (set_agent s p (fold note_error es (note_error e a)))"
    by (rule Cons.IH)
  finally show ?case by simp
qed simp

lemma note_errors_next [simp]: "ag_nextOffset (fold note_error es a) = ag_nextOffset a"
  by (induction es arbitrary: a) (auto simp: note_error_def split: fetch_error.splits)

lemma agent_record_next:
  "off \<le> ag_nextOffset a \<Longrightarrow>
     ag_nextOffset (snd (agent_record now off ts val a)) = max (ag_nextOffset a) (off + 1)"
  by (auto simp: agent_record_def Let_def split: sum.splits prod.splits)

lemma moves_record:
  assumes "0 \<le> t" "t \<le> sy_now s" "is_message (sy_log s) kr" "kr_Offset kr \<le> ag_nextOffset a"
  shows "sys_step W (set_agent s p a) (set_agent s p
    (snd (agent_record (wd_clock W p t) (kr_Offset kr) (kr_Timestamp kr) (kr_Value kr) a)))"
proof -
  let ?s = "set_agent s p a" and ?n = "nat (kr_Offset kr)"
  obtain e a' where r: "agent_record (wd_clock W p t) (kr_Offset kr) (kr_Timestamp kr) (kr_Value kr) a = (e, a')"
    by (metis surj_pair)
  have "sys_step W ?s (set_agent ?s p a')"
    by (rule sys_step.receive [of t _ _ a ?n]) (use assms r in \<open>auto simp: is_message_def\<close>)
  with r show ?thesis by simp
qed

lemma moves_records:
  assumes "0 \<le> t" "t \<le> sy_now s"
    and "err = None \<Longrightarrow> delivered (sy_log s) (ag_nextOffset a) (krs @ rest)"
    and "consume_records (wd_clock W p t) krs (err, a) = (err', a')"
  shows "(sys_step W)\<^sup>*\<^sup>* (set_agent s p a) (set_agent s p a') \<and>
    (err' = None \<longrightarrow> delivered (sy_log s) (ag_nextOffset a') rest)"
  using assms(3,4)
proof (induction krs arbitrary: err a)
  case (Cons kr krs)
  show ?case
  proof (cases "err = None \<and> kr_TimestampType kr = 1")
    case False
    then have "consume_records (wd_clock W p t) krs (e, a) = (e, a)" if "e \<noteq> None" for e
      using that by (cases krs) auto
    with False Cons.prems show ?thesis by (auto split: if_splits)
  next
    case True
    then have m: "is_message (sy_log s) kr" "kr_Offset kr \<le> ag_nextOffset a"
      "delivered (sy_log s) (max (ag_nextOffset a) (kr_Offset kr + 1)) (krs @ rest)"
      using Cons.prems(1) by simp_all
    obtain e b where r: "agent_record (wd_clock W p t) (kr_Offset kr) (kr_Timestamp kr) (kr_Value kr) a = (e, b)"
      by (metis surj_pair)
    have "sys_step W (set_agent s p a) (set_agent s p b)"
      using moves_record [OF assms(1,2) m(1,2), of W p] r by simp
    moreover have "ag_nextOffset b = max (ag_nextOffset a) (kr_Offset kr + 1)"
      using agent_record_next [OF m(2), of "wd_clock W p t" "kr_Timestamp kr" "kr_Value kr"] r by simp
    then have "(sys_step W)\<^sup>*\<^sup>* (set_agent s p b) (set_agent s p a') \<and>
        (err' = None \<longrightarrow> delivered (sy_log s) (ag_nextOffset a') rest)"
      using Cons.IH [of "map_option ViewFailed e" b] m(3) Cons.prems(2) True r by simp
    ultimately show ?thesis by (meson converse_rtranclp_into_rtranclp)
  qed
qed simp

lemma moves_fetched:
  assumes "0 \<le> t" "t \<le> sy_now s"
  shows "sys_step W (set_agent s p a) (set_agent s p (fetched (wd_clock W p t) hw a))"
  using sys_step.fetch [of t "set_agent s p a" p a W hw] assms by simp

lemma moves_partitions:
  assumes "0 \<le> t" "t \<le> sy_now s"
    and "err = None \<Longrightarrow> delivered (sy_log s) (ag_nextOffset a) (own_records cfg fps)"
    and "fold (consume_partition cfg (wd_clock W p t)) fps (err, a) = (err', a')"
  shows "(sys_step W)\<^sup>*\<^sup>* (set_agent s p a) (set_agent s p a')"
  using assms(3,4)
proof (induction fps arbitrary: err a)
  case (Cons fp fps)
  show ?case
  proof (cases "followed cfg fp")
    case False
    then have "consume_partition cfg (wd_clock W p t) fp (err, a) = (err, a)"
      "own_records cfg (fp # fps) = own_records cfg fps"
      by (auto simp: consume_partition_def own_records_def followed_def)
    with Cons.prems show ?thesis by (intro Cons.IH [of err a]) simp_all
  next
    case True
    obtain e b where r: "consume_records (wd_clock W p t) (fp_Records fp)
        (err, fetched (wd_clock W p t) (fp_HighWatermark fp) a) = (e, b)" by (metis surj_pair)
    then have "consume_partition cfg (wd_clock W p t) fp (err, a) = (e, b)"
      using True by (simp add: consume_partition_def followed_def)
    moreover have
      "(sys_step W)\<^sup>*\<^sup>* (set_agent s p (fetched (wd_clock W p t) (fp_HighWatermark fp) a)) (set_agent s p b) \<and>
        (e = None \<longrightarrow> delivered (sy_log s) (ag_nextOffset b) (own_records cfg fps))"
      using moves_records [OF assms(1,2) _ r, of "own_records cfg fps"] Cons.prems(1) True
      by (simp add: own_records_def)
    ultimately show ?thesis
      using moves_fetched [OF assms(1,2), of W p a "fp_HighWatermark fp"] Cons.IH [of e b] Cons.prems(2)
      by (auto intro: converse_rtranclp_into_rtranclp rtranclp_trans)
  qed
qed simp

lemma moves_consume:
  assumes "0 \<le> t" "t \<le> sy_now s"
    and "delivered (sy_log s) (ag_nextOffset (rn_a r)) (own_records (cd_cfg (rn_c r)) (fs_partitions fs))"
    and "consume (wd_clock W p t) fs r = (err, r')"
  shows "(sys_step W)\<^sup>*\<^sup>* (set_agent s p (rn_a r)) (set_agent s p (rn_a r'))"
proof -
  let ?a = "fold note_error (fs_errors fs) (rn_a r)"
  have "ag_nextOffset ?a = ag_nextOffset (rn_a r)" by simp
  moreover obtain e b where f:
    "fold (consume_partition (cd_cfg (rn_c r)) (wd_clock W p t)) (fs_partitions fs) (None, ?a) = (e, b)"
    by (metis surj_pair)
  ultimately have "(sys_step W)\<^sup>*\<^sup>* (set_agent s p ?a) (set_agent s p b)"
    using moves_partitions [OF assms(1,2) _ f] assms(3) by simp
  moreover have "rn_a r' = b"
    using assms(4) f by (auto simp: consume_def publish_def Let_def split: if_splits)
  ultimately show ?thesis using moves_errors [of W s p "rn_a r" "fs_errors fs"] by simp
qed

lemma moves_result:
  assumes "0 \<le> t" "t \<le> sy_now s" "answered (sy_log s) (sy_current s p) res"
  shows "sys_step W (set_agent s p a) (set_agent s p (drain [(wd_clock W p t, res)] a))"
proof (cases "pr_err res")
  case True
  then show ?thesis using sys_step.ack_failed [of t "set_agent s p a" p a W] assms by simp
next
  case False
  then show ?thesis
    using sys_step.ack [of t "set_agent s p a" p a "nat (pr_offset res)" W] assms
    by (simp add: answered_def)
qed

subsection \<open>The invariant of the candidates\<close>

text \<open>
  What was posted encodes a record, each participant runs with its own configuration, and the
  deadline and epoch it published rest on an accepted record of its own.
\<close>

definition posted_ok :: "posted \<Rightarrow> bool" where
  "posted_ok w \<longleftrightarrow> EncodeValue (message_record (po_msg w)) = Inr (km_Value (po_msg w))"

definition cand_ok :: "world \<Rightarrow> system \<Rightarrow> pid \<Rightarrow> candidate \<Rightarrow> bool" where
  "cand_ok W s p c \<longleftrightarrow>
     cd_cfg c = wd_config W p \<and> published c \<and>
     (cd_deadline c \<noteq> 0 \<longrightarrow> grounded W s p (cd_deadline c) (cd_epoch c))"

definition fleet_inv :: "world \<Rightarrow> fleet \<Rightarrow> bool" where
  "fleet_inv W f \<longleftrightarrow>
     sys_inv W (agents_of f) \<and> (\<forall>w \<in> set (fl_posted f). posted_ok w) \<and>
     (\<forall>p. cand_ok W (agents_of f) p (candidate_of (fl_proc f p)))"

lemma agents_of_set_proc [simp]:
  "agent_of pr = Some a \<Longrightarrow> agents_of (set_proc f p pr) = set_agent (agents_of f) p a"
  by (auto simp: agents_of_def set_proc_def set_agent_def fun_eq_iff)

lemma agent_of_with_candidate [simp]: "agent_of (with_candidate c pr) = agent_of pr"
  by (cases pr) auto

lemma agents_of_phase: "agent_of pr = agent_of (fl_proc f p) \<Longrightarrow> agents_of (set_proc f p pr) = agents_of f"
  by (auto simp: agents_of_def set_proc_def fun_eq_iff)

lemma agents_of_fields [simp]:
  "sy_now (agents_of f) = fl_now f" "sy_log (agents_of f) = fl_log f"
  "sy_agent (agents_of f) p = agent_of (fl_proc f p)" "sy_current (agents_of f) = fl_current f"
  "sy_sent (agents_of f) = map as_sent (fl_posted f)"
  by (simp_all add: agents_of_def)

lemma message_record_eq:
  "DecodeValue (km_Value m) = Inr d \<Longrightarrow> message_record m = d"
  by (simp add: message_record_def decoded_def)

text \<open>A record of a participant becomes a message that says the same.\<close>

lemma produced_message:
  assumes "world_ok W" "made_by W p r"
  obtains m where "produce cfg r = Some m" "EncodeValue r = Inr (km_Value m)" "message_record m = r"
proof -
  obtain b where b: "EncodeValue r = Inr b" "DecodeValue b = Inr r"
    using codec.encode_decode [of r] made_by_wire [OF assms] by auto
  show thesis
    by (rule that [of "\<lparr>km_Topic = c_Topic cfg, km_Partition = c_Partition cfg, km_Key = recordKey,
        km_Value = b\<rparr>"]) (use b in \<open>simp_all add: produce_def kafkaRecord_def message_record_eq\<close>)
qed

lemma sent_made_by: "sys_inv W s \<Longrightarrow> x \<in> set (sy_sent s) \<Longrightarrow> made_by W (sn_pid x) (sn_rec x)"
  by (auto simp: sys_inv_def sent_ok_def)

subsection \<open>Every step is a sequence of steps of the agents\<close>

lemma fleet_tick_simulated:
  assumes W: "world_ok W" and inv: "sys_inv W (agents_of f)" and p: "fl_proc f p = Draining r"
    and t: "0 \<le> t" "t \<le> fl_now f" and k: "tick_produce (wd_clock W p t) r = (out, r')"
  defines "f' \<equiv> post p t out ((set_proc f p (Polling r'))
    \<lparr>fl_current := (fl_current f)(p := if out = None then fl_current f p else length (fl_posted f))\<rparr>)"
  shows "sys_step W (agents_of f) (agents_of f') \<and>
    (out \<noteq> None \<longrightarrow> (\<exists>x. fl_posted f' = fl_posted f @ [x] \<and> posted_ok x \<and> po_pid x = p))"
proof -
  obtain rec a where tk: "agent_tick (wd_clock W p t) (rn_a r) = (rec, a)" by (metis surj_pair)
  then have r': "rn_a r' = a" and out: "out = (case rec of None \<Rightarrow> None | Some m \<Rightarrow> produce (cd_cfg (rn_c r)) m)"
    using k by (auto simp: tick_produce_def publish_def)
  have ag: "sy_agent (agents_of f) p = Some (rn_a r)" using p by simp
  show ?thesis
  proof (cases rec)
    case None
    with out r' have "agents_of f' = set_agent (agents_of f) p a"
      by (simp add: f'_def post_def agents_of_def set_proc_def set_agent_def fun_eq_iff)
    with sys_step.idle [OF _ _ ag, of t W a] tk None out t show ?thesis by simp
  next
    case (Some rec')
    let ?s' = "(set_agent (agents_of f) p a)
      \<lparr>sy_sent := sy_sent (agents_of f) @ [\<lparr>sn_pid = p, sn_time = t, sn_rec = rec'\<rparr>],
       sy_current := (sy_current (agents_of f))(p := length (sy_sent (agents_of f)))\<rparr>"
    have st: "sys_step W (agents_of f) ?s'"
      using sys_step.produce [OF _ _ ag, of t W rec' a] tk Some t by simp
    then have "sys_inv W ?s'" using sys_inv_step [OF W inv] by blast
    then have "made_by W p rec'" using sent_made_by by fastforce
    then obtain m where m: "produce (cd_cfg (rn_c r)) rec' = Some m"
      "EncodeValue rec' = Inr (km_Value m)" "message_record m = rec'"
      using produced_message [OF W] by metis
    have "agents_of f' = ?s'"
      using m out Some r'
      by (simp add: f'_def post_def agents_of_def set_proc_def set_agent_def as_sent_def fun_eq_iff)
    with st m out Some show ?thesis by (simp add: f'_def post_def set_proc_def posted_ok_def)
  qed
qed

lemma fleet_stop_simulated:
  assumes W: "world_ok W" and inv: "sys_inv W (agents_of f)" and p: "fl_proc f p = Stopping r"
    and t: "0 \<le> t" "t \<le> fl_now f" and k: "shutdown (wd_clock W p t) r = (out, r')"
  defines "f' \<equiv> post p t out (set_proc f p (Exited r'))"
  shows "(sys_step W)\<^sup>*\<^sup>* (agents_of f) (agents_of f') \<and>
    (out \<noteq> None \<longrightarrow> (\<exists>x. fl_posted f' = fl_posted f @ [x] \<and> posted_ok x \<and> po_pid x = p))"
proof -
  obtain rec a where rl: "agent_release (wd_clock W p t) (rn_a r) = (rec, a)" by (metis surj_pair)
  then have r': "rn_a r' = a" and out: "out = (case rec of None \<Rightarrow> None | Some m \<Rightarrow> produce (cd_cfg (rn_c r)) m)"
    using k by (auto simp: shutdown_def publish_def Let_def split: option.splits)
  have ag: "sy_agent (agents_of f) p = Some (rn_a r)" using p by simp
  show ?thesis
  proof (cases rec)
    case None
    with rl have "a = rn_a r" by (auto simp: agent_release_def Let_def split: if_splits)
    with None out r' set_agent_same [OF ag] show ?thesis by (simp add: f'_def post_def)
  next
    case (Some rec')
    let ?s' = "(set_agent (agents_of f) p a)
      \<lparr>sy_sent := sy_sent (agents_of f) @ [\<lparr>sn_pid = p, sn_time = t, sn_rec = rec'\<rparr>]\<rparr>"
    have st: "sys_step W (agents_of f) ?s'"
      using sys_step.give_up [OF _ _ ag, of t W rec' a] rl Some t by simp
    then have "sys_inv W ?s'" using sys_inv_step [OF W inv] by blast
    then have "made_by W p rec'" using sent_made_by by fastforce
    then obtain m where m: "produce (cd_cfg (rn_c r)) rec' = Some m"
      "EncodeValue rec' = Inr (km_Value m)" "message_record m = rec'"
      using produced_message [OF W] by metis
    have "agents_of f' = ?s'"
      using m out Some r'
      by (simp add: f'_def post_def agents_of_def set_proc_def set_agent_def as_sent_def fun_eq_iff)
    with st m out Some show ?thesis by (auto simp: f'_def post_def set_proc_def posted_ok_def)
  qed
qed

lemma fleet_step_simulated:
  assumes W: "world_ok W" and inv: "fleet_inv W f" and st: "fleet_step W f f'"
  shows "(sys_step W)\<^sup>*\<^sup>* (agents_of f) (agents_of f')"
proof -
  have s: "sys_inv W (agents_of f)" using inv by (simp add: fleet_inv_def)
  from st show ?thesis
  proof cases
    case (pass now')
    have "agents_of f' = (agents_of f)\<lparr>sy_now := now'\<rparr>" using pass(1) by (simp add: agents_of_def)
    with sys_step.pass [of "agents_of f" now'] pass(2) show ?thesis by auto
  next
    case (land k ts)
    let ?w = "fl_posted f ! k"
    have "posted_ok ?w" using inv land(2) by (simp add: fleet_inv_def)
    then have "EncodeValue (sn_rec (sy_sent (agents_of f) ! k)) = Inr (km_Value (po_msg ?w))"
      using land(2) by (simp add: posted_ok_def as_sent_def)
    from sys_step.land [OF _ this, of W ts] land(2-6) have
      "sys_step W (agents_of f) ((agents_of f)\<lparr>sy_log := sy_log (agents_of f) @
        [\<lparr>ms_ts = ts, ms_value = km_Value (po_msg ?w), ms_sent = k\<rparr>]\<rparr>)" by simp
    moreover have "(agents_of f)\<lparr>sy_log := sy_log (agents_of f) @
        [\<lparr>ms_ts = ts, ms_value = km_Value (po_msg ?w), ms_sent = k\<rparr>]\<rparr> = agents_of f'"
      using land(1) by (simp add: agents_of_def)
    ultimately show ?thesis by auto
  next
    case (start p c t b e r)
    then have "newAgent (wd_config W p) 0 (lo_Offset e) (wd_clock W p t) = Some (rn_a r)"
      using inv by (auto simp: bootstrap_def publish_def fleet_inv_def cand_ok_def split: option.splits dest: spec [of _ p])
    with sys_step.join [of t "agents_of f" p W "lo_Offset e" "rn_a r"] start show ?thesis by auto
  next
    case (poll p r t fs err r')
    have "(sys_step W)\<^sup>*\<^sup>* (set_agent (agents_of f) p (rn_a r)) (set_agent (agents_of f) p (rn_a r'))"
      using moves_consume [OF _ _ _ poll(7), of "agents_of f"] poll by simp
    with poll(1,2) set_agent_same [of "agents_of f" p "rn_a r"] show ?thesis by simp
  next
    case (result p r t res)
    with moves_result [of t "agents_of f" p res W "rn_a r"] set_agent_same [of "agents_of f" p "rn_a r"]
    show ?thesis by auto
  next
    case (tick p r t out r')
    with fleet_tick_simulated [OF W s tick(2-5)] show ?thesis by auto
  next
    case (stop p r t out r')
    with fleet_stop_simulated [OF W s stop(2-5)] show ?thesis by auto
  next
    case (signal p c)
    then show ?thesis using agents_of_phase by simp
  qed (simp_all add: set_agent_same)
qed

subsection \<open>The invariant is kept\<close>

lemma grounded_cong:
  "sy_sent s' = sy_sent s \<Longrightarrow> sy_log s' = sy_log s \<Longrightarrow> grounded W s' p d e = grounded W s p d e"
  by (simp add: grounded_def)

lemma grounded_land:
  assumes "grounded W s p d e" "sy_sent s' = sy_sent s" "sy_log s' = sy_log s @ [x]"
  shows "grounded W s' p d e"
proof -
  have "sent_at S (L @ [x]) m = sent_at S L m" if "grants W L m h e" for S L m h
    using that by (simp add: sent_at_def grants_def nth_append)
  with assms grants_later show ?thesis unfolding grounded_def by metis
qed

lemma grounded_send:
  assumes W: "world_ok W" and inv: "sys_inv W s" and g: "grounded W s q d e"
    and x: "made_by W (sn_pid x) (sn_rec x)" "q \<noteq> sn_pid x"
    and s': "sy_sent s' = sy_sent s @ [x]" "sy_log s' = sy_log s"
  shows "grounded W s' q d e"
proof -
  have "c_Holder (wd_config W q) \<noteq> r_Holder (sn_rec x)"
    using x world_okD(11) [OF W] by (auto simp: made_by_def)
  then have "released (sy_sent s @ [x]) (c_Holder (wd_config W q)) e =
      released (sy_sent s) (c_Holder (wd_config W q)) e" by (auto simp: released_def)
  moreover have "sent_at (sy_sent s @ [x]) (sy_log s) m = sent_at (sy_sent s) (sy_log s) m"
    if "grants W (sy_log s) m h e" for m h e
    using that sent_at_append [OF sys_invD(2) [OF inv]] by (simp add: grants_def)
  ultimately show ?thesis using g by (fastforce simp: grounded_def s')
qed

text \<open>What is published of a believing agent rests on its record.\<close>

lemma cand_ok_setStatus:
  assumes "world_ok W" "sys_inv W s" "sy_agent s p = Some a" "cd_cfg c = wd_config W p"
  shows "cand_ok W s p (setStatus (agent_status now a) c)"
  using assms(4) belief_grounded [OF assms(1-3)]
  by (auto simp: cand_ok_def published_def agent_status_eq)

lemma cand_ok_cong:
  "cand_ok W s p c \<Longrightarrow> sy_sent s' = sy_sent s \<Longrightarrow> sy_log s' = sy_log s \<Longrightarrow> cand_ok W s' p c"
  using grounded_cong [of s' s W p] by (simp add: cand_ok_def)

text \<open>A step that posts and lands nothing, and one that posts.\<close>

lemma fleet_inv_proc:
  assumes "fleet_inv W f" "sys_inv W (agents_of (set_proc f p pr))"
    and "cand_ok W (agents_of (set_proc f p pr)) p (candidate_of pr)"
  shows "fleet_inv W (set_proc f p pr)"
  using assms cand_ok_cong [of W "agents_of f"]
  by (auto simp: fleet_inv_def set_proc_def agents_of_def)

lemma fleet_inv_post:
  assumes W: "world_ok W" and inv: "fleet_inv W f" and inv': "sys_inv W (agents_of f')"
    and f': "fl_log f' = fl_log f" "fl_proc f' = (fl_proc f)(p := pr)"
    and w: "fl_posted f' = fl_posted f \<or>
      (\<exists>x. fl_posted f' = fl_posted f @ [x] \<and> posted_ok x \<and> po_pid x = p)"
    and c: "cand_ok W (agents_of f') p (candidate_of pr)"
  shows "fleet_inv W f'"
proof -
  have "cand_ok W (agents_of f') q (candidate_of (fl_proc f q))" if "q \<noteq> p" for q
  proof -
    have q: "cand_ok W (agents_of f) q (candidate_of (fl_proc f q))"
      using inv by (simp add: fleet_inv_def)
    from w show ?thesis
    proof (elim disjE exE conjE)
      fix x assume x: "fl_posted f' = fl_posted f @ [x]" "po_pid x = p"
      then have "made_by W (sn_pid (as_sent x)) (sn_rec (as_sent x))"
        using sent_made_by [OF inv', of "as_sent x"] by simp
      then have "grounded W (agents_of f) q d e \<Longrightarrow> grounded W (agents_of f') q d e" for d e
        using grounded_send [OF W, of "agents_of f" q d e "as_sent x" "agents_of f'"] inv f' x that
        by (simp add: fleet_inv_def as_sent_def)
      with q show ?thesis by (auto simp: cand_ok_def)
    qed (use q f' in \<open>auto intro: cand_ok_cong\<close>)
  qed
  with assms show ?thesis by (auto simp: fleet_inv_def)
qed

end
