(* ===== verification/Scaler.thy ===== *)
theory Scaler
  imports CandidateRules
begin

section \<open>The external scaler (scaler/server.go)\<close>

text \<open>
  The KEDA external scaler over a status source. A call reads the source's status at its own
  instant, which comes in as the status read. \<open>StreamIsActive\<close> is a loop over what wakes it: the
  context, a change signal, the ticker; each wake-up comes with the holding it then reads and with
  whether the send succeeds. The generated messages are records, a nil pointer is \<open>None\<close>.
\<close>

subsection \<open>Messages (internal/externalscaler)\<close>

record scaled_object_ref =
  so_Name :: string
  so_Namespace :: string
  so_ScalerMetadata :: "string \<rightharpoonup> string"

definition GetName :: "scaled_object_ref option \<Rightarrow> string" where
  "GetName x = (case x of None \<Rightarrow> [] | Some r \<Rightarrow> so_Name r)"

definition GetNamespace :: "scaled_object_ref option \<Rightarrow> string" where
  "GetNamespace x = (case x of None \<Rightarrow> [] | Some r \<Rightarrow> so_Namespace r)"

definition GetScalerMetadata :: "scaled_object_ref option \<Rightarrow> (string \<rightharpoonup> string)" where
  "GetScalerMetadata x = (case x of None \<Rightarrow> Map.empty | Some r \<Rightarrow> so_ScalerMetadata r)"

record get_metrics_request =
  gm_ScaledObjectRef :: "scaled_object_ref option"
  gm_MetricName :: string

definition GetScaledObjectRef :: "get_metrics_request option \<Rightarrow> scaled_object_ref option" where
  "GetScaledObjectRef x = (case x of None \<Rightarrow> None | Some r \<Rightarrow> gm_ScaledObjectRef r)"

record metric_spec =
  mp_MetricName :: string
  mp_TargetSize :: int

record metric_value =
  mv_MetricName :: string
  mv_MetricValue :: int

subsection \<open>The server\<close>

definition MetricName :: string where
  "MetricName = ''kfklease-holder''"

record server =
  sv_topic :: string
  sv_heartbeat :: duration

text \<open>\<open>New\<close>; \<open>None\<close> is its panic.\<close>

definition New :: "string \<Rightarrow> duration \<Rightarrow> server option" where
  "New topic heartbeat =
     (if heartbeat \<le> 0 then None else Some \<lparr>sv_topic = topic, sv_heartbeat = heartbeat\<rparr>)"

datatype scaler_error = MissingRef | WrongTopic string string

definition check :: "server \<Rightarrow> scaled_object_ref option \<Rightarrow> scaler_error option" where
  "check s ref =
     (if ref = None then Some MissingRef
      else case GetScalerMetadata ref ''topic'' of
             Some want \<Rightarrow>
               if sv_topic s \<noteq> [] \<and> want \<noteq> sv_topic s then Some (WrongTopic (sv_topic s) want)
               else None
           | None \<Rightarrow> None)"

definition holding :: "status \<Rightarrow> bool" where
  "holding st = s_Holding st"

definition metric :: "status \<Rightarrow> int" where
  "metric st = (if holding st then 1 else 0)"

definition IsActive :: "server \<Rightarrow> scaled_object_ref option \<Rightarrow> status \<Rightarrow> scaler_error + bool" where
  "IsActive s ref st = (case check s ref of Some e \<Rightarrow> Inl e | None \<Rightarrow> Inr (holding st))"

definition GetMetricSpec ::
  "server \<Rightarrow> scaled_object_ref option \<Rightarrow> scaler_error + metric_spec list" where
  "GetMetricSpec s ref =
     (case check s ref of
        Some e \<Rightarrow> Inl e
      | None \<Rightarrow> Inr [\<lparr>mp_MetricName = MetricName, mp_TargetSize = 1\<rparr>])"

definition GetMetrics ::
  "server \<Rightarrow> get_metrics_request option \<Rightarrow> status \<Rightarrow> scaler_error + metric_value list" where
  "GetMetrics s req st =
     (case check s (GetScaledObjectRef req) of
        Some e \<Rightarrow> Inl e
      | None \<Rightarrow> Inr [\<lparr>mv_MetricName = MetricName, mv_MetricValue = metric st\<rparr>])"

subsection \<open>StreamIsActive\<close>

datatype wake = CtxDone | SignalReceived | TickerFired

datatype stream_end = StreamRefused scaler_error | StreamClosed | SendFailed

text \<open>The values sent and, if the stream ended, how; \<open>prev\<close> is what was sent last.\<close>

fun stream_loop :: "bool \<Rightarrow> (wake \<times> bool \<times> bool) list \<Rightarrow> bool list \<times> stream_end option" where
  "stream_loop prev [] = ([], None)"
| "stream_loop prev ((w, cur, sent) # ws) =
     (case w of
        CtxDone \<Rightarrow> ([], Some StreamClosed)
      | SignalReceived \<Rightarrow>
          if cur = prev then stream_loop prev ws
          else if \<not> sent then ([], Some SendFailed)
          else let (vs, e) = stream_loop cur ws in (cur # vs, e)
      | TickerFired \<Rightarrow>
          if \<not> sent then ([], Some SendFailed)
          else let (vs, e) = stream_loop cur ws in (cur # vs, e))"

definition StreamIsActive ::
  "server \<Rightarrow> scaled_object_ref option \<Rightarrow> bool \<Rightarrow> bool \<Rightarrow> (wake \<times> bool \<times> bool) list \<Rightarrow>
     bool list \<times> stream_end option" where
  "StreamIsActive s ref first sent ws =
     (case check s ref of
        Some e \<Rightarrow> ([], Some (StreamRefused e))
      | None \<Rightarrow>
          if \<not> sent then ([], Some SendFailed)
          else let (vs, e) = stream_loop first ws in (first # vs, e))"

subsection \<open>Properties\<close>

lemma stream_loop_last:
  "snd (stream_loop prev ws) = None \<Longrightarrow>
     last (prev # fst (stream_loop prev ws)) = last (prev # map (\<lambda>w. fst (snd w)) ws)"
proof (induction prev ws rule: stream_loop.induct)
  case (2 prev w cur sent ws)
  then show ?case
    by (cases w) (auto simp: case_prod_unfold Let_def split: if_splits)
qed simp

text \<open>C33: as long as an accepted stream is open, the last value it pushed is the holding it read at its
  last wake-up (or at the start): each wake-up leaves KEDA with the current value.\<close>
theorem stream_pushes_current:
  assumes "StreamIsActive s ref first sent ws = (vs, None)"
  shows "vs \<noteq> [] \<and> hd vs = first \<and> last vs = last (first # map (\<lambda>w. fst (snd w)) ws)"
proof -
  have "vs = first # fst (stream_loop first ws)" "snd (stream_loop first ws) = None"
    using assms by (auto simp: StreamIsActive_def case_prod_unfold Let_def
        split: option.splits if_splits)
  with stream_loop_last [of first ws] show ?thesis by simp
qed

definition sample_ref :: scaled_object_ref where
  "sample_ref = \<lparr>so_Name = ''w'', so_Namespace = ''n'', so_ScalerMetadata = [''topic'' \<mapsto> ''t'']\<rparr>"

definition sample_server :: server where
  "sample_server = \<lparr>sv_topic = ''t'', sv_heartbeat = Second\<rparr>"

theorem stream_pushes_current_witness:
  "\<exists>vs. StreamIsActive sample_server (Some sample_ref) False True
     [(SignalReceived, True, True), (SignalReceived, True, False), (TickerFired, True, True)] = (vs, None) \<and>
     last vs = True"
proof -
  let ?ws = "[(SignalReceived, True, True), (SignalReceived, True, False), (TickerFired, True, True)]"
  have s: "StreamIsActive sample_server (Some sample_ref) False True ?ws = ([False, True, True], None)"
    by code_simp
  from stream_pushes_current [OF s] s show ?thesis by simp
qed

text \<open>C22: KEDA sees the metric 1, and an active scaler, exactly while the participant believes that it
  holds the lease, however old the published status is; a request for another topic, or without a
  reference, gets an error and never a metric, on every call. The topic of a request is the entry
  "topic" of its reference's metadata; without one, or on a server without a topic, any goes.\<close>
theorem metric_is_belief:
  assumes "0 \<le> t" "t \<le> now" "New topic heartbeat = Some s"
  shows "(GetScaledObjectRef req = None \<longrightarrow>
       GetMetrics s req (Status now (rn_c (publish t r))) = Inl MissingRef \<and>
       IsActive s None (Status now (rn_c (publish t r))) = Inl MissingRef \<and>
       GetMetricSpec s None = Inl MissingRef \<and>
       StreamIsActive s None first sent ws = ([], Some (StreamRefused MissingRef))) \<and>
    (\<forall>so. GetScaledObjectRef req = Some so \<longrightarrow>
       (\<forall>want. so_ScalerMetadata so ''topic'' = Some want \<and> want \<noteq> topic \<and> topic \<noteq> [] \<longrightarrow>
          GetMetrics s req (Status now (rn_c (publish t r))) = Inl (WrongTopic topic want) \<and>
          IsActive s (Some so) (Status now (rn_c (publish t r))) = Inl (WrongTopic topic want) \<and>
          GetMetricSpec s (Some so) = Inl (WrongTopic topic want) \<and>
          StreamIsActive s (Some so) first sent ws = ([], Some (StreamRefused (WrongTopic topic want)))) \<and>
       (so_ScalerMetadata so ''topic'' \<in> {None, Some topic} \<or> topic = [] \<longrightarrow>
          GetMetrics s req (Status now (rn_c (publish t r))) =
            Inr [\<lparr>mv_MetricName = MetricName,
                  mv_MetricValue = (if believing (rn_a r) now then 1 else 0)\<rparr>] \<and>
          IsActive s (Some so) (Status now (rn_c (publish t r))) = Inr (believing (rn_a r) now) \<and>
          GetMetricSpec s (Some so) = Inr [\<lparr>mp_MetricName = MetricName, mp_TargetSize = 1\<rparr>]))"
proof -
  have s: "sv_topic s = topic" using assms(3) by (auto simp: New_def split: if_splits)
  have h: "holding (Status now (rn_c (publish t r))) = believing (rn_a r) now"
    using assms(1,2)
    by (simp add: holding_def publish_def agent_status_eq Status_def agent_simps go_simps)
  have none: "check s None = Some MissingRef" by (simp add: check_def)
  have wrong: "check s (Some so) = Some (WrongTopic topic want)"
    if "so_ScalerMetadata so ''topic'' = Some want \<and> want \<noteq> topic \<and> topic \<noteq> []" for so want
    using that s by (simp add: check_def GetScalerMetadata_def)
  have ok: "check s (Some so) = None"
    if "so_ScalerMetadata so ''topic'' \<in> {None, Some topic} \<or> topic = []" for so
    using that s by (auto simp: check_def GetScalerMetadata_def split: option.splits)
  note calls = GetMetrics_def IsActive_def GetMetricSpec_def StreamIsActive_def metric_def
  show ?thesis
    by (intro conjI allI impI; (elim conjE)?; simp add: calls none h wrong ok)
qed

theorem metric_is_belief_witness:
  "New ''t'' Second = Some sample_server \<and>
   GetMetrics sample_server (Some \<lparr>gm_ScaledObjectRef = Some sample_ref, gm_MetricName = []\<rparr>)
     (Status (103 * Second) (rn_c (publish (100 * Second) sample_run))) =
     Inr [\<lparr>mv_MetricName = MetricName, mv_MetricValue = 0\<rparr>] \<and>
   IsActive sample_server (Some (sample_ref\<lparr>so_ScalerMetadata := [''topic'' \<mapsto> ''u'']\<rparr>))
     (Status (103 * Second) (rn_c (publish (100 * Second) sample_run))) = Inl (WrongTopic ''t'' ''u'')"
proof -
  let ?r = "Some \<lparr>gm_ScaledObjectRef = Some sample_ref, gm_MetricName = []\<rparr>"
    and ?q = "Some \<lparr>gm_ScaledObjectRef = Some (sample_ref\<lparr>so_ScalerMetadata := [''topic'' \<mapsto> ''u'']\<rparr>),
                    gm_MetricName = []\<rparr>"
  have s: "New ''t'' Second = Some sample_server" by (simp add: New_def sample_server_def Second_def)
  have t: "0 \<le> 100 * Second" "100 * Second \<le> 103 * Second" by (simp_all add: Second_def)
  have "\<not> believing (rn_a sample_run) (103 * Second)" by code_simp
  then show ?thesis
    using metric_is_belief [OF t s, of ?r sample_run] metric_is_belief [OF t s, of ?q sample_run] s
    by (simp add: GetScaledObjectRef_def sample_ref_def)
qed

end
