(* ===== verification/FleetSafety.thy ===== *)
theory FleetSafety
  imports FleetRefinement Scaler
begin

section \<open>At most one cluster runs the workload\<close>

text \<open>
  What the program is for: of all candidates around one partition at most one reports at any
  instant that it holds the lease, so at most one scaler tells its cluster to run the workload. It
  follows from the protocol through the simulation of theory \<open>FleetRefinement\<close>, for what \<open>Status\<close>
  reports at any instant, between the steps of a turn and on a stalled loop included.
\<close>

subsection \<open>Every step keeps the invariant\<close>

lemma sys_moves_inv: "(sys_step W)\<^sup>*\<^sup>* s s' \<Longrightarrow> world_ok W \<Longrightarrow> sys_inv W s \<Longrightarrow> sys_inv W s'"
  by (induction rule: rtranclp_induct) (auto intro: sys_inv_step)

lemma NewCandidate_fields:
  "NewCandidate host rand cfg = Inr c \<Longrightarrow> cd_deadline c = 0 \<and> published c"
  by (auto simp: NewCandidate_def published_def zero_status_def go_simps split: sum.splits)

lemma fleet_inv_init: "world_ok W \<Longrightarrow> fleet_init W f \<Longrightarrow> fleet_inv W f"
proof -
  assume W: "world_ok W" and i: "fleet_init W f"
  have pr: "agent_of (fl_proc f p) = None \<and> cand_ok W s p (candidate_of (fl_proc f p))" for p s
  proof -
    obtain host rand cfg c where "NewCandidate host rand cfg = Inr c" "cd_cfg c = wd_config W p"
      "fl_proc f p = NotStarted c" using i unfolding fleet_init_def at_start_def by metis
    with NewCandidate_fields show ?thesis by (simp add: cand_ok_def)
  qed
  have "sys_init (agents_of f)"
    using i pr by (auto simp: sys_init_def fleet_init_def fun_eq_iff)
  with sys_inv_init [OF W] i pr show "fleet_inv W f" by (simp add: fleet_inv_def fleet_init_def)
qed

text \<open>The three places that publish, by what they leave of the run.\<close>

lemma consume_effect:
  "consume now fs r = (err, r') \<Longrightarrow>
     \<exists>a. r' = (if err = None then publish now (r\<lparr>rn_a := a\<rparr>) else r\<lparr>rn_a := a\<rparr>)"
  by (auto simp: consume_def case_prod_unfold Let_def)

lemma tick_produce_effect: "tick_produce now r = (out, r') \<Longrightarrow> \<exists>a. r' = publish now (r\<lparr>rn_a := a\<rparr>)"
  by (auto simp: tick_produce_def case_prod_unfold Let_def)

lemma shutdown_effect: "shutdown now r = (out, r') \<Longrightarrow> \<exists>a. r' = publish now (r\<lparr>rn_a := a\<rparr>)"
  by (auto simp: shutdown_def case_prod_unfold Let_def split: option.splits)

lemma bootstrap_effect:
  "bootstrap c b now = Inr r \<Longrightarrow> \<exists>a. r = publish now \<lparr>rn_c = c, rn_a = a\<rparr>"
  by (auto simp: bootstrap_def split: sum.splits prod.splits option.splits)

lemma cand_ok_publish:
  assumes "world_ok W" "sys_inv W s" "r' = publish now r" "sy_agent s p = Some (rn_a r')"
    and "cd_cfg (rn_c r) = wd_config W p"
  shows "cand_ok W s p (rn_c r')"
  using cand_ok_setStatus [OF assms(1,2), of p "rn_a r" "rn_c r" now] assms(3-5)
  by (simp add: publish_def)

lemma post_fields [simp]:
  "fl_proc (post p t out f) = fl_proc f" "fl_log (post p t out f) = fl_log f"
  "fl_posted (post p t None f) = fl_posted f"
  by (simp_all add: post_def split: option.splits)

lemma set_proc_fields [simp]:
  "fl_proc (set_proc f p pr) = (fl_proc f)(p := pr)" "fl_log (set_proc f p pr) = fl_log f"
  "fl_posted (set_proc f p pr) = fl_posted f" "fl_now (set_proc f p pr) = fl_now f"
  by (simp_all add: set_proc_def)

lemma fleet_inv_step:
  assumes W: "world_ok W" and inv: "fleet_inv W f" and st: "fleet_step W f f'"
  shows "fleet_inv W f'"
proof -
  have s: "sys_inv W (agents_of f)" using inv by (simp add: fleet_inv_def)
  have s': "sys_inv W (agents_of f')"
    using sys_moves_inv [OF fleet_step_simulated [OF W inv st] W s] .
  have c: "cand_ok W (agents_of f) p (candidate_of (fl_proc f p))" for p
    using inv by (simp add: fleet_inv_def)
  have phase: "cand_ok W (agents_of (set_proc f p pr)) p x" if "cand_ok W (agents_of f) p x" for p pr x
    using cand_ok_cong [OF that] by (simp add: set_proc_def)
  have agent: "cand_ok W (set_agent (agents_of f) p a) p x" if "cand_ok W (agents_of f) p x" for p a x
    using cand_ok_cong [OF that] by simp
  from st show ?thesis
  proof cases
    case (pass now')
    with s' inv cand_ok_cong [of W "agents_of f"] show ?thesis by (simp add: fleet_inv_def)
  next
    case (land k ts)
    then have "cand_ok W (agents_of f') p (candidate_of (fl_proc f p))" for p
      using c [of p] grounded_land [of W "agents_of f" p _ _ "agents_of f'"] by (simp add: cand_ok_def)
    with land(1) s' inv show ?thesis by (simp add: fleet_inv_def)
  next
    case (start p cd t b e r)
    obtain a where r: "r = publish (wd_clock W p t) \<lparr>rn_c = cd, rn_a = a\<rparr>"
      using bootstrap_effect start(6) by blast
    have "cand_ok W (agents_of f') p (rn_c r)"
      using cand_ok_publish [OF W s' r, of p] start(1,2) c [of p] by (simp add: cand_ok_def)
    with fleet_inv_proc [OF inv, of p "Polling r"] start(1) s' show ?thesis by simp
  next
    case (poll p r t fs err r')
    obtain a where r': "r' = (if err = None then publish (wd_clock W p t) (r\<lparr>rn_a := a\<rparr>) else r\<lparr>rn_a := a\<rparr>)"
      using consume_effect [OF poll(7)] by blast
    have "cand_ok W (agents_of f') p (rn_c r')"
    proof (cases "err = None")
      case True
      then have "r' = publish (wd_clock W p t) (r\<lparr>rn_a := a\<rparr>)" using r' by simp
      from cand_ok_publish [OF W s' this, of p] poll(1,2) c [of p] True
      show ?thesis by (simp add: cand_ok_def)
    next
      case False
      with r' poll(1,2) agent [of p "rn_c r"] c [of p] show ?thesis by simp
    qed
    with fleet_inv_proc [OF inv, of p] poll(1) s' show ?thesis by (simp split: if_splits)
  next
    case (result p r t res)
    with fleet_inv_proc [OF inv, of p] s' agent [of p "rn_c r"] c [of p] show ?thesis by simp
  next
    case (tick p r t out r')
    obtain a where r': "r' = publish (wd_clock W p t) (r\<lparr>rn_a := a\<rparr>)"
      using tick_produce_effect tick(5) by blast
    have "cand_ok W (agents_of f') p (rn_c r')"
      using cand_ok_publish [OF W s' r', of p] tick(1,2) c [of p] by (simp add: cand_ok_def)
    then show ?thesis
      using fleet_inv_post [OF W inv s', of p "Polling r'"] tick(1) fleet_tick_simulated [OF W s tick(2-5)]
      by (cases out) auto
  next
    case (stop p r t out r')
    obtain a where r': "r' = publish (wd_clock W p t) (r\<lparr>rn_a := a\<rparr>)"
      using shutdown_effect stop(5) by blast
    have "cand_ok W (agents_of f') p (rn_c r')"
      using cand_ok_publish [OF W s' r', of p] stop(1,2) c [of p] by (simp add: cand_ok_def)
    then show ?thesis
      using fleet_inv_post [OF W inv s', of p "Exited r'"] stop(1) fleet_stop_simulated [OF W s stop(2-5)]
      by (cases out) auto
  next
    case (signal p cd)
    have "candidate_of (with_candidate cd pr) = cd" for pr by (cases pr) auto
    moreover have "cand_ok W (agents_of f) p cd"
      using signal(2) c [of p] by (auto simp: take_changed_def cand_ok_def published_def split: if_splits)
    ultimately show ?thesis
      using fleet_inv_proc [OF inv, of p] s' phase [of p cd] signal(1) by simp
  next
    case (closed p r)
    with fleet_inv_proc [OF inv, of p] s' agent [of p "rn_c r"] c [of p] show ?thesis by simp
  next
    case (ctx_done p r)
    with fleet_inv_proc [OF inv, of p] s' agent [of p "rn_c r"] c [of p] show ?thesis by simp
  next
    case (crash p r)
    with fleet_inv_proc [OF inv, of p] s' agent [of p "rn_c r"] c [of p] show ?thesis by simp
  qed
qed

lemma fleet_reachable_inv: "fleet_reachable W f \<Longrightarrow> world_ok W \<Longrightarrow> fleet_inv W f"
  by (induction rule: fleet_reachable.induct) (auto intro: fleet_inv_init fleet_inv_step)

subsection \<open>What a reported holding means\<close>

lemma status_live:
  assumes W: "world_ok W" and inv: "fleet_inv W f"
    and h: "s_Holding (Status (wd_clock W p (fl_now f)) (candidate_of (fl_proc f p)))"
  shows "\<exists>x. abs_state (v_state (end_view W (fl_log f))) =
    Held (c_Holder (wd_config W p))
      (s_Epoch (Status (wd_clock W p (fl_now f)) (candidate_of (fl_proc f p)))) x \<and>
    fl_now f + wd_skew W < x"
proof -
  let ?c = "candidate_of (fl_proc f p)" and ?now = "wd_clock W p (fl_now f)"
  have c: "cand_ok W (agents_of f) p ?c" and s: "sys_inv W (agents_of f)"
    using inv by (simp_all add: fleet_inv_def)
  then have "cd_deadline ?c \<noteq> 0" "?now < cd_deadline ?c"
    using h Status_holding [of ?c ?now] by (simp_all add: cand_ok_def)
  moreover from this have "s_Epoch (Status ?now ?c) = cd_epoch ?c"
    by (simp add: Status_def go_simps)
  ultimately show ?thesis
    using c grounded_live [OF W s, of p "cd_deadline ?c" "cd_epoch ?c"] by (simp add: cand_ok_def)
qed

lemma holding_unique:
  assumes W: "world_ok W" and inv: "fleet_inv W f"
    and p: "s_Holding (Status (wd_clock W p (fl_now f)) (candidate_of (fl_proc f p)))"
    and q: "s_Holding (Status (wd_clock W q (fl_now f)) (candidate_of (fl_proc f q)))"
  shows "p = q"
proof -
  have "c_Holder (wd_config W p) = c_Holder (wd_config W q)"
    using status_live [OF W inv p] status_live [OF W inv q] by auto
  then show ?thesis using world_okD(11) [OF W] by blast
qed

lemma fleet_moves:
  "(fleet_step W)\<^sup>*\<^sup>* f f' \<Longrightarrow> world_ok W \<Longrightarrow> fleet_inv W f \<Longrightarrow>
     fleet_inv W f' \<and> (sys_step W)\<^sup>*\<^sup>* (agents_of f) (agents_of f')"
proof (induction rule: rtranclp_induct)
  case (step g h)
  then show ?case
    using fleet_inv_step fleet_step_simulated by (meson rtranclp_trans)
qed simp

subsection \<open>A run\<close>

text \<open>The run of theory \<open>MutualExclusion\<close>, by a candidate: participant 0 ends its second turn holding.\<close>

definition run_candidate :: "pid \<Rightarrow> candidate" where
  "run_candidate p = \<lparr>cd_cfg = run_config p, cd_status = zero_status, cd_changed = False,
                      cd_deadline = 0, cd_epoch = 0\<rparr>"

definition run_fleet :: "gtime \<Rightarrow> posted list \<Rightarrow> message list \<Rightarrow> process \<Rightarrow> fleet" where
  "run_fleet now P L pr =
     \<lparr>fl_now = now, fl_posted = P, fl_log = L,
      fl_proc = (\<lambda>p. NotStarted (run_candidate p))(0 := pr), fl_current = (\<lambda>p. 0)\<rparr>"

definition claim_message :: kafka_message where
  "claim_message = \<lparr>km_Topic = ''t'', km_Partition = 0, km_Key = recordKey, km_Value = value_of run_claim\<rparr>"

definition no_fetch :: fetches where
  "no_fetch = \<lparr>fs_closed = False, fs_errors = [FetchDeadline], fs_partitions = []\<rparr>"

definition one_fetch :: fetches where
  "one_fetch = \<lparr>fs_closed = False, fs_errors = [], fs_partitions =
     [\<lparr>fp_Topic = ''t'', fp_Partition = 0, fp_Err = None, fp_HighWatermark = 1, fp_Records =
        [\<lparr>kr_Offset = 0, kr_Timestamp = 100 * Second, kr_TimestampType = 1,
          kr_Value = value_of run_claim\<rparr>]\<rparr>]\<rparr>"

definition fetched_mark :: "agent \<Rightarrow> agent" where
  "fetched_mark a = a\<lparr>ag_fetchedOnce := True, ag_highWater := 1\<rparr>"

definition joined_run :: kfk_run where
  "joined_run = publish 0 \<lparr>rn_c = run_candidate 0, rn_a = run_agent 0\<rparr>"

definition claimed_run :: kfk_run where
  "claimed_run = publish (100 * Second) ((publish (100 * Second) joined_run)\<lparr>rn_a := claimed_agent\<rparr>)"

definition read_run :: kfk_run where
  "read_run = publish (100 * Second) (claimed_run\<lparr>rn_a := fetched_mark read_agent\<rparr>)"

definition holding_run :: kfk_run where
  "holding_run = publish (100 * Second) (read_run\<lparr>rn_a := fetched_mark holding_agent\<rparr>)"

abbreviation run_posted :: posted where
  "run_posted \<equiv> \<lparr>po_pid = 0, po_time = 100 * Second, po_msg = claim_message\<rparr>"

definition holding_fleet :: fleet where
  "holding_fleet = run_fleet (100 * Second) [run_posted] [run_msg] (Polling holding_run)"

lemma run_accepted: "withDefaults [] None (run_config p) = Inr (run_config p)"
  by (simp add: withDefaults_def run_config_def Second_def i64_add_def i64_wrap_def Let_def)

lemma run_fleet_starts: "fleet_init run_world (run_fleet 0 [] [] (NotStarted (run_candidate 0)))"
proof -
  have "at_start run_world p (NotStarted (run_candidate p))" for p
    unfolding at_start_def
    by (rule exI [of _ "[]"], rule exI [of _ None], rule exI [of _ "run_config p"])
      (simp add: NewCandidate_def run_accepted run_candidate_def run_world_def go_simps)
  then show ?thesis by (simp add: fleet_init_def run_fleet_def run_world_def run_config_def)
qed

lemma run_candidates [simp]:
  "cd_cfg (rn_c joined_run) = run_config 0" "cd_cfg (rn_c claimed_run) = run_config 0"
  "cd_cfg (rn_c read_run) = run_config 0" "rn_a joined_run = run_agent 0"
  "rn_a claimed_run = claimed_agent" "rn_a read_run = fetched_mark read_agent"
  "rn_a holding_run = fetched_mark holding_agent"
  by (simp_all add: joined_run_def claimed_run_def read_run_def holding_run_def run_candidate_def publish_def)

lemma run_bootstrap:
  "bootstrap (run_candidate 0) (Inr (zero_offset, zero_offset)) 0 = Inr joined_run"
  using run_join [of 0] by (simp add: bootstrap_def zero_offset_def run_candidate_def joined_run_def)

lemma run_first_poll: "consume (100 * Second) no_fetch joined_run = (None, publish (100 * Second) joined_run)"
proof -
  have "publish now (r\<lparr>rn_a := rn_a r\<rparr>) = publish now r" for now and r :: kfk_run by simp
  from this [of "100 * Second" joined_run] show ?thesis
    by (simp add: consume_def no_fetch_def note_error_def)
qed

lemma run_first_tick:
  "tick_produce (100 * Second) (publish (100 * Second) joined_run) = (Some claim_message, claimed_run)"
proof -
  have "produce (run_config 0) run_claim = Some claim_message"
    using run_claim_wire(1) by (simp add: produce_def kafkaRecord_def claim_message_def run_config_def)
  moreover have "rn_a (publish (100 * Second) joined_run) = run_agent 0"
    "cd_cfg (rn_c (publish (100 * Second) joined_run)) = run_config 0"
    by (simp_all add: publish_def)
  ultimately show ?thesis
    using run_tick by (simp add: tick_produce_def claimed_run_def)
qed

lemma run_fetched_read:
  "agent_record (100 * Second) 0 (100 * Second) (value_of run_claim) (fetched_mark claimed_agent) =
     (None, fetched_mark read_agent)"
proof -
  have app: "Apply (ag_view (seeRecord (100 * Second) 0 (100 * Second) (fetched_mark claimed_agent)))
      (run_claim\<lparr>r_Offset := 0, r_Timestamp := 100 * Second\<rparr>) = Inr (Accepted, granted_view)"
    by code_simp
  have "checkTerm (100 * Second) (ownRecord (100 * Second) 0 Claim Accepted
      ((seeRecord (100 * Second) 0 (100 * Second) (fetched_mark claimed_agent))\<lparr>ag_view := granted_view\<rparr>)) =
      fetched_mark read_agent"
    by (simp add: fetched_mark_def read_agent_def claimed_agent_def run_agent_def seeRecord_def ownRecord_def
        checkTerm_def believing_iff Second_def Let_def)
  with agent_record_applied [OF _ run_claim_wire(2) app] show ?thesis
    by (simp add: fetched_mark_def claimed_agent_def run_agent_def run_claim_def run_config_def)
qed

lemma run_second_poll: "consume (100 * Second) one_fetch claimed_run = (None, read_run)"
proof -
  have "fetched (100 * Second) 1 claimed_agent = fetched_mark claimed_agent"
    by (simp add: fetched_def fetched_mark_def claimed_agent_def run_agent_def)
  with run_fetched_read show ?thesis
    by (simp add: consume_def one_fetch_def consume_partition_def run_config_def read_run_def)
qed

lemma run_result:
  "drain [(100 * Second, \<lparr>pr_offset = 0, pr_err = False\<rparr>)] (fetched_mark read_agent) = fetched_mark holding_agent"
  by (simp add: acked_def settle_def extendBelief_def i64_sub_def i64_wrap_def read_agent_def fetched_mark_def
      holding_agent_def claimed_agent_def run_agent_def run_config_def Second_def go_simps Let_def)

lemma run_second_tick:
  "tick_produce (100 * Second) (read_run\<lparr>rn_a := fetched_mark holding_agent\<rparr>) = (None, holding_run)"
proof -
  have "agent_tick (100 * Second) (fetched_mark holding_agent) = (None, fetched_mark holding_agent)"
    by (simp add: agent_tick_def tickDeadline_eq tickSilence_def tickDecide_def believing_iff fetched_mark_def
        holding_agent_def read_agent_def claimed_agent_def run_agent_def granted_view_def start_view_def
        run_config_def Second_def go_simps time_Sub_def i64_sat_def i64_max_def i64_min_def Let_def)
  then show ?thesis by (simp add: tick_produce_def holding_run_def)
qed

lemma run_fleet_simps [simp]:
  "fl_now (run_fleet now P L pr) = now" "fl_posted (run_fleet now P L pr) = P"
  "fl_log (run_fleet now P L pr) = L" "fl_proc (run_fleet now P L pr) 0 = pr"
  "fl_current (run_fleet now P L pr) = (\<lambda>p. 0)"
  "set_proc (run_fleet now P L pr) 0 pr' = run_fleet now P L pr'"
  "(run_fleet now P L pr)\<lparr>fl_now := now'\<rparr> = run_fleet now' P L pr"
  "(run_fleet now P L pr)\<lparr>fl_log := L'\<rparr> = run_fleet now P L' pr"
  "(run_fleet now P L pr)\<lparr>fl_posted := P'\<rparr> = run_fleet now P' L pr"
  "(run_fleet now P L pr)\<lparr>fl_current := (\<lambda>p. 0)\<rparr> = run_fleet now P L pr"
  by (simp_all add: run_fleet_def set_proc_def)

lemma run_fleet_reaches: "fleet_reachable run_world holding_fleet"
proof -
  have w: "wd_clock run_world 0 (100 * Second) = 100 * Second" "wd_clock run_world 0 0 = 0"
    "wd_skew run_world = Second" "0 \<le> 100 * Second"
    by (simp_all add: run_world_def Second_def)
  let ?F = "run_fleet (100 * Second)"
  have 1: "fleet_step run_world (run_fleet 0 [] [] (NotStarted (run_candidate 0))) (run_fleet 0 [] [] (Polling joined_run))"
    using fleet_step.start [of "run_fleet 0 [] [] (NotStarted (run_candidate 0))" 0 "run_candidate 0" 0
        zero_offset zero_offset run_world joined_run] run_bootstrap w by (simp add: zero_offset_def)
  have 2: "fleet_step run_world (run_fleet 0 [] [] (Polling joined_run)) (?F [] [] (Polling joined_run))"
    using fleet_step.pass [of "run_fleet 0 [] [] (Polling joined_run)" "100 * Second" run_world]
    by (simp add: Second_def)
  have 3: "fleet_step run_world (?F [] [] (Polling joined_run))
      (?F [] [] (Draining (publish (100 * Second) joined_run)))"
    using fleet_step.poll [of "?F [] [] (Polling joined_run)" 0 joined_run "100 * Second" no_fetch run_world None]
      run_first_poll w by (simp add: own_records_def no_fetch_def)
  have 4: "fleet_step run_world (?F [] [] (Draining (publish (100 * Second) joined_run)))
      (?F [run_posted] [] (Polling claimed_run))"
    using fleet_step.tick [of "?F [] [] (Draining (publish (100 * Second) joined_run))" 0
        "publish (100 * Second) joined_run" "100 * Second" run_world "Some claim_message" claimed_run]
      run_first_tick w by (simp add: post_def fun_upd_idem)
  have 5: "fleet_step run_world (?F [run_posted] [] (Polling claimed_run))
      (?F [run_posted] [run_msg] (Polling claimed_run))"
    using fleet_step.land [of 0 "?F [run_posted] [] (Polling claimed_run)" run_world "100 * Second"] w
    by (simp add: claim_message_def Second_def i64_max_def)
  have 6: "fleet_step run_world (?F [run_posted] [run_msg] (Polling claimed_run))
      (?F [run_posted] [run_msg] (Draining read_run))"
    using fleet_step.poll [of "?F [run_posted] [run_msg] (Polling claimed_run)" 0 claimed_run "100 * Second"
        one_fetch run_world None read_run] run_second_poll w
    by (simp add: own_records_def one_fetch_def followed_def is_message_def run_config_def
        claimed_agent_def run_agent_def)
  have 7: "fleet_step run_world (?F [run_posted] [run_msg] (Draining read_run))
      (?F [run_posted] [run_msg] (Draining (read_run\<lparr>rn_a := fetched_mark holding_agent\<rparr>)))"
    using fleet_step.result [of "?F [run_posted] [run_msg] (Draining read_run)" 0 read_run "100 * Second"
        "\<lparr>pr_offset = 0, pr_err = False\<rparr>" run_world] run_result w
    by (simp add: answered_def del: drain.simps)
  have 8: "fleet_step run_world
      (?F [run_posted] [run_msg] (Draining (read_run\<lparr>rn_a := fetched_mark holding_agent\<rparr>))) holding_fleet"
    using fleet_step.tick [of "?F [run_posted] [run_msg] (Draining (read_run\<lparr>rn_a := fetched_mark holding_agent\<rparr>))"
        0 "read_run\<lparr>rn_a := fetched_mark holding_agent\<rparr>" "100 * Second" run_world None holding_run]
      run_second_tick w by (simp add: post_def holding_fleet_def fun_upd_idem)
  show ?thesis
    using fleet_reachable.start [OF run_fleet_starts] 1 2 3 4 5 6 7 8 by (meson fleet_reachable.step)
qed

lemma run_status:
  "Status (wd_clock run_world 0 (fl_now holding_fleet)) (candidate_of (fl_proc holding_fleet 0)) =
     \<lparr>s_Holding = True, s_Epoch = 0, s_Deadline = 108 * Second, s_Certain = True,
      s_Lease = \<lparr>st_Holder = ''a'', st_Epoch = 0, st_Expires = 110 * Second\<rparr>, s_AsOf = 100 * Second\<rparr>"
  by (simp add: holding_fleet_def holding_run_def publish_def agent_status_eq Status_def believing_iff
      fetched_mark_def holding_agent_def read_agent_def granted_view_def start_view_def run_world_def
      Second_def go_simps)

subsection \<open>A turn of the loop\<close>

text \<open>What the process is after a turn, and what the client may deliver in one.\<close>

fun after_turn :: "loop_end \<Rightarrow> kfk_run \<Rightarrow> process" where
  "after_turn Continue r = Polling r"
| "after_turn (Finished e) r = (if e = Some CrashRequested then Exited r else Stopping r)"

definition clock_reading :: "world \<Rightarrow> fleet \<Rightarrow> pid \<Rightarrow> gtime \<Rightarrow> bool" where
  "clock_reading W f p now \<longleftrightarrow> (\<exists>t. 0 \<le> t \<and> t \<le> fl_now f \<and> now = wd_clock W p t)"

definition turn_ok :: "world \<Rightarrow> fleet \<Rightarrow> pid \<Rightarrow> kfk_run \<Rightarrow> turn \<Rightarrow> bool" where
  "turn_ok W f p r tn \<longleftrightarrow>
     clock_reading W f p (tn_consumed tn) \<and> clock_reading W f p (tn_ticked tn) \<and>
     delivered (fl_log f) (ag_nextOffset (rn_a r))
       (own_records (cd_cfg (rn_c r)) (fs_partitions (tn_fetches tn))) \<and>
     (\<forall>(now, res) \<in> set (tn_results tn).
        clock_reading W f p now \<and> answered (fl_log f) (fl_current f p) res)"

lemma drain_in_fleet:
  assumes "\<forall>(now, res) \<in> set rs. clock_reading W f p now \<and> answered (fl_log f) (fl_current f p) res"
  shows "(fleet_step W)\<^sup>*\<^sup>* (set_proc f p (Draining r)) (set_proc f p (Draining (r\<lparr>rn_a := drain rs (rn_a r)\<rparr>)))"
  using assms
proof (induction rs arbitrary: r)
  case (Cons x rs)
  obtain now res where x: "x = (now, res)" by (metis surj_pair)
  obtain t where t: "0 \<le> t" "t \<le> fl_now f" "now = wd_clock W p t"
    using Cons.prems x by (auto simp: clock_reading_def)
  let ?r = "r\<lparr>rn_a := drain [x] (rn_a r)\<rparr>"
  have "fleet_step W (set_proc f p (Draining r)) (set_proc f p (Draining ?r))"
    using fleet_step.result [of "set_proc f p (Draining r)" p r t res W] t x Cons.prems
    by (simp add: set_proc_def)
  moreover have "(fleet_step W)\<^sup>*\<^sup>* (set_proc f p (Draining ?r))
      (set_proc f p (Draining (?r\<lparr>rn_a := drain rs (rn_a ?r)\<rparr>)))"
    using Cons.IH [of ?r] Cons.prems by simp
  ultimately show ?case using x by (simp add: converse_rtranclp_into_rtranclp)
qed simp

lemma consume_in_fleet:
  assumes "fl_proc f p = Polling r" "turn_ok W f p r tn" "\<not> fs_closed (tn_fetches tn)"
    and "consume (tn_consumed tn) (tn_fetches tn) r = (err, r')"
  shows "fleet_step W f (set_proc f p (if err = None then Draining r' else Stopping r'))"
  using assms fleet_step.poll [of f p r _ "tn_fetches tn" W err r']
  by (auto simp: turn_ok_def clock_reading_def)

lemma consume_no_crash: "consume now fs r = (err, r') \<Longrightarrow> err \<noteq> Some CrashRequested"
proof -
  have recs: "fst (consume_records now krs s) \<noteq> Some CrashRequested" if "fst s \<noteq> Some CrashRequested" for krs s
    using that by (induction now krs s rule: consume_records.induct) (auto split: prod.splits)
  have "fst (fold (consume_partition cfg now) fps s) \<noteq> Some CrashRequested"
    if "fst s \<noteq> Some CrashRequested" for cfg fps s
    using that recs by (induction fps arbitrary: s) (simp_all add: consume_partition_def)
  then show "consume now fs r = (err, r') \<Longrightarrow> err \<noteq> Some CrashRequested"
    by (auto simp: consume_def case_prod_unfold Let_def)
qed

lemma tick_in_fleet:
  assumes "0 \<le> t" "t \<le> fl_now f" "tick_produce (wd_clock W p t) r = (out, r')"
  shows "\<exists>f'. fleet_step W (set_proc f p (Draining r)) f' \<and> fl_proc f' = (fl_proc f)(p := Polling r') \<and>
    fl_now f' = fl_now f \<and> fl_log f' = fl_log f \<and>
    map po_msg (fl_posted f') = map po_msg (fl_posted f) @ (case out of None \<Rightarrow> [] | Some m \<Rightarrow> [m])"
proof -
  let ?f = "set_proc f p (Draining r)"
  let ?f' = "post p t out ((set_proc ?f p (Polling r'))
       \<lparr>fl_current := (fl_current ?f)(p := if out = None then fl_current ?f p else length (fl_posted ?f))\<rparr>)"
  have "fleet_step W ?f ?f'"
    by (rule fleet_step.tick) (use assms in \<open>simp_all add: set_proc_def\<close>)
  then show ?thesis
    by (rule exI [of _ ?f', OF conjI]) (simp add: set_proc_def post_def split: option.splits)
qed

text \<open>C9: a turn of the loop of a candidate, as the code writes it, is a sequence of steps of the system of
  candidates, when the client delivers what the partition holds: it ends in the process the turn
  leaves, and has posted the message the turn produced.\<close>
theorem turn_in_fleet:
  assumes "fl_proc f p = Polling r" "turn_ok W f p r tn" "loop_turn tn r = (e, out, r')"
  shows "\<exists>f'. (fleet_step W)\<^sup>*\<^sup>* f f' \<and> fl_proc f' = (fl_proc f)(p := after_turn e r') \<and>
    fl_now f' = fl_now f \<and> fl_log f' = fl_log f \<and>
    map po_msg (fl_posted f') = map po_msg (fl_posted f) @ (case out of None \<Rightarrow> [] | Some m \<Rightarrow> [m])"
proof (cases "fs_closed (tn_fetches tn)")
  case True
  then have "e = Finished (Some ClientClosed)" "out = None" "r' = r"
    using assms(3) by (simp_all add: loop_turn_def)
  with fleet_step.closed [OF assms(1)] show ?thesis
    by (intro exI [of _ "set_proc f p (Stopping r)"]) auto
next
  case False
  obtain err r1 where c: "consume (tn_consumed tn) (tn_fetches tn) r = (err, r1)" by (metis surj_pair)
  note poll = consume_in_fleet [OF assms(1,2) False c]
  show ?thesis
  proof (cases err)
    case (Some x)
    then have "e = Finished err" "out = None" "r' = r1"
      using assms(3) c False by (simp_all add: loop_turn_def)
    moreover have "err \<noteq> Some CrashRequested" using consume_no_crash [OF c] .
    ultimately show ?thesis
      using poll Some by (intro exI [of _ "set_proc f p (Stopping r1)"]) auto
  next
    case None
    let ?r2 = "r1\<lparr>rn_a := drain (tn_results tn) (rn_a r1)\<rparr>"
    have to2: "(fleet_step W)\<^sup>*\<^sup>* f (set_proc f p (Draining ?r2))"
      using poll None drain_in_fleet [of "tn_results tn" W f p r1] assms(2)
      by (simp add: turn_ok_def converse_rtranclp_into_rtranclp)
    show ?thesis
    proof (cases "tn_stop tn")
      case GoOn
      obtain t where t: "0 \<le> t" "t \<le> fl_now f" "tn_ticked tn = wd_clock W p t"
        using assms(2) by (auto simp: turn_ok_def clock_reading_def)
      have "tick_produce (wd_clock W p t) ?r2 = (out, r')" "e = Continue"
        using assms(3) c False None GoOn t(3) by (auto simp: loop_turn_def split: prod.splits)
      with tick_in_fleet [OF t(1,2)] obtain f' where
        f': "fleet_step W (set_proc f p (Draining ?r2)) f'" "fl_proc f' = (fl_proc f)(p := after_turn e r')"
        "fl_now f' = fl_now f" "fl_log f' = fl_log f"
        "map po_msg (fl_posted f') = map po_msg (fl_posted f) @ (case out of None \<Rightarrow> [] | Some m \<Rightarrow> [m])"
        by fastforce
      from rtranclp.rtrancl_into_rtrancl [OF to2 f'(1)] f'(2-5) show ?thesis by blast
    next
      case ContextDone
      then have "e = Finished None" "out = None" "r' = ?r2"
        using assms(3) c False None by (auto simp: loop_turn_def)
      moreover have "fleet_step W (set_proc f p (Draining ?r2)) (set_proc f p (Stopping ?r2))"
        using fleet_step.ctx_done [of "set_proc f p (Draining ?r2)" p ?r2 W] by (simp add: set_proc_def)
      ultimately show ?thesis
        using to2 by (intro exI [of _ "set_proc f p (Stopping ?r2)"]) (auto simp: set_proc_def)
    next
      case Crash
      then have "e = Finished (Some CrashRequested)" "out = None" "r' = ?r2"
        using assms(3) c False None by (auto simp: loop_turn_def)
      moreover have "fleet_step W (set_proc f p (Draining ?r2)) (set_proc f p (Exited ?r2))"
        using fleet_step.crash [of "set_proc f p (Draining ?r2)" p ?r2 W] by (simp add: set_proc_def)
      ultimately show ?thesis
        using to2 by (intro exI [of _ "set_proc f p (Exited ?r2)"]) (auto simp: set_proc_def)
    qed
  qed
qed

theorem turn_in_fleet_witness:
  "\<exists>f'. (fleet_step run_world)\<^sup>*\<^sup>* (run_fleet (100 * Second) [] [] (Polling joined_run)) f' \<and>
     fl_proc f' 0 = Polling claimed_run \<and> map po_msg (fl_posted f') = [claim_message]"
proof -
  let ?f = "run_fleet (100 * Second) [] [] (Polling joined_run)"
  let ?tn = "\<lparr>tn_fetches = no_fetch, tn_consumed = 100 * Second, tn_results = [], tn_stop = GoOn,
      tn_ticked = 100 * Second\<rparr>"
  have "clock_reading run_world ?f 0 (100 * Second)"
    unfolding clock_reading_def by (rule exI [of _ "100 * Second"]) (simp add: run_world_def Second_def)
  then have ok: "turn_ok run_world ?f 0 joined_run ?tn"
    by (simp add: turn_ok_def own_records_def no_fetch_def)
  have "publish (100 * Second) (joined_run\<lparr>rn_a := run_agent 0\<rparr>) = publish (100 * Second) joined_run"
    using run_first_poll by (simp add: consume_def no_fetch_def note_error_def)
  then have "loop_turn ?tn joined_run = (Continue, Some claim_message, claimed_run)"
    using run_first_poll run_first_tick by (simp add: loop_turn_def no_fetch_def publish_def)
  from turn_in_fleet [OF _ ok this] show ?thesis by auto
qed

subsection \<open>Properties\<close>

text \<open>C7: whatever candidates around one partition do, turn by turn and stop by stop, the agents inside
  them only do what the protocol allows: every state the candidates reach holds a state the system
  of agents reaches.\<close>
theorem candidates_follow_protocol:
  assumes "world_ok W" "fleet_reachable W f"
  shows "reachable W (agents_of f)"
  using assms(2)
proof (induction rule: fleet_reachable.induct)
  case (start f)
  then have "agent_of (fl_proc f p) = None" for p
    unfolding fleet_init_def at_start_def by (metis agent_of.simps(1))
  with start show ?case
    by (intro reachable.start) (simp add: sys_init_def fleet_init_def fun_eq_iff)
next
  case (step f f')
  then show ?case
    using reachable_steps fleet_step_simulated [OF assms(1) fleet_reachable_inv [OF _ assms(1)]] by blast
qed

theorem candidates_follow_protocol_witness: "reachable run_world (agents_of holding_fleet)"
  by (rule candidates_follow_protocol [OF run_world_ok run_fleet_reaches])

text \<open>C1: at any instant, between any two steps of the candidates, at most one reports Holding; and
  the lease at the end of the partition is then held by it, under the epoch it reports, for longer
  than the brokers' skew.\<close>
theorem no_two_candidates_hold:
  assumes "world_ok W" "fleet_reachable W f"
    and "s_Holding (Status (wd_clock W p (fl_now f)) (candidate_of (fl_proc f p)))"
  shows "(\<exists>x. abs_state (v_state (full_at (wd_ttl W) (log_recs (fl_log f)) (length (fl_log f)))) =
      Held (c_Holder (wd_config W p))
        (s_Epoch (Status (wd_clock W p (fl_now f)) (candidate_of (fl_proc f p)))) x \<and>
      fl_now f + wd_skew W < x) \<and>
    (\<forall>q. q \<noteq> p \<longrightarrow> \<not> s_Holding (Status (wd_clock W q (fl_now f)) (candidate_of (fl_proc f q))))"
proof -
  have inv: "fleet_inv W f" using fleet_reachable_inv [OF assms(2,1)] .
  from holding_unique [OF assms(1) inv assms(3)] status_live [OF assms(1) inv assms(3)]
  show ?thesis by (auto simp: end_view_def)
qed

theorem no_two_candidates_hold_witness:
  "\<not> s_Holding (Status (wd_clock run_world 1 (fl_now holding_fleet)) (candidate_of (fl_proc holding_fleet 1)))"
  using no_two_candidates_hold [OF run_world_ok run_fleet_reaches, of 0] by (simp add: run_status)

text \<open>C8: the epochs candidates report are fencing tokens: whoever reports Holding later, in any
  continuation, reports an epoch at least as high, and only the same candidate the same one.\<close>
theorem reported_epochs_fence:
  assumes "world_ok W" "fleet_reachable W f" "(fleet_step W)\<^sup>*\<^sup>* f f'"
    and "Status (wd_clock W p (fl_now f)) (candidate_of (fl_proc f p)) = st" "s_Holding st"
    and "Status (wd_clock W q (fl_now f')) (candidate_of (fl_proc f' q)) = st'" "s_Holding st'"
  shows "s_Epoch st \<le> s_Epoch st' \<and> (s_Epoch st = s_Epoch st' \<longrightarrow> p = q)"
proof -
  have inv: "fleet_inv W f" using fleet_reachable_inv [OF assms(2,1)] .
  note m = fleet_moves [OF assms(3,1) inv]
  have s': "sys_inv W (agents_of f')" using m by (simp add: fleet_inv_def)
  obtain x y where
    "abs_state (v_state (end_view W (fl_log f))) = Held (c_Holder (wd_config W p)) (s_Epoch st) x"
    "abs_state (v_state (end_view W (fl_log f'))) = Held (c_Holder (wd_config W q)) (s_Epoch st') y"
    using status_live [OF assms(1) inv, of p] status_live [OF assms(1), of f' q] m assms(4-7) by auto
  with live_epochs [OF assms(1) s', of "agents_of f"] m show ?thesis by simp
qed

theorem reported_epochs_fence_witness:
  "\<exists>st. Status (wd_clock run_world 0 (fl_now holding_fleet)) (candidate_of (fl_proc holding_fleet 0)) = st \<and>
     s_Holding st \<and> s_Epoch st = 0 \<and> s_Epoch st \<le> s_Epoch st"
  using reported_epochs_fence [OF run_world_ok run_fleet_reaches rtranclp.rtrancl_refl run_status _ run_status]
  by (simp add: run_status)

text \<open>C2: at most one scaler is active: of the external scalers in front of the candidates, each asked
  at the same instant, at most one answers KEDA that its cluster runs the workload.\<close>
theorem one_active_scaler:
  assumes "world_ok W" "fleet_reachable W f"
    and "GetMetrics sv req (Status (wd_clock W p (fl_now f)) (candidate_of (fl_proc f p))) = Inr vs"
    and "\<exists>v \<in> set vs. mv_MetricValue v \<noteq> 0"
    and "IsActive sv' ref' (Status (wd_clock W q (fl_now f)) (candidate_of (fl_proc f q))) = Inr True"
  shows "p = q"
proof -
  have p: "s_Holding (Status (wd_clock W p (fl_now f)) (candidate_of (fl_proc f p)))"
    using assms(3,4) by (auto simp: GetMetrics_def metric_def holding_def split: option.splits if_splits)
  have q: "s_Holding (Status (wd_clock W q (fl_now f)) (candidate_of (fl_proc f q)))"
    using assms(5) by (auto simp: IsActive_def holding_def split: option.splits)
  show ?thesis using holding_unique [OF assms(1) fleet_reachable_inv [OF assms(2,1)] p q] .
qed

theorem one_active_scaler_witness:
  "IsActive sample_server (Some sample_ref)
     (Status (wd_clock run_world 1 (fl_now holding_fleet)) (candidate_of (fl_proc holding_fleet 1))) \<noteq> Inr True"
proof
  let ?req = "Some \<lparr>gm_ScaledObjectRef = Some sample_ref, gm_MetricName = []\<rparr>"
  let ?vs = "[\<lparr>mv_MetricName = MetricName, mv_MetricValue = 1\<rparr>]"
  assume a: "IsActive sample_server (Some sample_ref)
     (Status (wd_clock run_world 1 (fl_now holding_fleet)) (candidate_of (fl_proc holding_fleet 1))) = Inr True"
  have "check sample_server (GetScaledObjectRef ?req) = None" by code_simp
  then have g: "GetMetrics sample_server ?req
      (Status (wd_clock run_world 0 (fl_now holding_fleet)) (candidate_of (fl_proc holding_fleet 0))) = Inr ?vs"
    by (simp add: run_status GetMetrics_def metric_def holding_def)
  have "\<exists>v \<in> set ?vs. mv_MetricValue v \<noteq> 0" by simp
  from one_active_scaler [OF run_world_ok run_fleet_reaches g this a] show False by simp
qed

end
