(* ===== verification/Http.thy ===== *)
theory Http
  imports Complex_Main Scaler
begin

section \<open>Metrics and status over HTTP (scaler/http.go)\<close>

text \<open>
  The transition counters, the status response and the collected metrics, over a status source.
  Each read of the source and of the clock comes in at its own instant. Seconds are exact rational
  numbers (the source has float64), instants nanoseconds since year 1; prometheus and the JSON
  encoding of the response are not modelled.
\<close>

record http_state =
  ht_holder :: string
  ht_to_holding :: nat
  ht_to_standby :: nat
  ht_lastHolding :: bool

definition NewHTTP :: "status \<Rightarrow> string \<Rightarrow> http_state" where
  "NewHTTP st holder =
     \<lparr>ht_holder = holder, ht_to_holding = 0, ht_to_standby = 0, ht_lastHolding = s_Holding st\<rparr>"

definition http_note :: "status \<Rightarrow> http_state \<Rightarrow> http_state" where
  "http_note st h =
     (let holding = s_Holding st;
          h1 = h\<lparr>ht_lastHolding := holding\<rparr>
      in if ht_lastHolding h = holding then h1
         else if holding then h1\<lparr>ht_to_holding := ht_to_holding h1 + 1\<rparr>
         else h1\<lparr>ht_to_standby := ht_to_standby h1 + 1\<rparr>)"

text \<open>\<open>Watch\<close>: each signal it receives, with the status it then reads; \<open>None\<close> is a done context.\<close>

fun Watch :: "status option list \<Rightarrow> http_state \<Rightarrow> http_state" where
  "Watch [] h = h"
| "Watch (None # _) h = h"
| "Watch (Some st # rest) h = Watch rest (http_note st h)"

record lease_response =
  lr_Holder :: string
  lr_Epoch :: int
  lr_Expires :: gtime

record status_response =
  sr_Holder :: string
  sr_Holding :: bool
  sr_Epoch :: int
  sr_DeadlineIn :: rat
  sr_Certain :: bool
  sr_Lease :: "lease_response option"
  sr_AsOf :: gtime

definition Seconds :: "duration \<Rightarrow> rat" where
  "Seconds d = of_int d / of_int Second"

text \<open>\<open>max(0, time.Until(t).Seconds())\<close> at \<open>now\<close>.\<close>

definition until_seconds :: "gtime \<Rightarrow> gtime \<Rightarrow> rat" where
  "until_seconds now t = max 0 (Seconds (time_Sub t now))"

text \<open>The handler: the status it read first, the one \<open>note\<close> reads, and the clock at \<open>time.Until\<close>.\<close>

definition http_status :: "status \<Rightarrow> status \<Rightarrow> gtime \<Rightarrow> http_state \<Rightarrow> status_response \<times> http_state" where
  "http_status s noted now h =
     (let h1 = http_note noted h;
          resp = \<lparr>sr_Holder = ht_holder h, sr_Holding = s_Holding s, sr_Epoch = 0, sr_DeadlineIn = 0,
                  sr_Certain = s_Certain s, sr_Lease = None, sr_AsOf = s_AsOf s\<rparr>;
          resp1 = (if s_Holding s
                   then resp\<lparr>sr_Epoch := s_Epoch s, sr_DeadlineIn := until_seconds now (s_Deadline s)\<rparr>
                   else resp);
          resp2 = (if s_Certain s
                   then resp1\<lparr>sr_Lease := Some \<lparr>lr_Holder = st_Holder (s_Lease s),
                                lr_Epoch = st_Epoch (s_Lease s), lr_Expires = st_Expires (s_Lease s)\<rparr>\<rparr>
                   else resp1)
      in (resp2, h1))"

text \<open>
  \<open>Handler\<close>: where the mux sends a request by method and path (a GET pattern serves HEAD too, another
  method of a known path is 405, another path 404), and the body of /healthz.
\<close>

datatype route = ToMetrics | ToStatus | ToHealthz | MethodNotAllowed | NotFound

definition Handler :: "string \<Rightarrow> string \<Rightarrow> route" where
  "Handler meth path =
     (case map_of [(''/metrics'', ToMetrics), (''/status'', ToStatus), (''/healthz'', ToHealthz)] path of
        None \<Rightarrow> NotFound
      | Some r \<Rightarrow> (if meth = ''GET'' \<or> meth = ''HEAD'' then r else MethodNotAllowed))"

definition healthz_body :: string where
  "healthz_body = ''ok'' @ [CHR 0x0A]"

datatype gauge =
    GaugeHolding | GaugeEpoch | GaugeDeadline | GaugeCertain | GaugeLeaseHeld | GaugeLeaseAge

definition b2f :: "bool \<Rightarrow> rat" where
  "b2f b = (if b then 1 else 0)"

text \<open>\<open>Time.UnixMilli\<close>: whole milliseconds since 1970.\<close>

definition UnixMilli :: "gtime \<Rightarrow> int" where
  "UnixMilli t = (t - 62135596800 * Second) div Millisecond"

definition Describe :: "gauge list" where
  "Describe = [GaugeHolding, GaugeEpoch, GaugeDeadline, GaugeCertain, GaugeLeaseHeld, GaugeLeaseAge]"

definition Collect :: "status \<Rightarrow> gtime \<Rightarrow> (gauge \<times> rat) list" where
  "Collect s now =
     (let (epoch, remaining) =
            (if s_Holding s then (of_int (s_Epoch s), until_seconds now (s_Deadline s)) else (-1, 0))
      in [(GaugeHolding, b2f (s_Holding s)), (GaugeEpoch, epoch), (GaugeDeadline, remaining),
          (GaugeCertain, b2f (s_Certain s)),
          (GaugeLeaseHeld, b2f (s_Certain s \<and> HeldAt (s_Lease s) (s_AsOf s)))] @
         (if \<not> time_IsZero (s_AsOf s)
          then [(GaugeLeaseAge, of_int (UnixMilli (s_AsOf s)) / 1000)] else []))"

subsection \<open>Properties\<close>

lemma Watch_balance:
  "int (ht_to_holding (Watch sts h)) - int (ht_to_standby (Watch sts h)) - of_bool (ht_lastHolding (Watch sts h)) =
   int (ht_to_holding h) - int (ht_to_standby h) - of_bool (ht_lastHolding h)"
  by (induction sts h rule: Watch.induct) (simp_all add: http_note_def Let_def)

text \<open>The two transition counters always account for the state: starts less stops is the holding
  last noted less the holding at the start, so they differ by one at most and alternate.\<close>
lemma transitions_balance:
  "int (ht_to_holding (Watch sts (NewHTTP st holder))) -
     int (ht_to_standby (Watch sts (NewHTTP st holder))) =
   of_bool (ht_lastHolding (Watch sts (NewHTTP st holder))) - of_bool (s_Holding st)"
  using Watch_balance [of sts "NewHTTP st holder"] by (simp add: NewHTTP_def)

text \<open>C32: what /status says a workload may fence by: served from a published status at any later time,
  holding is the belief at that moment, the epoch is the agent's while it believes and 0 otherwise,
  and the remaining time is the time to the deadline, never more than the TTL less the margin
  allows from the last send.\<close>
theorem status_response_fences:
  assumes "run_wf r" "0 \<le> t" "t \<le> now" "ag_lastSend (rn_a r) \<le> now"
  shows "sr_Holding (fst (http_status (Status now (rn_c (publish t r))) noted now h)) =
      believing (rn_a r) now \<and>
    sr_Epoch (fst (http_status (Status now (rn_c (publish t r))) noted now h)) =
      (if believing (rn_a r) now then ag_epoch (rn_a r) else 0) \<and>
    sr_DeadlineIn (fst (http_status (Status now (rn_c (publish t r))) noted now h)) =
      (if believing (rn_a r) now then Seconds (ag_deadline (rn_a r) - now) else 0) \<and>
    sr_DeadlineIn (fst (http_status (Status now (rn_c (publish t r))) noted now h)) \<le>
      Seconds (c_TTL (cd_cfg (rn_c r)) - c_Margin (cd_cfg (rn_c r)))"
proof -
  let ?a = "rn_a r" and ?st = "Status now (rn_c (publish t r))"
  let ?d = "c_TTL (cd_cfg (rn_c r)) - c_Margin (cd_cfg (rn_c r))"
  have cfg: "timing_ok (cd_cfg (rn_c r))" "belief_ok ?a" "ag_cfg ?a = cd_cfg (rn_c r)"
    using assms(1) by (auto simp: run_wf_def agent_wf_def)
  have st: "s_Holding ?st = believing ?a now" "believing ?a now \<Longrightarrow> s_Epoch ?st = ag_epoch ?a"
    "believing ?a now \<Longrightarrow> s_Deadline ?st = ag_deadline ?a"
    using assms(2,3) by (simp_all add: publish_def agent_status_eq Status_def agent_simps go_simps)
  have d: "ag_deadline ?a - now \<le> ?d" "is_i64 (ag_deadline ?a - now)" "0 \<le> ag_deadline ?a - now"
    if "believing ?a now"
    using that cfg assms(2-4) timing_bounds [OF cfg(1)]
    by (auto simp: belief_ok_def believing_iff is_i64_def i64_min_def)
  have "0 \<le> Seconds x" if "0 \<le> x" for x using that by (simp add: Seconds_def Second_def)
  moreover have "Seconds x \<le> Seconds y" if "x \<le> y" for x y
    using that by (simp add: Seconds_def Second_def divide_right_mono)
  moreover have "0 \<le> ?d" using timing_bounds(4) [OF cfg(1)] by simp
  ultimately show ?thesis
    using st d by (auto simp: http_status_def until_seconds_def time_Sub_exact Let_def)
qed

theorem status_response_fences_witness:
  "sr_Epoch (fst (http_status (Status (102 * Second) (rn_c (publish (100 * Second) sample_run)))
      zero_status (102 * Second) (NewHTTP zero_status []))) = 4 \<and>
   sr_DeadlineIn (fst (http_status (Status (102 * Second) (rn_c (publish (100 * Second) sample_run)))
      zero_status (102 * Second) (NewHTTP zero_status []))) = 1"
  using status_response_fences [OF sample_run_wf, of "100 * Second" "102 * Second" zero_status "NewHTTP zero_status []"]
  by (simp add: sample_run_def sample_agent_def believing_iff Second_def Seconds_def)

text \<open>The gauges agree with the status they were read from: holding and certain are 0 or 1, the
  epoch is -1 exactly when not holding (epochs are offsets), the lease counts as held only when
  certain, and the age of the last record is there once a record was seen.\<close>
lemma gauges_agree:
  assumes "0 \<le> s_Epoch s"
  shows "map_of (Collect s now) GaugeHolding = Some (if s_Holding s then 1 else 0) \<and>
    (map_of (Collect s now) GaugeEpoch = Some (-1) \<longleftrightarrow> \<not> s_Holding s) \<and>
    (map_of (Collect s now) GaugeLeaseHeld = Some 1 \<longleftrightarrow> s_Certain s \<and> HeldAt (s_Lease s) (s_AsOf s)) \<and>
    map fst (Collect s now) = (if time_IsZero (s_AsOf s) then butlast Describe else Describe)"
proof -
  have "(-1 :: rat) < of_int (s_Epoch s)" using assms by (simp add: order_less_le_trans [of _ 0])
  then show ?thesis by (simp add: Collect_def b2f_def Describe_def Let_def)
qed

subsection \<open>One signal, two receivers\<close>

text \<open>
  The command runs \<open>Watch\<close> and serves \<open>StreamIsActive\<close> over the same candidate, so both receive
  from its one change channel: a step of \<open>Watch\<close> on the shared candidate.
\<close>

definition watch_step :: "gtime \<Rightarrow> candidate \<times> http_state \<Rightarrow> candidate \<times> http_state" where
  "watch_step now s =
     (case take_changed (fst s) of
        None \<Rightarrow> s
      | Some c \<Rightarrow> (c, http_note (Status now c) (snd s)))"

text \<open>The change signal reaches one receiver only: when the candidate becomes the holder and Watch
  receives the signal first, the transition is counted, and a StreamIsActive waiting on the same
  candidate is not woken although the status it would read has changed; KEDA learns of it only at
  the next heartbeat (one TTL in the command).\<close>
lemma signal_reaches_one_receiver:
  "(let c = rn_c (publish (100 * Second) sample_run);
        (c', h') = watch_step (100 * Second) (c, NewHTTP zero_status ''a'')
    in cd_changed c \<and> ht_to_holding h' = 1 \<and> s_Holding (Status (100 * Second) c') \<and>
       take_changed c' = None)"
  by code_simp

end
