(* ===== verification/Heartbeat.thy ===== *)
theory Heartbeat
  imports Http "HOL-Library.AList" "HOL-Library.Multiset"
begin

section \<open>The fenced workload and its report (examples/heartbeat/main.go)\<close>

text \<open>
  The \<open>beat\<close> loop as steps over what the scaler's /status answers, and \<open>summarize\<close>, which applies
  the fence downstream and measures the epochs. The decoding of a heartbeat's JSON is a parameter
  (\<open>None\<close>: an error, the record is skipped); the map of spans is an association list, whose order
  does not matter because the spans are sorted afterwards.
\<close>

record heartbeat =
  hb_Cluster :: string
  hb_Holder :: string
  hb_Epoch :: int
  hb_Seq :: int

subsection \<open>beat\<close>

text \<open>One tick: what status answered (\<open>None\<close>: an error), the sequence number, what is written.\<close>

definition beat_step ::
  "string \<Rightarrow> status_response option \<Rightarrow> int \<Rightarrow> heartbeat option \<times> int" where
  "beat_step cluster st seq =
     (case st of
        None \<Rightarrow> (None, seq)
      | Some s \<Rightarrow>
          if \<not> sr_Holding s then (None, seq)
          else let seq1 = i64_add seq 1
               in (Some \<lparr>hb_Cluster = cluster, hb_Holder = sr_Holder s, hb_Epoch = sr_Epoch s,
                        hb_Seq = seq1\<rparr>, seq1))"

fun beat_loop :: "string \<Rightarrow> status_response option list \<Rightarrow> int \<Rightarrow> heartbeat list" where
  "beat_loop cluster [] seq = []"
| "beat_loop cluster (st # sts) seq =
     (let (hb, seq') = beat_step cluster st seq
      in (case hb of None \<Rightarrow> [] | Some b \<Rightarrow> [b]) @ beat_loop cluster sts seq')"

subsection \<open>summarize\<close>

record epoch_span =
  sp_Epoch :: int
  sp_Cluster :: string
  sp_First :: gtime
  sp_Last :: gtime
  sp_Count :: int

record report =
  rp_Since :: gtime
  rp_Records :: int
  rp_Stale :: int
  rp_Epochs :: "epoch_span list"
  rp_Overlap :: duration
  rp_Gap :: duration

record topic_record =
  tr_Timestamp :: gtime
  tr_Value :: string

text \<open>The state of the first loop: stale records, the highest epoch, the spans by epoch.\<close>

record tally =
  ty_Stale :: int
  ty_maxEpoch :: int
  ty_spans :: "(int \<times> epoch_span) list"

definition tally0 :: tally where
  "tally0 = \<lparr>ty_Stale = 0, ty_maxEpoch = -1, ty_spans = []\<rparr>"

definition add_span :: "heartbeat \<Rightarrow> gtime \<Rightarrow> (int \<times> epoch_span) list \<Rightarrow> (int \<times> epoch_span) list" where
  "add_span hb t spans =
     (let sp = (case map_of spans (hb_Epoch hb) of
                  Some sp \<Rightarrow> sp
                | None \<Rightarrow> \<lparr>sp_Epoch = hb_Epoch hb, sp_Cluster = hb_Cluster hb, sp_First = t,
                           sp_Last = time_zero, sp_Count = 0\<rparr>)
      in AList.update (hb_Epoch hb) (sp\<lparr>sp_Last := t, sp_Count := sp_Count sp + 1\<rparr>) spans)"

definition tally_step :: "(string \<Rightarrow> heartbeat option) \<Rightarrow> topic_record \<Rightarrow> tally \<Rightarrow> tally" where
  "tally_step unmarshal r ty =
     (case unmarshal (tr_Value r) of
        None \<Rightarrow> ty
      | Some hb \<Rightarrow>
          \<lparr>ty_Stale = (if hb_Epoch hb < ty_maxEpoch ty then ty_Stale ty + 1 else ty_Stale ty),
           ty_maxEpoch = max (ty_maxEpoch ty) (hb_Epoch hb),
           ty_spans = add_span hb (tr_Timestamp r) (ty_spans ty)\<rparr>)"

text \<open>The last loop: overlap or gap of each pair of neighbours.\<close>

fun measure_spans :: "epoch_span list \<Rightarrow> duration \<times> duration \<Rightarrow> duration \<times> duration" where
  "measure_spans (p # c # rest) (overlap, gap) =
     (let d = time_Sub (sp_Last p) (sp_First c)
      in measure_spans (c # rest)
           (if 0 < d then (max overlap d, gap) else (overlap, max gap (i64_sub 0 d))))"
| "measure_spans _ og = og"

definition summarize ::
  "(string \<Rightarrow> heartbeat option) \<Rightarrow> topic_record list \<Rightarrow> gtime \<Rightarrow> report" where
  "summarize unmarshal records from =
     (let ty = fold (tally_step unmarshal) records tally0;
          epochs = sort_key sp_Epoch (map snd (ty_spans ty));
          (overlap, gap) = measure_spans epochs (0, 0)
      in \<lparr>rp_Since = from, rp_Records = int (length records), rp_Stale = ty_Stale ty,
         rp_Epochs = epochs, rp_Overlap = overlap, rp_Gap = gap\<rparr>)"


subsection \<open>The tally\<close>

text \<open>The heartbeats among the records, in order.\<close>

definition beats :: "(string \<Rightarrow> heartbeat option) \<Rightarrow> topic_record list \<Rightarrow> heartbeat list" where
  "beats unmarshal rs = List.map_filter (\<lambda>r. unmarshal (tr_Value r)) rs"

text \<open>Heartbeats with an earlier heartbeat of a higher epoch.\<close>

definition fenced :: "int list \<Rightarrow> nat" where
  "fenced es = length (filter (\<lambda>i. \<exists>j \<in> set [0..<i]. es ! i < es ! j) [0..<length es])"

lemma fenced_snoc: "fenced (es @ [e]) = fenced es + (if \<exists>x \<in> set es. e < x then 1 else 0)"
proof -
  have "filter (\<lambda>i. \<exists>j \<in> set [0..<i]. (es @ [e]) ! i < (es @ [e]) ! j) [0..<length es] =
      filter (\<lambda>i. \<exists>j \<in> set [0..<i]. es ! i < es ! j) [0..<length es]"
    by (intro filter_cong) (auto simp: nth_append)
  moreover have "(\<exists>j \<in> set [0..<length es]. e < (es @ [e]) ! j) \<longleftrightarrow> (\<exists>x \<in> set es. e < x)"
    by (force simp: in_set_conv_nth nth_append)
  ultimately show ?thesis by (simp add: fenced_def)
qed

lemma map_filter_snoc:
  "List.map_filter f (xs @ [x]) = List.map_filter f xs @ (case f x of None \<Rightarrow> [] | Some y \<Rightarrow> [y])"
  by (simp add: List.map_filter_def split: option.splits)

lemma tally_epochs:
  assumes "\<forall>hb \<in> set (beats um rs). -1 \<le> hb_Epoch hb"
  shows "ty_Stale (fold (tally_step um) rs tally0) = int (fenced (map hb_Epoch (beats um rs))) \<and>
    (\<forall>e. e < ty_maxEpoch (fold (tally_step um) rs tally0) \<longleftrightarrow>
       e < -1 \<or> (\<exists>hb \<in> set (beats um rs). e < hb_Epoch hb))"
  using assms
proof (induction rs rule: rev_induct)
  case Nil
  then show ?case by (simp add: tally0_def beats_def fenced_def List.map_filter_def)
next
  case (snoc r rs)
  show ?case
  proof (cases "um (tr_Value r)")
    case None
    with snoc show ?thesis by (simp add: beats_def map_filter_snoc tally_step_def)
  next
    case (Some hb)
    then have b: "beats um (rs @ [r]) = beats um rs @ [hb]"
      by (simp add: beats_def map_filter_snoc)
    with snoc have IH: "ty_Stale (fold (tally_step um) rs tally0) = int (fenced (map hb_Epoch (beats um rs)))"
      "\<And>e. e < ty_maxEpoch (fold (tally_step um) rs tally0) \<longleftrightarrow>
         e < -1 \<or> (\<exists>hb \<in> set (beats um rs). e < hb_Epoch hb)" and hb: "-1 \<le> hb_Epoch hb"
      by auto
    have step: "ty_Stale (tally_step um r ty) =
        (if hb_Epoch hb < ty_maxEpoch ty then ty_Stale ty + 1 else ty_Stale ty)"
      "ty_maxEpoch (tally_step um r ty) = max (ty_maxEpoch ty) (hb_Epoch hb)" for ty
      using Some by (simp_all add: tally_step_def)
    show ?thesis
      using IH hb by (auto simp: step b fenced_snoc less_max_iff_disj)
  qed
qed

text \<open>
  The spans: one per epoch, and each of the heartbeats of that epoch: when the first and the last
  came, of which cluster the first was, and how many there were.
\<close>

definition timed_beats :: "(string \<Rightarrow> heartbeat option) \<Rightarrow> topic_record list \<Rightarrow> (gtime \<times> heartbeat) list" where
  "timed_beats unmarshal rs =
     List.map_filter (\<lambda>r. map_option (Pair (tr_Timestamp r)) (unmarshal (tr_Value r))) rs"

definition beats_of :: "int \<Rightarrow> (gtime \<times> heartbeat) list \<Rightarrow> (gtime \<times> heartbeat) list" where
  "beats_of e tbs = filter (\<lambda>(t, hb). hb_Epoch hb = e) tbs"

definition span_of :: "int \<Rightarrow> (gtime \<times> heartbeat) list \<Rightarrow> epoch_span option" where
  "span_of e tbs =
     (if beats_of e tbs = [] then None
      else Some \<lparr>sp_Epoch = e, sp_Cluster = hb_Cluster (snd (hd (beats_of e tbs))),
                 sp_First = fst (hd (beats_of e tbs)), sp_Last = fst (last (beats_of e tbs)),
                 sp_Count = int (length (beats_of e tbs))\<rparr>)"

lemma span_of_SomeD:
  assumes "span_of e tbs = Some sp"
  shows "beats_of e tbs \<noteq> []" "sp_Epoch sp = e" "sp_Cluster sp = hb_Cluster (snd (hd (beats_of e tbs)))"
    "sp_First sp = fst (hd (beats_of e tbs))" "sp_Last sp = fst (last (beats_of e tbs))"
    "sp_Count sp = int (length (beats_of e tbs))"
  using assms by (auto simp: span_of_def split: if_splits)

lemma map_snd_timed_beats: "map snd (timed_beats um rs) = beats um rs"
  by (induction rs) (auto simp: timed_beats_def beats_def List.map_filter_def)

lemma timed_beats_snoc:
  "timed_beats um (rs @ [r]) = timed_beats um rs @
     (case um (tr_Value r) of None \<Rightarrow> [] | Some hb \<Rightarrow> [(tr_Timestamp r, hb)])"
  by (simp add: timed_beats_def map_filter_snoc split: option.splits)

lemma span_of_snoc:
  "span_of e (tbs @ [(t, hb)]) =
     (if e \<noteq> hb_Epoch hb then span_of e tbs
      else Some (case span_of e tbs of
        None \<Rightarrow> \<lparr>sp_Epoch = e, sp_Cluster = hb_Cluster hb, sp_First = t, sp_Last = t, sp_Count = 1\<rparr>
      | Some sp \<Rightarrow> sp\<lparr>sp_Last := t, sp_Count := sp_Count sp + 1\<rparr>))"
  by (auto simp: span_of_def beats_of_def)

lemma map_of_add_span:
  "map_of (add_span hb t sps) = (map_of sps)(hb_Epoch hb \<mapsto>
     (case map_of sps (hb_Epoch hb) of
        None \<Rightarrow> \<lparr>sp_Epoch = hb_Epoch hb, sp_Cluster = hb_Cluster hb, sp_First = t, sp_Last = t, sp_Count = 1\<rparr>
      | Some sp \<Rightarrow> sp\<lparr>sp_Last := t, sp_Count := sp_Count sp + 1\<rparr>))"
  by (simp add: add_span_def Let_def update_conv' split: option.splits)

lemma tally_spans:
  "distinct (map fst (ty_spans (fold (tally_step um) rs tally0))) \<and>
   (\<forall>e. map_of (ty_spans (fold (tally_step um) rs tally0)) e = span_of e (timed_beats um rs))"
proof (induction rs rule: rev_induct)
  case Nil
  then show ?case
    by (simp add: tally0_def timed_beats_def List.map_filter_def span_of_def beats_of_def)
next
  case (snoc r rs)
  show ?case
  proof (cases "um (tr_Value r)")
    case None
    with snoc show ?thesis by (simp add: tally_step_def timed_beats_snoc)
  next
    case (Some hb)
    then have "ty_spans (fold (tally_step um) (rs @ [r]) tally0) =
        add_span hb (tr_Timestamp r) (ty_spans (fold (tally_step um) rs tally0))"
      by (simp add: tally_step_def)
    moreover have "distinct (map fst sps) \<Longrightarrow> distinct (map fst (add_span hb t sps))" for t sps
      by (simp add: add_span_def Let_def distinct_update)
    ultimately show ?thesis
      using snoc Some by (simp add: map_of_add_span timed_beats_snoc span_of_snoc)
  qed
qed

lemma summarize_fields:
  "rp_Stale (summarize um rs from) = ty_Stale (fold (tally_step um) rs tally0)"
  "rp_Epochs (summarize um rs from) =
     sort_key sp_Epoch (map snd (ty_spans (fold (tally_step um) rs tally0)))"
  "rp_Records (summarize um rs from) = int (length rs)"
  by (simp_all add: summarize_def case_prod_unfold Let_def)

subsection \<open>Properties\<close>

text \<open>The answers that say the scaler holds the lease.\<close>

definition held_answers :: "status_response option list \<Rightarrow> status_response list" where
  "held_answers sts = filter sr_Holding (List.map_filter id sts)"

lemma held_answers_simps [simp]:
  "held_answers [] = []" "held_answers (None # sts) = held_answers sts"
  "held_answers (Some s # sts) = (if sr_Holding s then s # held_answers sts else held_answers sts)"
  by (simp_all add: held_answers_def List.map_filter_def)

lemma held_answers_length: "length (held_answers sts) \<le> length sts"
proof (induction sts)
  case (Cons st sts)
  then show ?case by (cases st) auto
qed simp

lemma beat_loop_seq:
  "seq + int (length sts) \<le> i64_max \<Longrightarrow> 0 \<le> seq \<Longrightarrow>
     map (\<lambda>b. (hb_Cluster b, hb_Holder b, hb_Epoch b)) (beat_loop cluster sts seq) =
       map (\<lambda>s. (cluster, sr_Holder s, sr_Epoch s)) (held_answers sts) \<and>
     map hb_Seq (beat_loop cluster sts seq) = [seq + 1..seq + int (length (held_answers sts))]"
proof (induction sts arbitrary: seq)
  case (Cons st sts)
  show ?case
  proof (cases "\<exists>s. st = Some s \<and> sr_Holding s")
    case False
    then have "beat_loop cluster (st # sts) seq = beat_loop cluster sts seq"
      "held_answers (st # sts) = held_answers sts"
      by (cases st; auto simp: beat_step_def)+
    with Cons show ?thesis by simp
  next
    case True
    then obtain s where s: "st = Some s" "sr_Holding s" by blast
    have "i64_add seq 1 = seq + 1"
      using Cons.prems by (intro i64_add_exact) (simp add: is_i64_def i64_min_def)
    then have "beat_loop cluster (st # sts) seq =
        \<lparr>hb_Cluster = cluster, hb_Holder = sr_Holder s, hb_Epoch = sr_Epoch s, hb_Seq = seq + 1\<rparr>
          # beat_loop cluster sts (seq + 1)"
      using s by (simp add: beat_step_def Let_def)
    moreover have "(seq + 1) # [seq + 1 + 1..seq + 1 + int n] = [seq + 1..seq + int (Suc n)]" for n
      using upto_rec1 [of "seq + 1" "seq + int (Suc n)"] by (simp add: algebra_simps)
    ultimately show ?thesis
      using Cons.IH [of "seq + 1"] Cons.prems s by simp
  qed
qed simp

text \<open>The workload writes one heartbeat for each status answer that says it holds the lease and none
  otherwise (an error of the scaler counts as not holding), each with the epoch of that answer, and
  numbers them consecutively from 1.\<close>
lemma beats_only_while_holding:
  assumes "int (length sts) \<le> i64_max"
  shows "map (\<lambda>b. (hb_Cluster b, hb_Holder b, hb_Epoch b)) (beat_loop cluster sts 0) =
      map (\<lambda>s. (cluster, sr_Holder s, sr_Epoch s)) (held_answers sts) \<and>
    map hb_Seq (beat_loop cluster sts 0) = [1..int (length (held_answers sts))]"
  using beat_loop_seq [of 0 sts cluster] assms by simp

definition some_status :: "bool \<Rightarrow> int \<Rightarrow> status_response" where
  "some_status h e = \<lparr>sr_Holder = ''a'', sr_Holding = h, sr_Epoch = e, sr_DeadlineIn = 0,
                      sr_Certain = True, sr_Lease = None, sr_AsOf = 0\<rparr>"

theorem beats_only_while_holding_witness:
  "map hb_Seq (beat_loop ''x'' [Some (some_status True 3), None, Some (some_status False 0),
     Some (some_status True 3)] 0) = [1, 2]"
proof -
  let ?sts = "[Some (some_status True 3), None, Some (some_status False 0), Some (some_status True 3)]"
  have "int (length ?sts) \<le> i64_max" by (simp add: i64_max_def)
  from beats_only_while_holding [OF this, of "''x''"]
  have "map hb_Seq (beat_loop ''x'' ?sts 0) = [1..2]" by (simp add: some_status_def)
  then show ?thesis by (simp add: upto_rec1)
qed

text \<open>The epochs of the report: one span per epoch that has a heartbeat, in increasing order.\<close>

lemma summarize_spans:
  "map sp_Epoch (rp_Epochs (summarize um rs from)) =
     sorted_list_of_set (hb_Epoch ` set (beats um rs))"
  "sp \<in> set (rp_Epochs (summarize um rs from)) \<Longrightarrow> span_of (sp_Epoch sp) (timed_beats um rs) = Some sp"
proof -
  let ?sps = "ty_spans (fold (tally_step um) rs tally0)" and ?tbs = "timed_beats um rs"
  have d: "distinct (map fst ?sps)" and m: "\<And>e. map_of ?sps e = span_of e ?tbs"
    using tally_spans [of um rs] by auto
  have own: "span_of e ?tbs = Some sp \<and> sp_Epoch sp = e" if "(e, sp) \<in> set ?sps" for e sp
    using that m [of e] map_of_is_SomeI [OF d that] by (auto simp: span_of_def split: if_splits)
  then have fst: "map sp_Epoch (map snd ?sps) = map fst ?sps" by auto
  have "fst ` set ?sps = {e. span_of e ?tbs \<noteq> None}"
    using m by (auto simp: dom_map_of_conv_image_fst [symmetric])
  also have "\<dots> = hb_Epoch ` snd ` set ?tbs"
    by (force simp: span_of_def beats_of_def filter_empty_conv image_iff)
  also have "\<dots> = hb_Epoch ` set (beats um rs)"
    using arg_cong [OF map_snd_timed_beats [of um rs], of set] by simp
  finally have set: "set (map sp_Epoch (map snd ?sps)) = hb_Epoch ` set (beats um rs)"
    using fst by (metis list.set_map)
  have ms: "mset (map sp_Epoch (sort_key sp_Epoch (map snd ?sps))) = mset (map sp_Epoch (map snd ?sps))"
    by (metis mset_map mset_sort)
  have "distinct (map sp_Epoch (sort_key sp_Epoch (map snd ?sps)))"
    using d fst mset_eq_imp_distinct_iff [OF ms] by argo
  moreover have "set (map sp_Epoch (sort_key sp_Epoch (map snd ?sps))) = hb_Epoch ` set (beats um rs)"
    using set mset_eq_setD [OF ms] by argo
  ultimately show "map sp_Epoch (rp_Epochs (summarize um rs from)) =
      sorted_list_of_set (hb_Epoch ` set (beats um rs))"
    by (intro sorted_distinct_set_unique) (simp_all add: summarize_fields)
  assume "sp \<in> set (rp_Epochs (summarize um rs from))"
  then obtain e where "(e, sp) \<in> set ?sps" by (auto simp: summarize_fields)
  with own show "span_of (sp_Epoch sp) ?tbs = Some sp" by blast
qed

text \<open>C26: the report counts as stale exactly the heartbeats that come after one of a higher epoch. It
  lists the epochs that have a heartbeat, each once and in increasing order, and of each epoch the
  time of its first and its last heartbeat, the cluster of the first, and how many there were.
  (The comment on the field says order of first appearance.)\<close>
theorem report_fences:
  assumes "\<forall>hb \<in> set (beats um rs). -1 \<le> hb_Epoch hb" "rep = summarize um rs from"
  shows "rp_Since rep = from \<and> rp_Records rep = int (length rs) \<and>
    rp_Stale rep = int (fenced (map hb_Epoch (beats um rs))) \<and>
    map sp_Epoch (rp_Epochs rep) = sorted_list_of_set (hb_Epoch ` set (beats um rs)) \<and>
    (\<forall>sp \<in> set (rp_Epochs rep).
       beats_of (sp_Epoch sp) (timed_beats um rs) \<noteq> [] \<and>
       (sp_First sp, sp_Cluster sp) =
         (\<lambda>(t, hb). (t, hb_Cluster hb)) (hd (beats_of (sp_Epoch sp) (timed_beats um rs))) \<and>
       sp_Last sp = fst (last (beats_of (sp_Epoch sp) (timed_beats um rs))) \<and>
       sp_Count sp = int (length (beats_of (sp_Epoch sp) (timed_beats um rs))))"
proof -
  have "beats_of (sp_Epoch sp) (timed_beats um rs) \<noteq> [] \<and>
      (sp_First sp, sp_Cluster sp) =
        (\<lambda>(t, hb). (t, hb_Cluster hb)) (hd (beats_of (sp_Epoch sp) (timed_beats um rs))) \<and>
      sp_Last sp = fst (last (beats_of (sp_Epoch sp) (timed_beats um rs))) \<and>
      sp_Count sp = int (length (beats_of (sp_Epoch sp) (timed_beats um rs)))"
    if "sp \<in> set (rp_Epochs rep)" for sp
    using span_of_SomeD [OF summarize_spans(2) [of sp um rs "from"]] that assms(2)
    by (simp add: case_prod_unfold)
  moreover have "rp_Since rep = from"
    by (simp add: assms(2) summarize_def case_prod_unfold Let_def)
  ultimately show ?thesis
    using tally_epochs [OF assms(1)] summarize_spans(1) [of um rs "from"]
    by (simp add: assms(2) summarize_fields)
qed

text \<open>A decoding for examples: the value is a list of one character per epoch.\<close>

definition by_length :: "string \<Rightarrow> heartbeat option" where
  "by_length v = (if v = [] then None
     else Some \<lparr>hb_Cluster = ''c'', hb_Holder = ''h'', hb_Epoch = int (length v), hb_Seq = 0\<rparr>)"

definition beat_at :: "gtime \<Rightarrow> nat \<Rightarrow> topic_record" where
  "beat_at t e = \<lparr>tr_Timestamp = t, tr_Value = replicate e (CHR ''x'')\<rparr>"

theorem report_fences_witness:
  "\<exists>rep. rep = summarize by_length [beat_at 1 1, beat_at 2 3, beat_at 3 2, beat_at 4 0, beat_at 5 3] 0 \<and>
     rp_Stale rep = 1 \<and> map sp_Epoch (rp_Epochs rep) = [1, 2, 3] \<and>
     (\<forall>sp \<in> set (rp_Epochs rep). sp_Epoch sp = 3 \<longrightarrow> sp_Count sp = 2 \<and> sp_First sp = 2 \<and> sp_Last sp = 5)"
proof -
  let ?rs = "[beat_at 1 1, beat_at 2 3, beat_at 3 2, beat_at 4 0, beat_at 5 3]"
  have "\<forall>hb \<in> set (beats by_length ?rs). -1 \<le> hb_Epoch hb"
    by (simp add: beats_def List.map_filter_def by_length_def beat_at_def)
  note r = report_fences [OF this refl, of 0]
  have "fenced (map hb_Epoch (beats by_length ?rs)) = 1"
    "sorted_list_of_set (hb_Epoch ` set (beats by_length ?rs)) = [1, 2, 3]"
    by code_simp+
  moreover have "map fst (beats_of 3 (timed_beats by_length ?rs)) = [2, 5]" by code_simp
  then obtain p q where "beats_of 3 (timed_beats by_length ?rs) = [p, q]" "fst p = 2" "fst q = 5"
    by (auto simp: map_eq_Cons_conv)
  ultimately show ?thesis using r by (auto simp: case_prod_unfold)
qed

text \<open>The overlap of the report is not the time two epochs both wrote: it takes the older epoch's
  last heartbeat against its neighbour's first, so epoch 2 writing from 10 to 20 within epoch 1's
  0 to 100 counts as 90, where both wrote for 10.\<close>
lemma overlap_overstated:
  "rp_Overlap (summarize by_length [beat_at 0 1, beat_at 10 2, beat_at 20 2, beat_at 100 1] 0) = 90"
  by code_simp

end
