(* ===== verification/HeartbeatCodec.thy ===== *)
theory HeartbeatCodec
  imports Heartbeat
begin

section \<open>Heartbeats on the wire (examples/heartbeat/main.go)\<close>

text \<open>
  What the workload writes as a message value and what the report reads back, over the bytes, with
  the encoding/json of theories \<open>Json\<close> and \<open>LeaseCodec\<close>. What the report relies on (a value the
  workload wrote decodes to the heartbeat) is the interface \<open>beat_codec\<close>.
\<close>

subsection \<open>Marshal and Unmarshal of a Heartbeat\<close>

definition marshal_heartbeat :: "heartbeat \<Rightarrow> string" where
  "marshal_heartbeat hb =
     CHR ''{'' # json_key ''cluster'' @ json_quote (hb_Cluster hb) @
     CHR '','' # json_key ''holder'' @ json_quote (hb_Holder hb) @
     CHR '','' # json_key ''epoch'' @ dec_int (hb_Epoch hb) @
     CHR '','' # json_key ''seq'' @ dec_int (hb_Seq hb) @ ''}''"

definition zero_heartbeat :: heartbeat where
  "zero_heartbeat = \<lparr>hb_Cluster = [], hb_Holder = [], hb_Epoch = 0, hb_Seq = 0\<rparr>"

definition set_beat :: "string \<Rightarrow> json \<Rightarrow> heartbeat \<Rightarrow> heartbeat option" where
  "set_beat k j hb =
     (let u = fold_key k in
      if u = ''CLUSTER'' then map_option (\<lambda>x. hb\<lparr>hb_Cluster := x\<rparr>) (set_string j (hb_Cluster hb))
      else if u = ''HOLDER'' then map_option (\<lambda>x. hb\<lparr>hb_Holder := x\<rparr>) (set_string j (hb_Holder hb))
      else if u = ''EPOCH'' then map_option (\<lambda>x. hb\<lparr>hb_Epoch := x\<rparr>) (set_int j (hb_Epoch hb))
      else if u = ''SEQ'' then map_option (\<lambda>x. hb\<lparr>hb_Seq := x\<rparr>) (set_int j (hb_Seq hb))
      else Some hb)"

fun set_beats :: "(string \<times> json) list \<Rightarrow> heartbeat \<Rightarrow> heartbeat option" where
  "set_beats [] hb = Some hb"
| "set_beats ((k, j) # kjs) hb =
     (case set_beat k j hb of None \<Rightarrow> None | Some hb' \<Rightarrow> set_beats kjs hb')"

definition unmarshal_heartbeat :: "string \<Rightarrow> heartbeat option" where
  "unmarshal_heartbeat b =
     (case parse_json b of
        Some (JObj kjs) \<Rightarrow> set_beats kjs zero_heartbeat
      | Some JNull \<Rightarrow> Some zero_heartbeat
      | _ \<Rightarrow> None)"

subsection \<open>The interface\<close>

text \<open>A codec of heartbeats, and what a report over the values of such a codec counts.\<close>

locale beat_codec =
  fixes marshal :: "heartbeat \<Rightarrow> string"
    and unmarshal :: "string \<Rightarrow> heartbeat option"
    and writable :: "heartbeat \<Rightarrow> bool"
  assumes unmarshal_marshal: "writable hb \<Longrightarrow> unmarshal (marshal hb) = Some hb"
begin

definition written :: "(gtime \<times> heartbeat) list \<Rightarrow> topic_record list" where
  "written xs = map (\<lambda>(t, hb). \<lparr>tr_Timestamp = t, tr_Value = marshal hb\<rparr>) xs"

lemma beats_written: "\<forall>x \<in> set xs. writable (snd x) \<Longrightarrow> beats unmarshal (written xs) = map snd xs"
  by (induction xs) (auto simp: beats_def written_def List.map_filter_def unmarshal_marshal)

text \<open>Nothing that was written is skipped.\<close>

lemma timed_written: "\<forall>x \<in> set xs. writable (snd x) \<Longrightarrow> timed_beats unmarshal (written xs) = xs"
  by (induction xs) (auto simp: timed_beats_def written_def List.map_filter_def unmarshal_marshal)

end

text \<open>Such a codec is one in the sense of theory \<open>LeaseCodec\<close> that never fails and keeps everything.\<close>

sublocale beat_codec \<subseteq> coded: value_codec
  "\<lambda>hb. (Inr (marshal hb) :: unit + string)"
  "\<lambda>b. case unmarshal b of None \<Rightarrow> Inl () | Some hb \<Rightarrow> Inr hb" writable id
  by unfold_locales (auto simp: unmarshal_marshal)

context beat_codec
begin

lemma marshal_inj: "writable a \<Longrightarrow> writable b \<Longrightarrow> marshal a = marshal b \<Longrightarrow> a = b"
  using coded.encode_inj [of a b] by simp

end

text \<open>What the workload can write: names in valid UTF-8, 64-bit numbers.\<close>

definition writable :: "heartbeat \<Rightarrow> bool" where
  "writable hb \<longleftrightarrow>
     valid_utf8 (hb_Cluster hb) \<and> valid_utf8 (hb_Holder hb) \<and> is_i64 (hb_Epoch hb) \<and> is_i64 (hb_Seq hb)"

definition beat_members :: "heartbeat \<Rightarrow> (string \<times> string) list" where
  "beat_members hb =
     [(''cluster'', json_quote (hb_Cluster hb)), (''holder'', json_quote (hb_Holder hb)),
      (''epoch'', dec_int (hb_Epoch hb)), (''seq'', dec_int (hb_Seq hb))]"

lemma beat_keys:
  "plain_key ''cluster''" "plain_key ''seq''" "fold_key ''cluster'' = ''CLUSTER''"
  "fold_key ''holder'' = ''HOLDER''" "fold_key ''epoch'' = ''EPOCH''" "fold_key ''seq'' = ''SEQ''"
  by code_simp+

lemma parse_json_heartbeat:
  assumes "writable hb"
  shows "parse_json (marshal_heartbeat hb) =
    Some (JObj [(''cluster'', JStr (hb_Cluster hb)), (''holder'', JStr (hb_Holder hb)),
                (''epoch'', JNum (dec_int (hb_Epoch hb))), (''seq'', JNum (dec_int (hb_Seq hb)))])"
proof -
  let ?vs = "[JStr (hb_Cluster hb), JStr (hb_Holder hb), JNum (dec_int (hb_Epoch hb)), JNum (dec_int (hb_Seq hb))]"
  have "list_all2 member_ok (beat_members hb) ?vs"
    using assms beat_keys(1,2) keys_plain(3,4)
    by (simp add: beat_members_def writable_def member_ok_num member_ok_str)
  from parse_json_object [OF this] show ?thesis
    by (simp add: marshal_heartbeat_def beat_members_def)
qed

interpretation beat: beat_codec marshal_heartbeat unmarshal_heartbeat writable
  by unfold_locales
    (simp add: unmarshal_heartbeat_def parse_json_heartbeat set_beat_def beat_keys set_string_def set_int_def
      writable_def parse_int64_dec zero_heartbeat_def)

subsection \<open>Properties\<close>

text \<open>C40: what the workload writes is what the report reads: the bytes of a heartbeat (names in valid
  UTF-8, 64-bit numbers) decode to the same heartbeat, so different heartbeats have different bytes.\<close>
theorem heartbeat_roundtrip:
  assumes "writable a" "writable b"
  shows "unmarshal_heartbeat (marshal_heartbeat a) = Some a \<and>
    (marshal_heartbeat a = marshal_heartbeat b \<longleftrightarrow> a = b)"
  using beat.unmarshal_marshal [OF assms(1)] beat.marshal_inj [OF assms] by blast

theorem heartbeat_roundtrip_witness:
  "unmarshal_heartbeat (marshal_heartbeat
     \<lparr>hb_Cluster = ''eu-1'', hb_Holder = ''pod/ab'', hb_Epoch = 42, hb_Seq = 7\<rparr>) =
   Some \<lparr>hb_Cluster = ''eu-1'', hb_Holder = ''pod/ab'', hb_Epoch = 42, hb_Seq = 7\<rparr>"
proof -
  have "plain_key ''eu-1''" "plain_key ''pod/ab''" by code_simp+
  then have "writable \<lparr>hb_Cluster = ''eu-1'', hb_Holder = ''pod/ab'', hb_Epoch = 42, hb_Seq = 7\<rparr>"
    using plain_key_quote by (simp add: writable_def is_i64_def i64_min_def i64_max_def)
  from heartbeat_roundtrip [OF this this] show ?thesis by simp
qed

end
