(* ===== verification/Flags.thy ===== *)
theory Flags
  imports Prelude
begin

section \<open>The command line (Go's flag package, as cmd/ and examples/ use it)\<close>

text \<open>
  What \<open>FlagSet.Parse\<close> makes of the arguments for sets with \<open>ExitOnError\<close> and flags of type string,
  bool and duration: flags as \<open>-name=value\<close>, \<open>-name value\<close> (not for bool) or \<open>-name\<close> (bool only), with
  one or two dashes, up to the first argument that is none or to \<open>--\<close>; a later flag overrides an
  earlier one. The parser of durations is a parameter.
\<close>

datatype flag_kind = StringFlag | BoolFlag | DurationFlag

text \<open>The values that were set, by flag name.\<close>

record cmdline =
  cl_string :: "string \<rightharpoonup> string"
  cl_bool :: "string \<rightharpoonup> bool"
  cl_duration :: "string \<rightharpoonup> duration"

definition no_flags :: cmdline where
  "no_flags = \<lparr>cl_string = Map.empty, cl_bool = Map.empty, cl_duration = Map.empty\<rparr>"

text \<open>\<open>strconv.ParseBool\<close>.\<close>

definition parse_bool :: "string \<Rightarrow> bool option" where
  "parse_bool s =
     (if s \<in> {''1'', ''t'', ''T'', ''TRUE'', ''true'', ''True''} then Some True
      else if s \<in> {''0'', ''f'', ''F'', ''FALSE'', ''false'', ''False''} then Some False
      else None)"

definition set_flag ::
  "(string \<Rightarrow> duration option) \<Rightarrow> flag_kind \<Rightarrow> string \<Rightarrow> string \<Rightarrow> cmdline \<Rightarrow> cmdline option" where
  "set_flag parse_duration k name val cl =
     (case k of
        StringFlag \<Rightarrow> Some (cl\<lparr>cl_string := (cl_string cl)(name \<mapsto> val)\<rparr>)
      | BoolFlag \<Rightarrow> map_option (\<lambda>b. cl\<lparr>cl_bool := (cl_bool cl)(name \<mapsto> b)\<rparr>) (parse_bool val)
      | DurationFlag \<Rightarrow>
          map_option (\<lambda>d. cl\<lparr>cl_duration := (cl_duration cl)(name \<mapsto> d)\<rparr>) (parse_duration val))"

text \<open>The name of a flag and what follows its first equals sign, which is not the first character.\<close>

definition cut_value :: "string \<Rightarrow> string \<times> string option" where
  "cut_value s =
     (let name = takeWhile (\<lambda>c. c \<noteq> CHR ''='') s; rest = dropWhile (\<lambda>c. c \<noteq> CHR ''='') s
      in (name, if rest = [] then None else Some (tl rest)))"

text \<open>How \<open>ExitOnError\<close> ends the process: the usage was asked for, or an argument is wrong.\<close>

datatype flag_exit = FlagHelp | FlagError

fun exit_status :: "flag_exit \<Rightarrow> nat" where
  "exit_status FlagHelp = 0"
| "exit_status FlagError = 2"

fun parse_flags ::
  "(string \<rightharpoonup> flag_kind) \<Rightarrow> (string \<Rightarrow> duration option) \<Rightarrow> string list \<Rightarrow> cmdline \<Rightarrow> flag_exit + cmdline" where
  "parse_flags formal parse_duration [] cl = Inr cl"
| "parse_flags formal parse_duration (s # args) cl =
     (if length s < 2 \<or> hd s \<noteq> CHR ''-'' then Inr cl
      else if s = ''--'' then Inr cl
      else
        let arg = (if s ! 1 = CHR ''-'' then drop 2 s else drop 1 s)
        in if arg = [] \<or> hd arg = CHR ''-'' \<or> hd arg = CHR ''='' then Inl FlagError
           else
             let (name, given) = cut_value arg
             in case formal name of
                  None \<Rightarrow> Inl (if name = ''help'' \<or> name = ''h'' then FlagHelp else FlagError)
                | Some k \<Rightarrow>
                    (case (if k = BoolFlag \<and> given = None then Some ''true'' else given) of
                       Some val \<Rightarrow>
                         (case set_flag parse_duration k name val cl of
                            None \<Rightarrow> Inl FlagError
                          | Some cl' \<Rightarrow> parse_flags formal parse_duration args cl')
                     | None \<Rightarrow>
                         (case args of
                            [] \<Rightarrow> Inl FlagError
                          | val # args' \<Rightarrow>
                              (case set_flag parse_duration k name val cl of
                                 None \<Rightarrow> Inl FlagError
                               | Some cl' \<Rightarrow> parse_flags formal parse_duration args' cl'))))"

text \<open>The value of a flag, its default when it was not set.\<close>

definition string_flag :: "cmdline \<Rightarrow> string \<Rightarrow> string \<Rightarrow> string" where
  "string_flag cl name def = (case cl_string cl name of Some v \<Rightarrow> v | None \<Rightarrow> def)"

definition bool_flag :: "cmdline \<Rightarrow> string \<Rightarrow> bool \<Rightarrow> bool" where
  "bool_flag cl name def = (case cl_bool cl name of Some v \<Rightarrow> v | None \<Rightarrow> def)"

definition duration_flag :: "cmdline \<Rightarrow> string \<Rightarrow> duration \<Rightarrow> duration" where
  "duration_flag cl name def = (case cl_duration cl name of Some v \<Rightarrow> v | None \<Rightarrow> def)"

subsection \<open>Properties\<close>

text \<open>A flag written as \<open>-name=value\<close> sets just that, and parsing goes on behind it.\<close>

lemma parse_flag_assignment:
  assumes "name \<noteq> []" "hd name \<noteq> CHR ''-''" "CHR ''='' \<notin> set name" "formal name = Some k"
    and "set_flag pd k name val cl = Some cl'"
  shows "parse_flags formal pd ((CHR ''-'' # name @ CHR ''='' # val) # args) cl = parse_flags formal pd args cl'"
proof -
  have no: "\<forall>c \<in> set name. c \<noteq> CHR ''=''" using assms(3) by blast
  then have "takeWhile (\<lambda>c. c \<noteq> CHR ''='') (name @ CHR ''='' # val) = name"
    "dropWhile (\<lambda>c. c \<noteq> CHR ''='') (name @ CHR ''='' # val) = CHR ''='' # val"
    by (simp_all add: takeWhile_append dropWhile_append)
  then have cut: "cut_value (name @ CHR ''='' # val) = (name, Some val)" by (simp add: cut_value_def)
  have n: "name ! 0 \<noteq> CHR ''-''" "(name @ CHR ''='' # val) ! 0 = name ! 0"
    using assms(1,2) by (auto simp: hd_conv_nth nth_append)
  moreover have "hd name \<noteq> CHR ''=''" using assms(1,3) hd_in_set by metis
  ultimately show ?thesis using assms cut by (auto simp: Let_def split: option.splits)
qed

text \<open>A whole command line of such assignments to string flags: the last one counts.\<close>

lemma parse_assignments:
  assumes "\<forall>(n, v) \<in> set xs. n \<noteq> [] \<and> hd n \<noteq> CHR ''-'' \<and> CHR ''='' \<notin> set n \<and> formal n = Some StringFlag"
  shows "parse_flags formal pd (map (\<lambda>(n, v). CHR ''-'' # n @ CHR ''='' # v) xs) cl =
    Inr (cl\<lparr>cl_string := cl_string cl ++ map_of (rev xs)\<rparr>)"
  using assms
proof (induction xs arbitrary: cl)
  case (Cons x xs)
  obtain n v where x: "x = (n, v)" by (cases x)
  have "parse_flags formal pd ((CHR ''-'' # n @ CHR ''='' # v) #
      map (\<lambda>(n, v). CHR ''-'' # n @ CHR ''='' # v) xs) cl =
    parse_flags formal pd (map (\<lambda>(n, v). CHR ''-'' # n @ CHR ''='' # v) xs)
      (cl\<lparr>cl_string := (cl_string cl)(n \<mapsto> v)\<rparr>)"
    using Cons.prems x by (intro parse_flag_assignment) (auto simp: set_flag_def)
  with Cons x show ?case by simp
qed simp

end
