(* ===== verification/ScalerMain.thy ===== *)
theory ScalerMain
  imports Scaler Flags
begin

section \<open>The scaler command (cmd/kfklease-scaler/main.go)\<close>

text \<open>
  How the environment and the flags become a configuration, and what the command makes of the
  events it waits for. Parameters: the environment, the arguments, the duration parser, and the
  outcome of each call to the outside.
\<close>

definition env :: "(string \<Rightarrow> string option) \<Rightarrow> string \<Rightarrow> string \<Rightarrow> string" where
  "env environ name def = (case environ name of Some v \<Rightarrow> v | None \<Rightarrow> def)"

text \<open>\<open>None\<close> is the exit with status 2.\<close>

definition envDuration ::
  "(string \<Rightarrow> string option) \<Rightarrow> (string \<Rightarrow> duration option) \<Rightarrow> string \<Rightarrow> duration \<Rightarrow> duration option" where
  "envDuration environ parse_duration name def =
     (case environ name of None \<Rightarrow> Some def | Some v \<Rightarrow> parse_duration v)"

text \<open>\<open>strings.Split(s, ",")\<close>: one piece more than there are commas.\<close>

fun split_comma :: "string \<Rightarrow> string list" where
  "split_comma [] = [[]]"
| "split_comma (c # cs) =
     (if c = CHR '','' then [] # split_comma cs
      else case split_comma cs of
             [] \<Rightarrow> [[c]]
           | w # ws \<Rightarrow> (c # w) # ws)"

record settings =
  fl_brokers :: string
  fl_topic :: string
  fl_holder :: string
  fl_ttl :: duration
  fl_margin :: duration
  fl_createTopic :: bool
  fl_listen :: string
  fl_httpListen :: string
  fl_logLevel :: string
  fl_auth :: auth

text \<open>The flags that are defined.\<close>

definition scaler_flags :: "string \<rightharpoonup> flag_kind" where
  "scaler_flags = map_of
     [(''brokers'', StringFlag), (''topic'', StringFlag), (''holder'', StringFlag),
      (''ttl'', DurationFlag), (''margin'', DurationFlag), (''create-topic'', BoolFlag),
      (''listen'', StringFlag), (''http-listen'', StringFlag), (''log-level'', StringFlag),
      (''tls'', BoolFlag), (''tls-ca-file'', StringFlag), (''tls-cert-file'', StringFlag),
      (''tls-key-file'', StringFlag), (''tls-server-name'', StringFlag),
      (''tls-insecure-skip-verify'', BoolFlag), (''sasl-mechanism'', StringFlag),
      (''sasl-username'', StringFlag), (''sasl-username-file'', StringFlag),
      (''sasl-password'', StringFlag), (''sasl-password-file'', StringFlag),
      (''sasl-token'', StringFlag), (''sasl-token-file'', StringFlag)]"

text \<open>
  The settings, or the status the process exits with: of \<open>envDuration\<close>, which reads the defaults
  from the environment while the flags are defined, or of \<open>flag.Parse\<close>.
\<close>

definition read_settings ::
  "(string \<Rightarrow> string option) \<Rightarrow> (string \<Rightarrow> duration option) \<Rightarrow> string list \<Rightarrow> nat + settings" where
  "read_settings environ parse_duration args =
     (case envDuration environ parse_duration ''KFKLEASE_TTL'' (10 * Second) of
        None \<Rightarrow> Inl 2
      | Some ttl \<Rightarrow>
          (case envDuration environ parse_duration ''KFKLEASE_MARGIN'' 0 of
             None \<Rightarrow> Inl 2
           | Some margin \<Rightarrow>
              (case parse_flags scaler_flags parse_duration args no_flags of
                 Inl e \<Rightarrow> Inl (exit_status e)
               | Inr cl \<Rightarrow>
               let str = (\<lambda>flag name def. string_flag cl flag (env environ name def));
                   getenv = (\<lambda>name. env environ name []);
                   bool = (\<lambda>flag name def. bool_flag cl flag (env environ name def = ''true''))
               in Inr
                 \<lparr>fl_brokers = str ''brokers'' ''KFKLEASE_BROKERS'' [],
                  fl_topic = str ''topic'' ''KFKLEASE_TOPIC'' [],
                  fl_holder = str ''holder'' ''KFKLEASE_HOLDER'' [],
                  fl_ttl = duration_flag cl ''ttl'' ttl,
                  fl_margin = duration_flag cl ''margin'' margin,
                  fl_createTopic = bool ''create-topic'' ''KFKLEASE_CREATE_TOPIC'' ''true'',
                  fl_listen = str ''listen'' ''KFKLEASE_LISTEN'' '':9090'',
                  fl_httpListen = str ''http-listen'' ''KFKLEASE_HTTP_LISTEN'' '':9091'',
                  fl_logLevel = str ''log-level'' ''KFKLEASE_LOG_LEVEL'' ''info'',
                  fl_auth =
                    \<lparr>a_TLS =
                       \<lparr>t_Enabled = bool ''tls'' ''KFKLEASE_TLS'' ''false'',
                        t_CA = getenv ''KFKLEASE_TLS_CA'',
                        t_CAFile = str ''tls-ca-file'' ''KFKLEASE_TLS_CA_FILE'' [],
                        t_Cert = getenv ''KFKLEASE_TLS_CERT'',
                        t_CertFile = str ''tls-cert-file'' ''KFKLEASE_TLS_CERT_FILE'' [],
                        t_Key = getenv ''KFKLEASE_TLS_KEY'',
                        t_KeyFile = str ''tls-key-file'' ''KFKLEASE_TLS_KEY_FILE'' [],
                        t_ServerName = str ''tls-server-name'' ''KFKLEASE_TLS_SERVER_NAME'' [],
                        t_InsecureSkipVerify = bool ''tls-insecure-skip-verify''
                          ''KFKLEASE_TLS_INSECURE_SKIP_VERIFY'' ''false''\<rparr>,
                     a_SASL =
                       \<lparr>s_Mechanism = str ''sasl-mechanism'' ''KFKLEASE_SASL_MECHANISM'' [],
                        s_Username = str ''sasl-username'' ''KFKLEASE_SASL_USERNAME'' [],
                        s_UsernameFile = str ''sasl-username-file'' ''KFKLEASE_SASL_USERNAME_FILE'' [],
                        s_Password = str ''sasl-password'' ''KFKLEASE_SASL_PASSWORD'' [],
                        s_PasswordFile = str ''sasl-password-file'' ''KFKLEASE_SASL_PASSWORD_FILE'' [],
                        s_Token = str ''sasl-token'' ''KFKLEASE_SASL_TOKEN'' [],
                        s_TokenFile = str ''sasl-token-file'' ''KFKLEASE_SASL_TOKEN_FILE'' []\<rparr>\<rparr>\<rparr>)))"

definition candidate_config :: "settings \<Rightarrow> config" where
  "candidate_config f =
     \<lparr>c_Brokers = split_comma (fl_brokers f), c_Topic = fl_topic f, c_Partition = 0,
      c_CreateTopic = fl_createTopic f, c_Holder = fl_holder f, c_TTL = fl_ttl f,
      c_Margin = fl_margin f, c_RenewEvery = 0, c_Auth = fl_auth f, c_Logger = Some DefaultLogger,
      c_ClientOpts = []\<rparr>"

datatype main_error =
    BadLogLevel
  | BrokersAndTopicRequired
  | BadConfig config_error
  | ListenFailed string
  | CandidateStopped
  | RunFailed run_error
  | ServeFailed string

text \<open>What the final select finds; with each, what \<open>Run\<close> returns by then.\<close>

datatype main_event =
    RunReturned "run_error option"
  | ServeReturned string "run_error option"
  | Signalled "run_error option"

fun main_select :: "main_event \<Rightarrow> main_error option" where
  "main_select (RunReturned None) = Some CandidateStopped"
| "main_select (RunReturned (Some e)) = Some (RunFailed e)"
| "main_select (ServeReturned e _) = Some (ServeFailed e)"
| "main_select (Signalled r) = map_option RunFailed r"

text \<open>
  \<open>run\<close> after the flags: its error (\<open>None\<close> inside: nil), or \<open>None\<close> for the panic of \<open>scaler.New\<close>.
\<close>

definition main_run ::
  "string \<Rightarrow> nat list option \<Rightarrow> settings \<Rightarrow> bool \<Rightarrow> string option \<Rightarrow> main_event \<Rightarrow> main_error option option" where
  "main_run host rand f level_ok listen_err ev =
     (if \<not> level_ok then Some (Some BadLogLevel)
      else if fl_brokers f = [] \<or> fl_topic f = [] then Some (Some BrokersAndTopicRequired)
      else case NewCandidate host rand (candidate_config f) of
             Inl e \<Rightarrow> Some (Some (BadConfig e))
           | Inr c \<Rightarrow>
               (case listen_err of
                  Some e \<Rightarrow> Some (Some (ListenFailed e))
                | None \<Rightarrow>
                    (case New (fl_topic f) (fl_ttl f) of
                       None \<Rightarrow> None
                     | Some _ \<Rightarrow> Some (main_select ev))))"

text \<open>
  \<open>main\<close>: the exit status. 2 is also what the Go runtime exits with after a panic; \<open>level_ok\<close> says
  which log levels parse.
\<close>

definition scaler_main ::
  "string \<Rightarrow> nat list option \<Rightarrow> (string \<Rightarrow> string option) \<Rightarrow> (string \<Rightarrow> duration option) \<Rightarrow>
     string list \<Rightarrow> (string \<Rightarrow> bool) \<Rightarrow> string option \<Rightarrow> main_event \<Rightarrow> nat" where
  "scaler_main host rand environ parse_duration args level_ok listen_err ev =
     (case read_settings environ parse_duration args of
        Inl status \<Rightarrow> status
      | Inr f \<Rightarrow>
          (case main_run host rand f (level_ok (fl_logLevel f)) listen_err ev of
             None \<Rightarrow> 2
           | Some err \<Rightarrow> (if err \<noteq> None then 1 else 0)))"

subsection \<open>Properties\<close>

fun_cases main_select_NoneE: "main_select ev = None"

lemma split_comma_not_Nil: "split_comma s \<noteq> []"
  by (induction s) (auto split: list.splits)

text \<open>The command never panics, whatever its environment and flags, and it ends without an error
  only when a signal stopped it and the run, which releases the lease, returned without one; then
  the configuration had passed.\<close>
lemma command_ends_cleanly:
  "main_run host rand f level_ok listen_err ev \<noteq> None \<and>
   (main_run host rand f level_ok listen_err ev = Some None \<longleftrightarrow>
      level_ok \<and> fl_brokers f \<noteq> [] \<and> fl_topic f \<noteq> [] \<and> listen_err = None \<and> ev = Signalled None \<and>
      (\<exists>c. NewCandidate host rand (candidate_config f) = Inr c))"
proof (cases "NewCandidate host rand (candidate_config f)")
  case (Inl e)
  then show ?thesis by (simp add: main_run_def)
next
  case (Inr c)
  then obtain cfg where "withDefaults host rand (candidate_config f) = Inr cfg"
    by (auto simp: NewCandidate_def split: sum.splits)
  from withDefaults_cases(3,7) [OF this] have "0 < fl_ttl f" by (simp add: candidate_config_def)
  then have new: "\<exists>s. New (fl_topic f) (fl_ttl f) = Some s" by (simp add: New_def)
  have sel: "main_select ev = None \<longleftrightarrow> ev = Signalled None"
    by (auto elim: main_select_NoneE)
  show ?thesis using Inr new sel by (auto simp: main_run_def split: option.splits)
qed

lemma exit_status_eq: "exit_status e = (if e = FlagHelp then 0 else 2)"
  by (cases e) simp_all

lemma FlagError_iff: "e = FlagError \<longleftrightarrow> e \<noteq> FlagHelp"
  by (cases e) simp_all

text \<open>What keeps the command from its settings.\<close>

lemma read_settings_Inl:
  "read_settings environ pd args = Inl status \<longleftrightarrow>
     (if envDuration environ pd ''KFKLEASE_TTL'' (10 * Second) = None \<or>
         envDuration environ pd ''KFKLEASE_MARGIN'' 0 = None
      then status = 2
      else (\<exists>e. parse_flags scaler_flags pd args no_flags = Inl e \<and> status = exit_status e))"
  by (auto simp: read_settings_def Let_def split: option.splits sum.splits)

text \<open>C39: how the command ends: with status 2 exactly when KFKLEASE_TTL or KFKLEASE_MARGIN is set to
  no duration or else an argument is not a flag it has or has a bad value, so never by the panic of
  scaler.New; with status 0 exactly when the usage was asked for (-h, -help), or when a signal
  stopped it with accepted settings and the run, which releases the lease, then returned without
  an error; and with status 1 in every other case.\<close>
theorem command_exit_status:
  "(scaler_main host rand environ pd args level_ok listen_err ev = 2 \<longleftrightarrow>
     envDuration environ pd ''KFKLEASE_TTL'' (10 * Second) = None \<or>
     envDuration environ pd ''KFKLEASE_MARGIN'' 0 = None \<or>
     parse_flags scaler_flags pd args no_flags = Inl FlagError) \<and>
   (scaler_main host rand environ pd args level_ok listen_err ev = 0 \<longleftrightarrow>
     envDuration environ pd ''KFKLEASE_TTL'' (10 * Second) \<noteq> None \<and>
     envDuration environ pd ''KFKLEASE_MARGIN'' 0 \<noteq> None \<and>
     (parse_flags scaler_flags pd args no_flags = Inl FlagHelp \<or>
      (\<exists>f c. read_settings environ pd args = Inr f \<and> level_ok (fl_logLevel f) \<and>
         fl_brokers f \<noteq> [] \<and> fl_topic f \<noteq> [] \<and> NewCandidate host rand (candidate_config f) = Inr c \<and>
         listen_err = None \<and> ev = Signalled None))) \<and>
   scaler_main host rand environ pd args level_ok listen_err ev \<in> {0, 1, 2}"
proof (cases "read_settings environ pd args")
  case (Inl status)
  then have "scaler_main host rand environ pd args level_ok listen_err ev = status"
    by (simp add: scaler_main_def)
  then show ?thesis
    using Inl Inl [unfolded read_settings_Inl]
    by (auto simp: exit_status_eq FlagError_iff split: if_splits)
next
  case (Inr f)
  then have ok: "envDuration environ pd ''KFKLEASE_TTL'' (10 * Second) \<noteq> None"
    "envDuration environ pd ''KFKLEASE_MARGIN'' 0 \<noteq> None"
    "\<not> (\<exists>e. parse_flags scaler_flags pd args no_flags = Inl e)"
    by (auto simp: read_settings_def split: option.splits sum.splits)
  with Inr command_ends_cleanly [of host rand f "level_ok (fl_logLevel f)" listen_err ev]
  show ?thesis by (auto simp: scaler_main_def split: option.splits)
qed

text \<open>An argument overrides the environment, the last one counts.\<close>
lemma topic_argument_wins:
  "(\<forall>n. environ n \<noteq> None \<longrightarrow> n = ''KFKLEASE_TOPIC'') \<Longrightarrow>
   \<exists>f. read_settings environ pd [''-topic=a'', ''--topic'', ''b''] = Inr f \<and> fl_topic f = ''b''"
  by (auto simp: read_settings_def envDuration_def scaler_flags_def no_flags_def cut_value_def
      set_flag_def string_flag_def Let_def split: option.splits)

end
