(* ===== verification/HeartbeatMain.thy ===== *)
theory HeartbeatMain
  imports HeartbeatCodec ScalerMain "HOL-Library.Sublist"
begin

section \<open>The heartbeat command (examples/heartbeat/main.go)\<close>

text \<open>
  The two commands around theories \<open>Heartbeat\<close> and \<open>HeartbeatCodec\<close>: \<open>beat\<close> with its settings, the
  creation of its topic and its query of /status, and \<open>report\<close> with the loop that reads the topic
  until it is quiet. Parameters: the environment and the duration parser as in theory
  \<open>ScalerMain\<close>, the clients' answers, the body decoder of /status and the parser of times. The loop
  of the report is a partial function; \<open>report_returns\<close> says when it ends.
\<close>

subsection \<open>Settings\<close>

definition hb_env :: "(string \<Rightarrow> string option) \<Rightarrow> string \<Rightarrow> string \<Rightarrow> string" where
  "hb_env environ name def = (case environ name of Some v \<Rightarrow> v | None \<Rightarrow> def)"

record beat_settings =
  bs_brokers :: string
  bs_topic :: string
  bs_statusURL :: string
  bs_cluster :: string
  bs_every :: duration

definition beat_flags :: "(string \<Rightarrow> string option) \<Rightarrow> cmdline \<Rightarrow> beat_settings" where
  "beat_flags environ cl =
     \<lparr>bs_brokers = string_flag cl ''brokers'' (hb_env environ ''HEARTBEAT_BROKERS'' []),
      bs_topic = string_flag cl ''topic'' (hb_env environ ''HEARTBEAT_TOPIC'' ''kfklease-heartbeats''),
      bs_statusURL = string_flag cl ''status-url''
        (hb_env environ ''KFKLEASE_STATUS_URL'' ''http://kfklease:9091/status''),
      bs_cluster = string_flag cl ''cluster'' (hb_env environ ''CLUSTER'' []),
      bs_every = duration_flag cl ''every'' (200 * Millisecond)\<rparr>"

record report_settings =
  rs_brokers :: string
  rs_topic :: string
  rs_since :: string
  rs_settle :: duration
  rs_asJSON :: bool

definition report_flags :: "(string \<Rightarrow> string option) \<Rightarrow> cmdline \<Rightarrow> report_settings" where
  "report_flags environ cl =
     \<lparr>rs_brokers = string_flag cl ''brokers'' (hb_env environ ''HEARTBEAT_BROKERS'' []),
      rs_topic = string_flag cl ''topic'' (hb_env environ ''HEARTBEAT_TOPIC'' ''kfklease-heartbeats''),
      rs_since = string_flag cl ''since'' [], rs_settle = duration_flag cl ''settle'' (2 * Second),
      rs_asJSON = bool_flag cl ''json'' False\<rparr>"

subsection \<open>beat\<close>

text \<open>\<open>strings.Contains\<close>.\<close>

fun contains :: "string \<Rightarrow> string \<Rightarrow> bool" where
  "contains w [] \<longleftrightarrow> w = []"
| "contains w (c # cs) \<longleftrightarrow> prefix w (c # cs) \<or> contains w cs"

text \<open>\<open>ensureTopic\<close> on the text of the admin client's error, if any.\<close>

definition ensure_beat_topic :: "string option \<Rightarrow> string option" where
  "ensure_beat_topic err =
     (case err of
        Some e \<Rightarrow> (if contains ''TOPIC_ALREADY_EXISTS'' e then None else Some e)
      | None \<Rightarrow> None)"

text \<open>
  \<open>status\<close>: a request that could not be made or answered, or an answer; \<open>None\<close> is an error. The last
  line returns \<open>st\<close> and the error of Decode(&st); the model takes \<open>st\<close> after decoding, as the
  compiler does and the language leaves open.
\<close>

record http_answer =
  ha_StatusCode :: int
  ha_Body :: string

definition query_status ::
  "(string \<Rightarrow> status_response option) \<Rightarrow> string + http_answer \<Rightarrow> status_response option" where
  "query_status decode ans =
     (case ans of
        Inl _ \<Rightarrow> None
      | Inr a \<Rightarrow> if ha_StatusCode a \<noteq> 200 then None else decode (ha_Body a))"

record beat_message =
  bm_Topic :: string
  bm_Key :: string
  bm_Value :: string

text \<open>What the select finds: a done context or the ticker, then the answer of /status.\<close>

datatype beat_event = BeatDone | BeatTick "string + http_answer"

text \<open>The messages produced and whether the loop has returned.\<close>

fun beat_select ::
  "(string \<Rightarrow> status_response option) \<Rightarrow> beat_settings \<Rightarrow> beat_event list \<Rightarrow> int \<Rightarrow>
     beat_message list \<times> bool" where
  "beat_select decode bs [] seq = ([], False)"
| "beat_select decode bs (BeatDone # _) seq = ([], True)"
| "beat_select decode bs (BeatTick ans # evs) seq =
     (let (hb, seq') = beat_step (bs_cluster bs) (query_status decode ans) seq;
          out = (case hb of
                   None \<Rightarrow> []
                 | Some b \<Rightarrow> [\<lparr>bm_Topic = bs_topic bs, bm_Key = bs_cluster bs,
                             bm_Value = marshal_heartbeat b\<rparr>]);
          (ms, fin) = beat_select decode bs evs seq'
      in (out @ ms, fin))"

datatype beat_error = BrokersAndClusterRequired | BeatClientFailed string | BeatTopicFailed string

text \<open>\<open>time.NewTicker\<close> panics on an interval that is not positive.\<close>

datatype beat_end = BeatReturned "beat_error option" | BeatRunning | BeatPanicked

definition beat ::
  "beat_settings \<Rightarrow> string option \<Rightarrow> string option \<Rightarrow> (string \<Rightarrow> status_response option) \<Rightarrow>
     beat_event list \<Rightarrow> beat_message list \<times> beat_end" where
  "beat bs client_err create_err decode evs =
     (if bs_brokers bs = [] \<or> bs_cluster bs = [] then ([], BeatReturned (Some BrokersAndClusterRequired))
      else case client_err of
        Some e \<Rightarrow> ([], BeatReturned (Some (BeatClientFailed e)))
      | None \<Rightarrow>
          (case ensure_beat_topic create_err of
             Some e \<Rightarrow> ([], BeatReturned (Some (BeatTopicFailed e)))
           | None \<Rightarrow>
               if bs_every bs \<le> 0 then ([], BeatPanicked)
               else let (ms, fin) = beat_select decode bs evs 0
                    in (ms, if fin then BeatReturned None else BeatRunning)))"

subsection \<open>report\<close>

text \<open>
  One poll of the topic: its error, its records, the clock when \<open>quietSince\<close> is set and the clock at
  the next test of the loop.
\<close>

record report_poll =
  pl_Err :: "fetch_error option"
  pl_Records :: "topic_record list"
  pl_read :: gtime
  pl_checked :: gtime

definition fatal :: "fetch_error option \<Rightarrow> fetch_error option" where
  "fatal err = (if err = Some FetchDeadline then None else err)"

definition kept :: "gtime \<Rightarrow> topic_record \<Rightarrow> bool" where
  "kept from r \<longleftrightarrow> \<not> (\<not> time_IsZero from \<and> time_Before (tr_Timestamp r) from)"

partial_function (option) report_loop ::
  "(nat \<Rightarrow> report_poll) \<Rightarrow> duration \<Rightarrow> gtime \<Rightarrow> nat \<Rightarrow> gtime \<Rightarrow> gtime \<Rightarrow> topic_record list \<Rightarrow>
     (fetch_error + topic_record list) option" where
  "report_loop polls quiet_for from n quiet now recs =
     (if \<not> time_Sub now quiet < quiet_for then Some (Inr recs)
      else case fatal (pl_Err (polls n)) of
        Some e \<Rightarrow> Some (Inl e)
      | None \<Rightarrow>
          report_loop polls quiet_for from (Suc n)
            (if pl_Records (polls n) = [] then quiet else pl_read (polls n)) (pl_checked (polls n))
            (recs @ filter (kept from) (pl_Records (polls n))))"

datatype report_error =
    BrokersRequired
  | BadSince
  | ReportClientFailed string
  | ReportFetchFailed fetch_error

text \<open>\<open>report\<close>; \<open>None\<close>: it never returns. \<open>start\<close> is the clock when the loop begins.\<close>

definition heartbeat_report ::
  "report_settings \<Rightarrow> (string \<Rightarrow> gtime option) \<Rightarrow> string option \<Rightarrow> gtime \<Rightarrow> gtime \<Rightarrow> (nat \<Rightarrow> report_poll) \<Rightarrow>
     (report_error + report) option" where
  "heartbeat_report rs parse_time client_err start checked polls =
     (if rs_brokers rs = [] then Some (Inl BrokersRequired)
      else case (if rs_since rs = [] then Some time_zero else parse_time (rs_since rs)) of
        None \<Rightarrow> Some (Inl BadSince)
      | Some from \<Rightarrow>
          (case client_err of
             Some e \<Rightarrow> Some (Inl (ReportClientFailed e))
           | None \<Rightarrow>
               (case report_loop polls (rs_settle rs) from 0 start checked [] of
                  None \<Rightarrow> None
                | Some (Inl e) \<Rightarrow> Some (Inl (ReportFetchFailed e))
                | Some (Inr recs) \<Rightarrow> Some (Inr (summarize unmarshal_heartbeat recs from)))))"

subsection \<open>main\<close>

definition beat_flag_set :: "string \<rightharpoonup> flag_kind" where
  "beat_flag_set = map_of
     [(''brokers'', StringFlag), (''topic'', StringFlag), (''status-url'', StringFlag),
      (''cluster'', StringFlag), (''every'', DurationFlag)]"

definition report_flag_set :: "string \<rightharpoonup> flag_kind" where
  "report_flag_set = map_of
     [(''brokers'', StringFlag), (''topic'', StringFlag), (''since'', StringFlag),
      (''settle'', DurationFlag), (''json'', BoolFlag)]"

text \<open>
  The exit status of \<open>beat\<close> on its arguments: of \<open>flag.Parse\<close>, of \<open>main\<close> for what it returns, of the
  Go runtime for a panic (2); \<open>None\<close> while it runs.
\<close>

definition beat_status ::
  "(string \<Rightarrow> string option) \<Rightarrow> (string \<Rightarrow> duration option) \<Rightarrow> string option \<Rightarrow> string option \<Rightarrow>
     (string \<Rightarrow> status_response option) \<Rightarrow> beat_event list \<Rightarrow> string list \<Rightarrow> nat option" where
  "beat_status environ parse_duration client_err create_err decode evs args =
     (case parse_flags beat_flag_set parse_duration args no_flags of
        Inl e \<Rightarrow> Some (exit_status e)
      | Inr cl \<Rightarrow>
          (case snd (beat (beat_flags environ cl) client_err create_err decode evs) of
             BeatReturned err \<Rightarrow> Some (if err \<noteq> None then 1 else 0)
           | BeatPanicked \<Rightarrow> Some 2
           | BeatRunning \<Rightarrow> None))"

text \<open>Of \<open>report\<close>; printing as JSON may fail (\<open>print_fails\<close>), the errors of Printf are ignored.\<close>

definition report_status ::
  "(string \<Rightarrow> string option) \<Rightarrow> (string \<Rightarrow> duration option) \<Rightarrow> (string \<Rightarrow> gtime option) \<Rightarrow>
     string option \<Rightarrow> gtime \<Rightarrow> gtime \<Rightarrow> (nat \<Rightarrow> report_poll) \<Rightarrow> (report \<Rightarrow> bool) \<Rightarrow> string list \<Rightarrow>
     nat option" where
  "report_status environ parse_duration parse_time client_err start checked polls print_fails args =
     (case parse_flags report_flag_set parse_duration args no_flags of
        Inl e \<Rightarrow> Some (exit_status e)
      | Inr cl \<Rightarrow>
          (case heartbeat_report (report_flags environ cl) parse_time client_err start checked polls of
             None \<Rightarrow> None
           | Some (Inl _) \<Rightarrow> Some 1
           | Some (Inr rep) \<Rightarrow>
               Some (if rs_asJSON (report_flags environ cl) \<and> print_fails rep then 1 else 0)))"

definition heartbeat_main ::
  "(string list \<Rightarrow> nat option) \<Rightarrow> (string list \<Rightarrow> nat option) \<Rightarrow> string list \<Rightarrow> nat option" where
  "heartbeat_main beat_command report_command args =
     (if length args < 2 then Some 2
      else if args ! 1 = ''beat'' then beat_command (drop 2 args)
      else if args ! 1 = ''report'' then report_command (drop 2 args)
      else Some 1)"

subsection \<open>The loop of the report ends\<close>

lemma report_loop_step:
  assumes "time_Sub now quiet < quiet_for" "fatal (pl_Err (polls n)) = None"
  shows "report_loop polls quiet_for from n quiet now recs =
    report_loop polls quiet_for from (Suc n)
      (if pl_Records (polls n) = [] then quiet else pl_read (polls n)) (pl_checked (polls n))
      (recs @ filter (kept from) (pl_Records (polls n)))"
  using assms by (subst report_loop.simps) simp

lemma report_loop_quiet:
  "\<not> time_Sub now quiet < quiet_for \<Longrightarrow> report_loop polls quiet_for from n quiet now recs = Some (Inr recs)"
  by (subst report_loop.simps) simp

lemma report_loop_fatal:
  "time_Sub now quiet < quiet_for \<Longrightarrow> fatal (pl_Err (polls n)) = Some e \<Longrightarrow>
     report_loop polls quiet_for from n quiet now recs = Some (Inl e)"
  by (subst report_loop.simps) simp

text \<open>
  The n-th test of the loop: the clock it reads, the time of the last records before it, what was
  kept by then, and whether the topic has been quiet long enough.
\<close>

definition tested_at :: "(nat \<Rightarrow> report_poll) \<Rightarrow> gtime \<Rightarrow> nat \<Rightarrow> gtime" where
  "tested_at polls checked n = (case n of 0 \<Rightarrow> checked | Suc m \<Rightarrow> pl_checked (polls m))"

fun quiet_since :: "(nat \<Rightarrow> report_poll) \<Rightarrow> gtime \<Rightarrow> nat \<Rightarrow> gtime" where
  "quiet_since polls start 0 = start"
| "quiet_since polls start (Suc n) =
     (if pl_Records (polls n) = [] then quiet_since polls start n else pl_read (polls n))"

definition polled :: "(nat \<Rightarrow> report_poll) \<Rightarrow> nat \<Rightarrow> topic_record list" where
  "polled polls n = concat (map (\<lambda>i. pl_Records (polls i)) [0..<n])"

definition settled :: "(nat \<Rightarrow> report_poll) \<Rightarrow> duration \<Rightarrow> gtime \<Rightarrow> gtime \<Rightarrow> nat \<Rightarrow> bool" where
  "settled polls quiet_for start checked n \<longleftrightarrow>
     quiet_for \<le> time_Sub (tested_at polls checked n) (quiet_since polls start n)"

lemma kept_iff: "kept t0 r \<longleftrightarrow> t0 = 0 \<or> t0 \<le> tr_Timestamp r"
  by (auto simp: kept_def go_simps)

text \<open>The loop after n polls.\<close>

abbreviation report_at ::
  "(nat \<Rightarrow> report_poll) \<Rightarrow> duration \<Rightarrow> gtime \<Rightarrow> gtime \<Rightarrow> gtime \<Rightarrow> nat \<Rightarrow> (fetch_error + topic_record list) option" where
  "report_at polls quiet_for t0 start checked n \<equiv>
     report_loop polls quiet_for t0 n (quiet_since polls start n) (tested_at polls checked n)
       (filter (kept t0) (polled polls n))"

lemma report_at_next:
  assumes "\<not> settled polls quiet_for start checked n" "fatal (pl_Err (polls n)) = None"
  shows "report_at polls quiet_for t0 start checked n = report_at polls quiet_for t0 start checked (Suc n)"
proof -
  have "time_Sub (tested_at polls checked n) (quiet_since polls start n) < quiet_for"
    using assms(1) by (simp add: settled_def)
  from report_loop_step [of _ _ quiet_for polls n, OF this assms(2)] show ?thesis
    by (simp add: tested_at_def polled_def)
qed

lemma report_at_reached:
  "\<forall>i < n. \<not> settled polls quiet_for start checked i \<and> fatal (pl_Err (polls i)) = None \<Longrightarrow>
     report_at polls quiet_for t0 start checked 0 = report_at polls quiet_for t0 start checked n"
  by (induction n) (simp_all add: report_at_next)

text \<open>What the loop gives when it stops after n polls.\<close>

definition stops_with ::
  "(nat \<Rightarrow> report_poll) \<Rightarrow> duration \<Rightarrow> gtime \<Rightarrow> gtime \<Rightarrow> gtime \<Rightarrow> nat \<Rightarrow> fetch_error + topic_record list \<Rightarrow> bool" where
  "stops_with polls quiet_for t0 start checked n y \<longleftrightarrow>
     (if settled polls quiet_for start checked n then y = Inr (filter (kept t0) (polled polls n))
      else \<exists>e. fatal (pl_Err (polls n)) = Some e \<and> y = Inl e)"

lemma report_at_stops:
  assumes "stops_with polls quiet_for t0 start checked n y"
  shows "report_at polls quiet_for t0 start checked n = Some y"
proof (cases "settled polls quiet_for start checked n")
  case True
  with assms show ?thesis by (simp add: report_loop_quiet stops_with_def settled_def)
next
  case False
  with assms report_loop_fatal [of _ _ quiet_for polls n] show ?thesis
    by (auto simp: stops_with_def settled_def)
qed

text \<open>The loop returns only what some poll count stops it with.\<close>

lemma report_loop_returns:
  assumes "report_loop polls quiet_for t0 n quiet now recs = Some y"
  shows "quiet = quiet_since polls start n \<Longrightarrow> now = tested_at polls checked n \<Longrightarrow>
     recs = filter (kept t0) (polled polls n) \<Longrightarrow>
     \<exists>m \<ge> n. (\<forall>i. n \<le> i \<and> i < m \<longrightarrow>
         \<not> settled polls quiet_for start checked i \<and> fatal (pl_Err (polls i)) = None) \<and>
       stops_with polls quiet_for t0 start checked m y"
  using assms
proof (induction rule: report_loop.raw_induct [rotated 1, consumes 1])
  case (1 loop polls quiet_for t0 n quiet now recs y)
  let ?s = "settled polls quiet_for start checked"
  have s: "?s n \<longleftrightarrow> \<not> time_Sub now quiet < quiet_for"
    unfolding settled_def 1(3,4) by (simp add: not_less)
  show ?case
  proof (cases "?s n \<or> fatal (pl_Err (polls n)) \<noteq> None")
    case True
    then have "stops_with polls quiet_for t0 start checked n y"
      using 1(2,5) s by (auto simp: stops_with_def split: if_splits)
    then show ?thesis by (intro exI [of _ n]) auto
  next
    case False
    then have "loop polls quiet_for t0 (Suc n)
        (if pl_Records (polls n) = [] then quiet else pl_read (polls n)) (pl_checked (polls n))
        (recs @ filter (kept t0) (pl_Records (polls n))) = Some y"
      using 1(2) s by simp
    from 1(1) [OF this] 1(3-5) obtain m where m: "Suc n \<le> m"
      "\<forall>i. Suc n \<le> i \<and> i < m \<longrightarrow> \<not> ?s i \<and> fatal (pl_Err (polls i)) = None"
      "stops_with polls quiet_for t0 start checked m y"
      by (auto simp: tested_at_def polled_def)
    have "\<not> ?s i \<and> fatal (pl_Err (polls i)) = None" if "n \<le> i" "i < m" for i
      using m(2) False that by (cases "i = n") auto
    with m show ?thesis by (intro exI [of _ m]) auto
  qed
qed

lemma report_loop_outcome:
  "report_loop polls quiet_for t0 0 start checked [] = Some y \<longleftrightarrow>
     (\<exists>n. (\<forall>i < n. \<not> settled polls quiet_for start checked i \<and> fatal (pl_Err (polls i)) = None) \<and>
        stops_with polls quiet_for t0 start checked n y)" (is "_ \<longleftrightarrow> (\<exists>n. ?on n)")
proof -
  have zero: "report_loop polls quiet_for t0 0 start checked [] = report_at polls quiet_for t0 start checked 0"
    by (simp add: tested_at_def polled_def)
  show ?thesis
  proof
    assume "report_loop polls quiet_for t0 0 start checked [] = Some y"
    from report_loop_returns [OF this, of start checked] obtain m where
      "\<forall>i. 0 \<le> i \<and> i < m \<longrightarrow> \<not> settled polls quiet_for start checked i \<and> fatal (pl_Err (polls i)) = None"
      "stops_with polls quiet_for t0 start checked m y"
      by (auto simp: tested_at_def polled_def)
    then show "\<exists>n. ?on n" by (intro exI [of _ m]) simp
  next
    assume "\<exists>n. ?on n"
    then obtain n where n: "\<forall>i < n. \<not> settled polls quiet_for start checked i \<and> fatal (pl_Err (polls i)) = None"
      "stops_with polls quiet_for t0 start checked n y" by blast
    from report_at_stops [OF n(2)] report_at_reached [OF n(1), of t0] zero
    show "report_loop polls quiet_for t0 0 start checked [] = Some y" by argo
  qed
qed

text \<open>A topic that falls quiet: the loop stops once the clock is far enough.\<close>

lemma time_Sub_reaches: "is_i64 d \<Longrightarrow> t + d \<le> now \<Longrightarrow> d \<le> time_Sub now t"
  by (auto simp: time_Sub_def i64_sat_def is_i64_def min_def max_def)

lemma settled_at_last:
  assumes "is_i64 quiet_for" "\<forall>i \<ge> N. pl_Records (polls i) = []"
    and "\<forall>T m. \<exists>k \<ge> m. T \<le> pl_checked (polls k)"
  shows "\<exists>n. settled polls quiet_for start checked n"
proof -
  obtain k where k: "N \<le> k" "quiet_since polls start N + quiet_for \<le> pl_checked (polls k)"
    using assms(3) by blast
  have still: "quiet_since polls start n = quiet_since polls start N" if "N \<le> n" for n
    using that
  proof (induction n rule: dec_induct)
    case (step m)
    then have "pl_Records (polls m) = []" using assms(2) by blast
    with step.IH show ?case by simp
  qed simp
  have "quiet_since polls start (Suc k) = quiet_since polls start N" by (rule still) (use k(1) in simp)
  with time_Sub_reaches [OF assms(1) k(2)] have "settled polls quiet_for start checked (Suc k)"
    by (simp only: settled_def tested_at_def nat.case)
  then show ?thesis ..
qed

lemma report_loop_ends:
  assumes "settled polls quiet_for start checked n"
  shows "\<exists>y. report_loop polls quiet_for t0 0 start checked [] = Some y"
proof -
  let ?stop = "\<lambda>i. settled polls quiet_for start checked i \<or> fatal (pl_Err (polls i)) \<noteq> None"
  define m where "m = (LEAST i. ?stop i)"
  have stop: "?stop m" unfolding m_def by (rule LeastI [of ?stop n]) (use assms in simp)
  have before: "\<not> ?stop i" if "i < m" for i using not_less_Least that unfolding m_def by blast
  obtain y where "stops_with polls quiet_for t0 start checked m y"
    using stop by (cases "settled polls quiet_for start checked m") (auto simp: stops_with_def)
  with before show ?thesis unfolding report_loop_outcome by blast
qed

subsection \<open>What beat writes\<close>

text \<open>The answers of /status until the context is done.\<close>

fun status_answers :: "beat_event list \<Rightarrow> (string + http_answer) list" where
  "status_answers [] = []"
| "status_answers (BeatDone # _) = []"
| "status_answers (BeatTick a # evs) = a # status_answers evs"

lemma beat_select_loop:
  "fst (beat_select decode bs evs seq) =
     map (\<lambda>b. \<lparr>bm_Topic = bs_topic bs, bm_Key = bs_cluster bs, bm_Value = marshal_heartbeat b\<rparr>)
       (beat_loop (bs_cluster bs) (map (query_status decode) (status_answers evs)) seq)"
  by (induction evs arbitrary: seq rule: status_answers.induct)
    (auto simp: case_prod_unfold Let_def split: option.splits)

lemma length_status_answers: "length (status_answers evs) \<le> length evs"
  by (induction evs rule: status_answers.induct) auto

lemma held_answers_set: "s \<in> set (held_answers sts) \<longleftrightarrow> Some s \<in> set sts \<and> sr_Holding s"
  by (induction sts) (auto split: option.splits simp: held_answers_def List.map_filter_def)

subsection \<open>Properties\<close>

text \<open>C25: the workload writes, under the name of its cluster, one message for each answer of /status
  that says it holds the lease and none otherwise (an error counts as not holding); each decodes to
  a heartbeat with the holder and the epoch of that answer, and they are numbered from 1.\<close>
theorem beat_writes_while_holding:
  assumes "beat bs client_err create_err decode evs = (ms, e)" "e = BeatReturned None \<or> e = BeatRunning"
    and "int (length evs) \<le> i64_max" "valid_utf8 (bs_cluster bs)"
    and "\<forall>b s. decode b = Some s \<longrightarrow> valid_utf8 (sr_Holder s) \<and> is_i64 (sr_Epoch s)"
  shows "\<exists>hbs. map (\<lambda>m. unmarshal_heartbeat (bm_Value m)) ms = map Some hbs \<and>
    (\<forall>m \<in> set ms. bm_Key m = bs_cluster bs \<and> bm_Topic m = bs_topic bs) \<and>
    map (\<lambda>b. (hb_Cluster b, hb_Holder b, hb_Epoch b)) hbs =
      map (\<lambda>s. (bs_cluster bs, sr_Holder s, sr_Epoch s))
        (held_answers (map (query_status decode) (status_answers evs))) \<and>
    map hb_Seq hbs = [1..int (length hbs)]"
proof -
  let ?sts = "map (query_status decode) (status_answers evs)"
  let ?hbs = "beat_loop (bs_cluster bs) ?sts 0"
  have ms: "ms = fst (beat_select decode bs evs 0)"
    using assms(1,2) by (auto simp: beat_def case_prod_unfold Let_def split: if_splits option.splits)
  have "0 + int (length ?sts) \<le> i64_max" using length_status_answers [of evs] assms(3) by simp
  note seq = beat_loop_seq [OF this order_refl, of "bs_cluster bs"]
  from arg_cong [OF conjunct1 [OF seq], of length]
  have len: "length ?hbs = length (held_answers ?sts)" by simp
  have "writable b" if b: "b \<in> set ?hbs" for b
  proof -
    have "(hb_Cluster b, hb_Holder b, hb_Epoch b) \<in>
        set (map (\<lambda>s. (bs_cluster bs, sr_Holder s, sr_Epoch s)) (held_answers ?sts))"
      using b conjunct1 [OF seq] by (metis (no_types, lifting) image_eqI list.set_map)
    then obtain s a where s: "query_status decode a = Some s" "hb_Cluster b = bs_cluster bs"
      "hb_Holder b = sr_Holder s" "hb_Epoch b = sr_Epoch s"
      by (force simp: held_answers_set)
    have "hb_Seq b \<in> set [0 + 1..0 + int (length (held_answers ?sts))]"
      using b conjunct2 [OF seq] by (metis image_eqI list.set_map)
    then have "is_i64 (hb_Seq b)"
      using held_answers_length [of ?sts] length_status_answers [of evs] assms(3)
      by (simp add: is_i64_def i64_min_def)
    with s assms(4,5) show ?thesis
      by (auto simp: writable_def query_status_def split: sum.splits if_splits)
  qed
  then have "map (\<lambda>m. unmarshal_heartbeat (bm_Value m)) ms = map Some ?hbs"
    by (simp add: ms beat_select_loop beat.unmarshal_marshal)
  with seq len show ?thesis
    by (intro exI [of _ ?hbs]) (auto simp: ms beat_select_loop)
qed

definition sample_beat :: beat_settings where
  "sample_beat = \<lparr>bs_brokers = ''b:1'', bs_topic = ''h'', bs_statusURL = ''u'', bs_cluster = ''eu'',
                  bs_every = Second\<rparr>"

definition sample_decode :: "string \<Rightarrow> status_response option" where
  "sample_decode b = (if b = [] then None else Some (some_status (b = ''y'') 3))"

theorem beat_writes_while_holding_witness:
  "\<exists>ms. beat sample_beat None (Some ''x: TOPIC_ALREADY_EXISTS'') sample_decode
      [BeatTick (Inr \<lparr>ha_StatusCode = 200, ha_Body = ''y''\<rparr>), BeatTick (Inl ''refused''),
       BeatTick (Inr \<lparr>ha_StatusCode = 200, ha_Body = ''n''\<rparr>), BeatDone] = (ms, BeatReturned None) \<and>
    length ms = 1"
proof -
  let ?evs = "[BeatTick (Inr \<lparr>ha_StatusCode = 200, ha_Body = ''y''\<rparr>), BeatTick (Inl ''refused''),
       BeatTick (Inr \<lparr>ha_StatusCode = 200, ha_Body = ''n''\<rparr>), BeatDone]"
  let ?run = "beat sample_beat None (Some ''x: TOPIC_ALREADY_EXISTS'') sample_decode ?evs"
  have "contains ''TOPIC_ALREADY_EXISTS'' ''x: TOPIC_ALREADY_EXISTS''" by code_simp
  then have fin: "snd ?run = BeatReturned None"
    by (simp add: beat_def sample_beat_def ensure_beat_topic_def Second_def case_prod_unfold Let_def
        del: contains.simps)
  then obtain ms where run: "?run = (ms, BeatReturned None)" by (metis prod.collapse)
  have "plain_key ''eu''" "plain_key ''a''" by code_simp+
  then have v: "valid_utf8 (bs_cluster sample_beat)"
    "\<forall>b s. sample_decode b = Some s \<longrightarrow> valid_utf8 (sr_Holder s) \<and> is_i64 (sr_Epoch s)"
    using plain_key_quote
    by (auto simp: sample_beat_def sample_decode_def some_status_def is_i64_def i64_min_def i64_max_def)
  have "int (length ?evs) \<le> i64_max" by (simp add: i64_max_def)
  from beat_writes_while_holding [OF run _ this v] obtain hbs where
    "map (\<lambda>m. unmarshal_heartbeat (bm_Value m)) ms = map Some hbs"
    "map (\<lambda>b. (hb_Cluster b, hb_Holder b, hb_Epoch b)) hbs =
      map (\<lambda>s. (''eu'', sr_Holder s, sr_Epoch s)) (held_answers (map (query_status sample_decode) (status_answers ?evs)))"
    by (auto simp: sample_beat_def)
  from this [THEN arg_cong [of _ _ length]] have "length ms = 1"
    by (simp add: query_status_def sample_decode_def some_status_def)
  with run show ?thesis by blast
qed

text \<open>C24: when the report returns and what. With brokers, a good -since and a client, it stops at the first
  test of its loop that comes -settle or more after the last poll that brought records (or the
  start), and reports the summary of the records polled by then that are not before -since; or at
  the first poll before that which fails otherwise than by a deadline, with that error. It returns
  nothing else, so while no test comes that late and no poll fails it does not return; on a topic
  that falls quiet it does, as soon as the clock moves on.\<close>
theorem report_returns:
  assumes "rs_brokers rs \<noteq> []" "client_err = None"
    and "(if rs_since rs = [] then Some 0 else parse_time (rs_since rs)) = Some t0"
  shows "(\<forall>y. heartbeat_report rs parse_time client_err start checked polls = Some y \<longleftrightarrow>
      (\<exists>n. (\<forall>i < n. \<not> settled polls (rs_settle rs) start checked i \<and> fatal (pl_Err (polls i)) = None) \<and>
         (if rs_settle rs \<le> time_Sub (tested_at polls checked n) (quiet_since polls start n)
          then y = Inr (summarize unmarshal_heartbeat
                 (filter (\<lambda>r. t0 = 0 \<or> t0 \<le> tr_Timestamp r)
                    (concat (map (\<lambda>i. pl_Records (polls i)) [0..<n]))) t0)
          else \<exists>e. pl_Err (polls n) = Some e \<and> e \<noteq> FetchDeadline \<and> y = Inl (ReportFetchFailed e)))) \<and>
    (is_i64 (rs_settle rs) \<and> (\<exists>N. \<forall>i \<ge> N. pl_Records (polls i) = []) \<and>
       (\<forall>u m. \<exists>k \<ge> m. u \<le> pl_checked (polls k)) \<longrightarrow>
     (\<exists>y. heartbeat_report rs parse_time client_err start checked polls = Some y))"
proof -
  let ?loop = "report_loop polls (rs_settle rs) t0 0 start checked []"
  have "(if rs_since rs = [] then Some time_zero else parse_time (rs_since rs)) = Some t0"
    using assms(3) by (simp add: go_simps split: if_splits)
  then have rep: "heartbeat_report rs parse_time client_err start checked polls =
      map_option (map_sum ReportFetchFailed (\<lambda>recs. summarize unmarshal_heartbeat recs t0)) ?loop"
    using assms(1,2) by (simp add: heartbeat_report_def split: option.splits sum.splits)
  have stop: "(\<exists>x. stops_with polls (rs_settle rs) t0 start checked n x \<and>
        y = map_sum ReportFetchFailed (\<lambda>recs. summarize unmarshal_heartbeat recs t0) x) \<longleftrightarrow>
      (if rs_settle rs \<le> time_Sub (tested_at polls checked n) (quiet_since polls start n)
       then y = Inr (summarize unmarshal_heartbeat
              (filter (\<lambda>r. t0 = 0 \<or> t0 \<le> tr_Timestamp r)
                 (concat (map (\<lambda>i. pl_Records (polls i)) [0..<n]))) t0)
       else \<exists>e. pl_Err (polls n) = Some e \<and> e \<noteq> FetchDeadline \<and> y = Inl (ReportFetchFailed e))" for n y
    by (auto simp: stops_with_def settled_def polled_def fatal_def kept_iff [abs_def])
  have "heartbeat_report rs parse_time client_err start checked polls = Some y \<longleftrightarrow>
      (\<exists>n. (\<forall>i < n. \<not> settled polls (rs_settle rs) start checked i \<and> fatal (pl_Err (polls i)) = None) \<and>
         (\<exists>x. stops_with polls (rs_settle rs) t0 start checked n x \<and>
            y = map_sum ReportFetchFailed (\<lambda>recs. summarize unmarshal_heartbeat recs t0) x))" for y
    unfolding rep by (auto simp: report_loop_outcome)
  moreover have "\<exists>y. heartbeat_report rs parse_time client_err start checked polls = Some y"
    if "is_i64 (rs_settle rs)" "\<forall>i \<ge> N. pl_Records (polls i) = []"
      "\<forall>u m. \<exists>k \<ge> m. u \<le> pl_checked (polls k)" for N
    using settled_at_last [OF that] report_loop_ends [of polls "rs_settle rs" start checked _ t0]
    unfolding rep by auto
  ultimately show ?thesis unfolding stop by blast
qed

definition sample_polls :: "nat \<Rightarrow> report_poll" where
  "sample_polls i = \<lparr>pl_Err = (if i < 3 then None else Some FetchDeadline),
     pl_Records = (if i < 3 then [\<lparr>tr_Timestamp = int i * Second, tr_Value = []\<rparr>] else []),
     pl_read = int i * Second, pl_checked = int i * Second\<rparr>"

definition sample_report :: report_settings where
  "sample_report = \<lparr>rs_brokers = ''b:1'', rs_topic = ''h'', rs_since = ''1s'', rs_settle = 2 * Second,
                    rs_asJSON = False\<rparr>"

theorem report_returns_witness:
  "\<exists>rep. heartbeat_report sample_report (\<lambda>s. Some Second) None 0 0 sample_polls = Some (Inr rep) \<and>
     rp_Records rep = 2 \<and> rp_Since rep = Second"
proof -
  let ?recs = "filter (\<lambda>r. Second = 0 \<or> Second \<le> tr_Timestamp r)
    (concat (map (\<lambda>i. pl_Records (sample_polls i)) [0..<5]))"
  have loop: "\<forall>i \<in> set [0..<5]. \<not> settled sample_polls (rs_settle sample_report) 0 0 i \<and>
      fatal (pl_Err (sample_polls i)) = None"
    "rs_settle sample_report \<le> time_Sub (tested_at sample_polls 0 5) (quiet_since sample_polls 0 5)"
    "length ?recs = 2"
    by code_simp+
  have "rs_brokers sample_report \<noteq> []"
    "(if rs_since sample_report = [] then Some 0 else Some Second) = Some Second"
    by (simp_all add: sample_report_def)
  from report_returns [OF this(1) refl this(2), THEN conjunct1, THEN spec, THEN iffD2,
      OF exI, of 5 sample_polls 0 0 "Inr (summarize unmarshal_heartbeat ?recs Second)"] loop
  have "heartbeat_report sample_report (\<lambda>s. Some Second) None 0 0 sample_polls =
      Some (Inr (summarize unmarshal_heartbeat ?recs Second))" by simp
  with loop(3) show ?thesis
    by (simp add: summarize_fields summarize_def case_prod_unfold Let_def)
qed

text \<open>Beat does not check its interval: it panics exactly when that is not positive and everything
  before it went well, so after it has created its topic.\<close>
lemma beat_panics:
  "snd (beat bs client_err create_err decode evs) = BeatPanicked \<longleftrightarrow>
     bs_every bs \<le> 0 \<and> bs_brokers bs \<noteq> [] \<and> bs_cluster bs \<noteq> [] \<and> client_err = None \<and>
     ensure_beat_topic create_err = None"
  by (auto simp: beat_def case_prod_unfold Let_def split: option.splits)

lemma beat_select_ends: "snd (beat_select decode bs evs seq) \<longleftrightarrow> BeatDone \<in> set evs"
  by (induction evs arbitrary: seq rule: status_answers.induct)
    (auto simp: case_prod_unfold Let_def split: option.splits)

text \<open>What \<open>beat\<close> needs before its ticker runs.\<close>

definition beat_starts :: "beat_settings \<Rightarrow> string option \<Rightarrow> string option \<Rightarrow> bool" where
  "beat_starts bs client_err create_err \<longleftrightarrow>
     bs_brokers bs \<noteq> [] \<and> bs_cluster bs \<noteq> [] \<and> client_err = None \<and> ensure_beat_topic create_err = None"

lemma beat_returns:
  "snd (beat bs client_err create_err decode evs) = BeatReturned None \<longleftrightarrow>
     beat_starts bs client_err create_err \<and> 0 < bs_every bs \<and> BeatDone \<in> set evs"
  by (auto simp: beat_def beat_starts_def beat_select_ends case_prod_unfold Let_def split: option.splits)

lemma beat_status_cases:
  "beat_status environ pd client_err create_err decode evs args = Some 2 \<longleftrightarrow>
     parse_flags beat_flag_set pd args no_flags = Inl FlagError \<or>
     (\<exists>cl. parse_flags beat_flag_set pd args no_flags = Inr cl \<and>
        beat_starts (beat_flags environ cl) client_err create_err \<and> bs_every (beat_flags environ cl) \<le> 0)"
  "beat_status environ pd client_err create_err decode evs args = Some 0 \<longleftrightarrow>
     parse_flags beat_flag_set pd args no_flags = Inl FlagHelp \<or>
     (\<exists>cl. parse_flags beat_flag_set pd args no_flags = Inr cl \<and>
        beat_starts (beat_flags environ cl) client_err create_err \<and> 0 < bs_every (beat_flags environ cl) \<and>
        BeatDone \<in> set evs)"
proof -
  let ?outcome = "\<lambda>cl. snd (beat (beat_flags environ cl) client_err create_err decode evs)"
  have "beat_status environ pd client_err create_err decode evs args = Some 2 \<longleftrightarrow>
      parse_flags beat_flag_set pd args no_flags = Inl FlagError \<or>
      (\<exists>cl. parse_flags beat_flag_set pd args no_flags = Inr cl \<and> ?outcome cl = BeatPanicked)"
    "beat_status environ pd client_err create_err decode evs args = Some 0 \<longleftrightarrow>
      parse_flags beat_flag_set pd args no_flags = Inl FlagHelp \<or>
      (\<exists>cl. parse_flags beat_flag_set pd args no_flags = Inr cl \<and> ?outcome cl = BeatReturned None)"
    by (auto simp: beat_status_def exit_status_eq FlagError_iff split: sum.splits beat_end.splits)
  moreover have "?outcome cl = BeatPanicked \<longleftrightarrow>
      beat_starts (beat_flags environ cl) client_err create_err \<and> bs_every (beat_flags environ cl) \<le> 0" for cl
    by (auto simp: beat_panics beat_starts_def)
  ultimately show "beat_status environ pd client_err create_err decode evs args = Some 2 \<longleftrightarrow>
      parse_flags beat_flag_set pd args no_flags = Inl FlagError \<or>
      (\<exists>cl. parse_flags beat_flag_set pd args no_flags = Inr cl \<and>
         beat_starts (beat_flags environ cl) client_err create_err \<and> bs_every (beat_flags environ cl) \<le> 0)"
    "beat_status environ pd client_err create_err decode evs args = Some 0 \<longleftrightarrow>
      parse_flags beat_flag_set pd args no_flags = Inl FlagHelp \<or>
      (\<exists>cl. parse_flags beat_flag_set pd args no_flags = Inr cl \<and>
         beat_starts (beat_flags environ cl) client_err create_err \<and> 0 < bs_every (beat_flags environ cl) \<and>
         BeatDone \<in> set evs)"
    by (simp_all add: beat_returns)
qed

lemma report_status_cases:
  "report_status environ pd pt client_err start checked polls print_fails args = Some 2 \<longleftrightarrow>
     parse_flags report_flag_set pd args no_flags = Inl FlagError"
  "report_status environ pd pt client_err start checked polls print_fails args = Some 0 \<longleftrightarrow>
     parse_flags report_flag_set pd args no_flags = Inl FlagHelp \<or>
     (\<exists>cl rep. parse_flags report_flag_set pd args no_flags = Inr cl \<and>
        heartbeat_report (report_flags environ cl) pt client_err start checked polls = Some (Inr rep) \<and>
        \<not> (rs_asJSON (report_flags environ cl) \<and> print_fails rep))"
  by (auto simp: report_status_def exit_status_eq FlagError_iff split: sum.splits option.splits if_splits)

text \<open>C23: how the heartbeat command ends: with status 2 exactly without a command, on arguments that
  are no flags of the command or have bad values, or when beat panics on an interval that is not
  positive; with status 0 exactly when the usage was asked for, when beat ran until it was stopped,
  or when report has printed its report.\<close>
theorem heartbeat_exit_status:
  "(heartbeat_main (beat_status environ pd beat_client create_err decode evs)
       (report_status environ pd pt report_client start checked polls print_fails) args = Some 2 \<longleftrightarrow>
     length args < 2 \<or>
     length args \<ge> 2 \<and> args ! 1 = ''beat'' \<and>
       (parse_flags beat_flag_set pd (drop 2 args) no_flags = Inl FlagError \<or>
        (\<exists>cl. parse_flags beat_flag_set pd (drop 2 args) no_flags = Inr cl \<and>
           beat_starts (beat_flags environ cl) beat_client create_err \<and>
           bs_every (beat_flags environ cl) \<le> 0)) \<or>
     length args \<ge> 2 \<and> args ! 1 = ''report'' \<and>
       parse_flags report_flag_set pd (drop 2 args) no_flags = Inl FlagError) \<and>
   (heartbeat_main (beat_status environ pd beat_client create_err decode evs)
       (report_status environ pd pt report_client start checked polls print_fails) args = Some 0 \<longleftrightarrow>
     length args \<ge> 2 \<and> args ! 1 = ''beat'' \<and>
       (parse_flags beat_flag_set pd (drop 2 args) no_flags = Inl FlagHelp \<or>
        (\<exists>cl. parse_flags beat_flag_set pd (drop 2 args) no_flags = Inr cl \<and>
           beat_starts (beat_flags environ cl) beat_client create_err \<and>
           0 < bs_every (beat_flags environ cl) \<and> BeatDone \<in> set evs)) \<or>
     length args \<ge> 2 \<and> args ! 1 = ''report'' \<and>
       (parse_flags report_flag_set pd (drop 2 args) no_flags = Inl FlagHelp \<or>
        (\<exists>cl rep. parse_flags report_flag_set pd (drop 2 args) no_flags = Inr cl \<and>
           heartbeat_report (report_flags environ cl) pt report_client start checked polls = Some (Inr rep) \<and>
           \<not> (rs_asJSON (report_flags environ cl) \<and> print_fails rep))))"
  by (simp add: heartbeat_main_def beat_status_cases report_status_cases not_less)

end
