(* ===== verification/FencedWorkload.thy ===== *)
theory FencedWorkload
  imports FleetSafety HeartbeatMain
begin

section \<open>The workload behind the lease\<close>

text \<open>
  The whole program at work: candidates around a partition (theory \<open>FleetSafety\<close>), each with the
  /status handler of scaler/http.go in front, workloads of examples/heartbeat that ask it before they
  write, and the report that reads what they wrote. A workload asks in one state of a run of the
  fleet and its heartbeat lands at some later place of the heartbeat topic, behind heartbeats that
  were asked for later if it was slow. The theorem says what the epochs are then good for: the
  fence of the report rejects a heartbeat only if it was overtaken so, and heartbeats of one epoch
  are of one cluster.
\<close>

text \<open>A question of a workload: to which participant's scaler, in which state of the run, with what the
  handler reads besides (the status \<open>note\<close> reads, the clock, the counters), the workload's cluster
  and its counter before.\<close>

record ask =
  ak_pid :: pid
  ak_at :: nat
  ak_noted :: status
  ak_clock :: gtime
  ak_http :: http_state
  ak_cluster :: string
  ak_seq :: int

text \<open>The status its scaler reads, what /status answers, what the workload then writes.\<close>

definition asked_status :: "world \<Rightarrow> fleet list \<Rightarrow> ask \<Rightarrow> status" where
  "asked_status W F k =
     Status (wd_clock W (ak_pid k) (fl_now (F ! ak_at k))) (candidate_of (fl_proc (F ! ak_at k) (ak_pid k)))"

definition answer :: "world \<Rightarrow> fleet list \<Rightarrow> ask \<Rightarrow> status_response" where
  "answer W F k = fst (http_status (asked_status W F k) (ak_noted k) (ak_clock k) (ak_http k))"

definition heartbeat_of :: "world \<Rightarrow> fleet list \<Rightarrow> ask \<Rightarrow> heartbeat option" where
  "heartbeat_of W F k = fst (beat_step (ak_cluster k) (Some (answer W F k)) (ak_seq k))"

text \<open>A run of the fleet, and a question whose heartbeat can be written.\<close>

definition fleet_run :: "world \<Rightarrow> fleet list \<Rightarrow> bool" where
  "fleet_run W F \<longleftrightarrow> F \<noteq> [] \<and> fleet_reachable W (hd F) \<and> sorted_wrt (fleet_step W)\<^sup>*\<^sup>* F"

definition writes :: "world \<Rightarrow> fleet list \<Rightarrow> ask \<Rightarrow> heartbeat \<Rightarrow> bool" where
  "writes W F k hb \<longleftrightarrow>
     ak_at k < length F \<and> heartbeat_of W F k = Some hb \<and>
     valid_utf8 (ak_cluster k) \<and> valid_utf8 (ht_holder (ak_http k))"

text \<open>The heartbeat topic: the heartbeats in the order they landed, with the broker's timestamps.\<close>

definition landed_records :: "(ask \<times> heartbeat \<times> gtime) list \<Rightarrow> topic_record list" where
  "landed_records xs =
     map (\<lambda>(k, hb, t). \<lparr>tr_Timestamp = t, tr_Value = marshal_heartbeat hb\<rparr>) xs"

lemma fleet_run_nth:
  assumes "fleet_run W F" "i \<le> j" "j < length F"
  shows "(fleet_step W)\<^sup>*\<^sup>* (F ! i) (F ! j)"
  using assms sorted_wrt_nth_less [of "(fleet_step W)\<^sup>*\<^sup>*" F i j] by (cases "i = j") (auto simp: fleet_run_def)

lemma fleet_run_inv:
  assumes W: "world_ok W" and F: "fleet_run W F" and i: "i < length F"
  shows "fleet_inv W (F ! i)"
proof -
  have "fleet_inv W (F ! 0)"
    using F fleet_reachable_inv [OF _ W] by (auto simp: fleet_run_def hd_conv_nth)
  with fleet_moves [OF fleet_run_nth [OF F _ i, of 0] W] show ?thesis by simp
qed

lemma heartbeat_of_Some:
  "heartbeat_of W F k = Some hb \<longleftrightarrow>
     s_Holding (asked_status W F k) \<and>
     hb = \<lparr>hb_Cluster = ak_cluster k, hb_Holder = ht_holder (ak_http k),
           hb_Epoch = s_Epoch (asked_status W F k), hb_Seq = i64_add (ak_seq k) 1\<rparr>"
  by (auto simp: heartbeat_of_def answer_def beat_step_def http_status_def Let_def)

text \<open>A reported epoch is an offset of the partition.\<close>

lemma reported_epoch:
  assumes W: "world_ok W" and inv: "fleet_inv W f"
    and h: "s_Holding (Status (wd_clock W p (fl_now f)) (candidate_of (fl_proc f p)))"
  shows "0 \<le> s_Epoch (Status (wd_clock W p (fl_now f)) (candidate_of (fl_proc f p)))"
    "is_i64 (s_Epoch (Status (wd_clock W p (fl_now f)) (candidate_of (fl_proc f p))))"
proof -
  let ?e = "s_Epoch (Status (wd_clock W p (fl_now f)) (candidate_of (fl_proc f p)))"
  note i = sys_invD [of W "agents_of f"]
  have s: "sys_inv W (agents_of f)" using inv by (simp add: fleet_inv_def)
  have ok: "log_ok (log_recs (fl_log f))" "0 < wd_ttl W"
    using msgs_log_ok(1) [OF W i(1,2) [OF s]] world_okD(1) [OF W] by (simp_all add: agents_of_def)
  have "st_Epoch (v_state (end_view W (fl_log f))) = ?e"
    "st_Holder (v_state (end_view W (fl_log f))) = c_Holder (wd_config W p)"
    using status_live [OF W inv h] by (auto simp: abs_state_Held)
  with full_epoch [OF ok, of "length (fl_log f)"] world_okD(9) [OF W]
  have "0 \<le> ?e \<and> ?e < int (length (fl_log f))" by (auto simp: end_view_def)
  moreover have "int (length (fl_log f)) \<le> i64_max + 1"
    using i(2) [OF s] by (simp add: msgs_ok_def agents_of_def)
  ultimately show "0 \<le> ?e" "is_i64 ?e" by (auto simp: is_i64_def i64_min_def)
qed

lemma i64_add_range: "is_i64 (i64_add a b)"
  by (simp add: i64_add_def is_i64_wrap)

lemma writes_heartbeat:
  assumes W: "world_ok W" and F: "fleet_run W F" and k: "writes W F k hb"
  shows "writable hb" "0 \<le> hb_Epoch hb" "s_Holding (asked_status W F k)"
    "hb_Epoch hb = s_Epoch (asked_status W F k)"
proof -
  have at: "ak_at k < length F" using k by (simp add: writes_def)
  have hb: "s_Holding (asked_status W F k)" "hb = \<lparr>hb_Cluster = ak_cluster k, hb_Holder = ht_holder (ak_http k),
           hb_Epoch = s_Epoch (asked_status W F k), hb_Seq = i64_add (ak_seq k) 1\<rparr>"
    using k by (auto simp: writes_def heartbeat_of_Some)
  with reported_epoch [OF W fleet_run_inv [OF W F at], of "ak_pid k"] k i64_add_range
  show "writable hb" "0 \<le> hb_Epoch hb" "s_Holding (asked_status W F k)"
    "hb_Epoch hb = s_Epoch (asked_status W F k)"
    by (auto simp: asked_status_def writable_def writes_def)
qed

lemma later_epoch:
  assumes W: "world_ok W" and F: "fleet_run W F" and k: "writes W F k hb" "writes W F l hc"
    and le: "ak_at k \<le> ak_at l"
  shows "hb_Epoch hb \<le> hb_Epoch hc \<and> (hb_Epoch hb = hb_Epoch hc \<longrightarrow> ak_pid k = ak_pid l)"
proof -
  have at: "ak_at k < length F" "ak_at l < length F" using k by (simp_all add: writes_def)
  note inv = fleet_run_inv [OF W F at(1)] and inv' = fleet_run_inv [OF W F at(2)]
  have m: "(sys_step W)\<^sup>*\<^sup>* (agents_of (F ! ak_at k)) (agents_of (F ! ak_at l))"
    using fleet_moves [OF fleet_run_nth [OF F le at(2)] W inv] by simp
  have s: "sys_inv W (agents_of (F ! ak_at l))" using inv' by (simp add: fleet_inv_def)
  note h = writes_heartbeat [OF W F k(1)] and h' = writes_heartbeat [OF W F k(2)]
  obtain x y where
    "abs_state (v_state (end_view W (fl_log (F ! ak_at k)))) = Held (c_Holder (wd_config W (ak_pid k))) (hb_Epoch hb) x"
    "abs_state (v_state (end_view W (fl_log (F ! ak_at l)))) = Held (c_Holder (wd_config W (ak_pid l))) (hb_Epoch hc) y"
    using status_live [OF W inv, of "ak_pid k"] status_live [OF W inv', of "ak_pid l"] h(3,4) h'(3,4)
    by (auto simp: asked_status_def)
  with live_epochs [OF W s m] show ?thesis by (simp add: agents_of_def)
qed

text \<open>Fewer inversions where the keys only grow.\<close>

lemma fenced_mono:
  assumes "length xs = length ys"
    and "\<And>i j. j < i \<Longrightarrow> i < length xs \<Longrightarrow> xs ! i < xs ! j \<Longrightarrow> ys ! i < ys ! j"
  shows "fenced xs \<le> fenced ys"
proof -
  have filter: "length (filter P zs) \<le> length (filter Q zs)" if "\<forall>z \<in> set zs. P z \<longrightarrow> Q z"
    for P Q and zs :: "nat list"
    using that by (induction zs) auto
  have "\<exists>j \<in> set [0..<i]. ys ! i < ys ! j"
    if "\<exists>j \<in> set [0..<i]. xs ! i < xs ! j" "i < length xs" for i
  proof -
    from that(1) obtain j where "j < i" "xs ! i < xs ! j" by auto
    with assms(2) [of j i] that(2) show ?thesis by auto
  qed
  then show ?thesis
    unfolding fenced_def assms(1) [symmetric] by (intro filter) simp
qed

subsection \<open>Property\<close>

text \<open>C3: end to end: whatever heartbeats the workloads of all clusters write behind their scalers, the
  report's fence rejects at most those that landed behind one asked for later, none when they land
  in the order they were asked for, and heartbeats with one epoch are of one participant.\<close>
theorem fence_rejects_overtaken:
  assumes "world_ok W" "fleet_run W F" "\<forall>(k, hb, t) \<in> set xs. writes W F k hb"
  shows "rp_Stale (summarize unmarshal_heartbeat (landed_records xs) since) \<le>
      int (fenced (map (\<lambda>(k, hb, t). int (ak_at k)) xs)) \<and>
    (sorted (map (\<lambda>(k, hb, t). ak_at k) xs) \<longrightarrow>
      rp_Stale (summarize unmarshal_heartbeat (landed_records xs) since) = 0) \<and>
    (\<forall>(k, hb, t) \<in> set xs. \<forall>(l, hc, u) \<in> set xs. hb_Epoch hb = hb_Epoch hc \<longrightarrow> ak_pid k = ak_pid l)"
proof -
  let ?ws = "map (\<lambda>(k, hb, t). (t, hb)) xs" and ?ats = "map (\<lambda>(k, hb, t). int (ak_at k)) xs"
  have rec: "landed_records xs = beat.written ?ws"
    by (auto simp: landed_records_def beat.written_def)
  have ok: "\<forall>x \<in> set ?ws. writable (snd x) \<and> 0 \<le> hb_Epoch (snd x)"
    using assms(3) writes_heartbeat(1,2) [OF assms(1,2)] by fastforce
  then have b: "beats unmarshal_heartbeat (beat.written ?ws) = map snd ?ws"
    using beat.beats_written [of ?ws] by simp
  have stale: "rp_Stale (summarize unmarshal_heartbeat (landed_records xs) since) =
      int (fenced (map hb_Epoch (map snd ?ws)))"
    using tally_epochs [of unmarshal_heartbeat "beat.written ?ws"] b ok
    by (force simp: summarize_fields rec)
  also have "\<dots> \<le> int (fenced ?ats)"
  proof -
    have "ak_at (fst (xs ! i)) < ak_at (fst (xs ! j))"
      if "i < length xs" "j < length xs" "hb_Epoch (fst (snd (xs ! i))) < hb_Epoch (fst (snd (xs ! j)))" for i j
      using that later_epoch [OF assms(1,2), of "fst (xs ! j)" "fst (snd (xs ! j))" "fst (xs ! i)" "fst (snd (xs ! i))"]
        assms(3) nth_mem by (fastforce simp: case_prod_unfold)
    then show ?thesis
      by (intro of_nat_mono fenced_mono) (auto simp: case_prod_unfold)
  qed
  finally have le: "rp_Stale (summarize unmarshal_heartbeat (landed_records xs) since) \<le> int (fenced ?ats)" .
  have "fenced ?ats = 0" if "sorted (map (\<lambda>(k, hb, t). ak_at k) xs)"
  proof -
    have "\<not> ?ats ! i < ?ats ! j" if "j < i" "i < length xs" for i j
      using sorted_nth_mono [OF \<open>sorted _\<close>, of j i] that by (simp add: case_prod_unfold)
    then show ?thesis by (auto simp: fenced_def filter_empty_conv)
  qed
  with le stale have "sorted (map (\<lambda>(k, hb, t). ak_at k) xs) \<longrightarrow>
      rp_Stale (summarize unmarshal_heartbeat (landed_records xs) since) = 0" by linarith
  moreover have "ak_pid k = ak_pid l"
    if "(k, hb, t) \<in> set xs" "(l, hc, u) \<in> set xs" "hb_Epoch hb = hb_Epoch hc" for k hb t l hc u
  proof -
    have w: "writes W F k hb" "writes W F l hc" using that assms(3) by auto
    show ?thesis
      using later_epoch [OF assms(1,2) w] later_epoch [OF assms(1,2) w(2,1)] that(3) by linarith
  qed
  ultimately show ?thesis using le by blast
qed

text \<open>Two states of the run of theory \<open>FleetSafety\<close>, participant 0 holding in both:
  two heartbeats of one term.\<close>

definition later_fleet :: fleet where
  "later_fleet = holding_fleet\<lparr>fl_now := 101 * Second\<rparr>"

definition sample_ask :: "nat \<Rightarrow> ask" where
  "sample_ask i = \<lparr>ak_pid = 0, ak_at = i, ak_noted = zero_status, ak_clock = 100 * Second,
                   ak_http = NewHTTP zero_status ''a'', ak_cluster = ''eu'', ak_seq = int i\<rparr>"

definition sample_heartbeat :: "nat \<Rightarrow> heartbeat" where
  "sample_heartbeat i = \<lparr>hb_Cluster = ''eu'', hb_Holder = ''a'', hb_Epoch = 0, hb_Seq = int i + 1\<rparr>"

theorem fence_rejects_overtaken_witness:
  "rp_Stale (summarize unmarshal_heartbeat (landed_records
      [(sample_ask 0, sample_heartbeat 0, 100 * Second), (sample_ask 1, sample_heartbeat 1, 101 * Second)]) 0) = 0"
proof -
  let ?F = "[holding_fleet, later_fleet]"
  let ?xs = "[(sample_ask 0, sample_heartbeat 0, 100 * Second), (sample_ask 1, sample_heartbeat 1, 101 * Second)]"
  have "fl_now holding_fleet \<le> 101 * Second" by (simp add: holding_fleet_def Second_def)
  then have "fleet_step run_world holding_fleet later_fleet"
    using fleet_step.pass unfolding later_fleet_def by blast
  then have F: "fleet_run run_world ?F" using run_fleet_reaches by (simp add: fleet_run_def)
  have "asked_status run_world ?F (sample_ask 0) = Status (100 * Second) (rn_c holding_run)"
    "asked_status run_world ?F (sample_ask 1) = Status (101 * Second) (rn_c holding_run)"
    by (simp_all add: asked_status_def sample_ask_def holding_fleet_def later_fleet_def run_world_def Second_def)
  moreover have "Status t (rn_c holding_run) = \<lparr>s_Holding = True, s_Epoch = 0, s_Deadline = 108 * Second,
      s_Certain = True, s_Lease = \<lparr>st_Holder = ''a'', st_Epoch = 0, st_Expires = 110 * Second\<rparr>,
      s_AsOf = 100 * Second\<rparr>" if "t < 108 * Second" for t
    using that by (simp add: holding_run_def publish_def agent_status_eq Status_def believing_iff
      fetched_mark_def holding_agent_def read_agent_def granted_view_def start_view_def Second_def go_simps)
  moreover have "(100 :: int) * Second < 108 * Second" "101 * Second < 108 * Second"
    by (simp_all add: Second_def)
  moreover have "plain_key ''eu''" "plain_key ''a''" by code_simp+
  ultimately have "\<forall>(k, hb, t) \<in> set ?xs. writes run_world ?F k hb"
    using plain_key_quote by (simp add: writes_def heartbeat_of_Some sample_heartbeat_def sample_ask_def
        NewHTTP_def i64_add_def i64_wrap_def)
  from fence_rejects_overtaken [OF run_world_ok F this] show ?thesis
    by (simp add: sample_ask_def)
qed

end
