(* ===== verification/TimelyReaders.thy ===== *)
theory TimelyReaders
  imports MutualExclusion
begin

section \<open>Late readers of a log the agents wrote (docs/protocol.md, "Reading a truncated log")\<close>

text \<open>
  Theory \<open>Agreement\<close> shows that a reader of a part of the log is right when it is certain, if the
  timestamps do not step back and the rule behind the anchor holds. Here both are discharged for
  logs that the agents of theory \<open>Protocol\<close> write, when records land as a client with an
  idempotent producer and a broker with a monotone clock let them: those of one participant in the
  order they were sent and once each, within \<open>D\<close> of their send time, with timestamps that do not
  step back; and when the margin covers skew, drift and that latency, the document's formula. That
  none of this can be dropped is shown in theory \<open>Counterexamples\<close>.
\<close>

subsection \<open>Records that land in time\<close>

definition timely_landing :: "duration \<Rightarrow> system \<Rightarrow> system \<Rightarrow> bool" where
  "timely_landing D s s' \<longleftrightarrow>
     (\<forall>m. sy_log s' = sy_log s @ [m] \<longrightarrow>
        sy_now s \<le> sn_time (sy_sent s ! ms_sent m) + D \<and>
        (\<forall>m' \<in> set (sy_log s). ms_ts m' \<le> ms_ts m \<and>
           (sn_pid (sy_sent s ! ms_sent m') = sn_pid (sy_sent s ! ms_sent m) \<longrightarrow>
              ms_sent m' < ms_sent m)))"

inductive timely_reachable :: "world \<Rightarrow> duration \<Rightarrow> system \<Rightarrow> bool" for W :: world and D :: duration where
  start: "sys_init s \<Longrightarrow> timely_reachable W D s"
| step:
    "timely_reachable W D s \<Longrightarrow> sys_step W s s' \<Longrightarrow> timely_landing D s s' \<Longrightarrow> timely_reachable W D s'"

lemma timely_reachable: "timely_reachable W D s \<Longrightarrow> reachable W s"
  by (induction rule: timely_reachable.induct) (auto intro: reachable.intros)

text \<open>What a step does to the records on the wire and in the log.\<close>

lemma sys_step_grows:
  assumes "sys_step W s s'"
  shows "(sy_sent s' = sy_sent s \<and> sy_log s' = sy_log s) \<or>
    (\<exists>p a t r a'. sy_log s' = sy_log s \<and> sy_agent s p = Some a \<and> 0 \<le> t \<and> t \<le> sy_now s \<and>
       sy_sent s' = sy_sent s @ [\<lparr>sn_pid = p, sn_time = t, sn_rec = r\<rparr>] \<and>
       (agent_tick (wd_clock W p t) a = (Some r, a') \<or> agent_release (wd_clock W p t) a = (Some r, a'))) \<or>
    (\<exists>m. sy_sent s' = sy_sent s \<and> sy_log s' = sy_log s @ [m] \<and> sy_now s' = sy_now s \<and>
       ms_sent m < length (sy_sent s) \<and> ms_ts m \<le> sy_now s + wd_skew W \<and> 0 \<le> ms_ts m)"
  using assms by cases (fastforce simp: set_agent_def)+

subsection \<open>Terms start with a claim\<close>

lemma lease_step_Held:
  "lease_step ttl L r = (out, Held h e x) \<Longrightarrow>
     out = Accepted \<and> r_Kind r = Claim \<and> r_Holder r = h \<and> e = r_Offset r \<or> (\<exists>x'. L = Held h e x')"
  by (cases "live_at (r_Timestamp r) L")
    (auto simp: lease_step_def live_at_Held split: kind.splits if_splits)

lemma held_by_claim:
  assumes "log_ok L" "0 < ttl" "n \<le> length L" "abs_state (v_state (full_at ttl L n)) = Held h e x"
  shows "\<exists>m < n. e = int m \<and> r_Kind (L ! m) = Claim \<and> r_Holder (L ! m) = h \<and>
    verdict ttl L m = Accepted"
  using assms(3,4)
proof (induction n arbitrary: e x)
  case 0
  then show ?case by (simp add: start_view_def abs_state_def)
next
  case (Suc n)
  let ?r = "(L ! n)\<lparr>r_Timestamp := max (v_clock (full_at ttl L n)) (r_Timestamp (L ! n))\<rparr>"
  have n: "n < length L" using Suc.prems by simp
  have "lease_step ttl (abs_state (v_state (full_at ttl L n))) ?r = (verdict ttl L n, Held h e x)"
    using vr.moves_lease [OF _ _ full_Apply [OF assms(1,2) n]] full_reader [OF assms(1,2), of n]
      log_okD(2) [OF assms(1) n] n Suc.prems(2) by simp
  from lease_step_Held [OF this] consider "verdict ttl L n = Accepted" "r_Kind (L ! n) = Claim" "r_Holder (L ! n) = h"
      "e = r_Offset (L ! n)"
    | x' where "abs_state (v_state (full_at ttl L n)) = Held h e x'"
    by auto
  then show ?case
  proof cases
    case 1
    then show ?thesis using log_okD(1) [OF assms(1) n] by auto
  next
    case 2
    with Suc.IH [of e x'] n show ?thesis by (auto intro: less_SucI)
  qed
qed

text \<open>So the epoch of any accepted record is the offset of an accepted claim of its holder.\<close>

lemma grants_claim:
  assumes W: "world_ok W" and S: "sent_ok W now S" and L: "msgs_ok W now S L"
    and g: "grants W L n h e"
  shows "\<exists>m \<le> n. e = int m \<and> r_Kind (log_recs L ! m) = Claim \<and>
    verdict (wd_ttl W) (log_recs L) m = Accepted"
proof -
  note lok = msgs_log_ok(1) [OF W S L] and ttl = world_okD(1) [OF W]
  have n: "n < length (log_recs L)" and acc: "verdict (wd_ttl W) (log_recs L) n = Accepted"
    and k: "r_Kind (log_recs L ! n) \<noteq> Release" "rec_term (log_recs L ! n) = (h, e)"
    using g by (auto simp: grants_def)
  note app = full_Apply [OF lok ttl n]
  have pr: "proper (log_recs L ! n)" using log_okD(2) [OF lok n] .
  have c: "v_certain (full_at (wd_ttl W) (log_recs L) n)" using full_reader [OF lok ttl] n by simp
  have "r_Kind (log_recs L ! n) = Claim \<or> r_Kind (log_recs L ! n) = Renew"
    using pr k(1) by (auto simp: proper_def known_kind_iff)
  then show ?thesis
  proof
    assume "r_Kind (log_recs L ! n) = Claim"
    with k(2) acc log_okD(1) [OF lok n] show ?thesis by (auto simp: rec_term_def)
  next
    assume r: "r_Kind (log_recs L ! n) = Renew"
    with vr.accepted_renew [OF c pr app [unfolded acc]] k(2) obtain x where
      "abs_state (v_state (full_at (wd_ttl W) (log_recs L) n)) = Held h e x"
      by (auto simp: rec_term_def)
    from held_by_claim [OF lok ttl _ this] n show ?thesis by (auto intro: less_imp_le)
  qed
qed

subsection \<open>Renewals and releases rest on an accepted record\<close>

definition rests :: "world \<Rightarrow> sent_record list \<Rightarrow> message list \<Rightarrow> nat \<Rightarrow> bool" where
  "rests W S L k \<longleftrightarrow>
     (let x = S ! k; r = sn_rec x; p = sn_pid x in
      r_Kind r \<noteq> Claim \<longrightarrow>
        (\<exists>m. grants W L m (r_Holder r) (r_Epoch r) \<and>
           (r_Kind r = Renew \<longrightarrow>
              \<not> released (take k S) (r_Holder r) (r_Epoch r) \<and>
              wd_clock W p (sn_time x) <
                wd_clock W p (sent_at S L m) + (wd_ttl W - c_Margin (wd_config W p)))))"

lemma tick_renews:
  assumes "agent_tick now a = (Some r, a')" "v_certain (ag_view a)" "0 \<le> now"
  shows "r_Kind r = Claim \<or>
    r_Kind r = Renew \<and> now < ag_deadline a \<and> r_Epoch r = ag_epoch a \<and> r_Holder r = c_Holder (ag_cfg a)"
  using assms
  by (auto simp: agent_tick_def tickDecide_def tickDeadline_eq believing_iff send_def newRecord_def
      Let_def split: if_splits)

lemma rests_append:
  assumes "msgs_ok W now S L" "rests W S L k" "k < length S"
  shows "rests W (S @ X) (L @ M) k"
proof -
  have g: "grants W (L @ M) m h e \<and> sent_at (S @ X) (L @ M) m = sent_at S L m"
    if m: "grants W L m h e" for m h e
  proof
    show "grants W (L @ M) m h e"
      using m by (induction M rule: rev_induct) (simp_all add: grants_later flip: append_assoc)
    have "m < length L" using m by (simp add: grants_def)
    with sent_at_append [OF assms(1) this, of X]
    show "sent_at (S @ X) (L @ M) m = sent_at S L m" by (simp add: sent_at_def nth_append)
  qed
  have "released (take k (S @ X)) h e = released (take k S) h e" "(S @ X) ! k = S ! k" for h e
    using assms(3) by (simp_all add: nth_append)
  with assms(2) g show ?thesis unfolding rests_def Let_def by metis
qed

lemma rests_new:
  assumes W: "world_ok W" and inv: "sys_inv W s" and p: "sy_agent s p = Some a"
    and w: "agent_tick (wd_clock W p t) a = (Some r, a') \<or> agent_release (wd_clock W p t) a = (Some r, a')"
  shows "rests W (sy_sent s @ [\<lparr>sn_pid = p, sn_time = t, sn_rec = r\<rparr>]) (sy_log s) (length (sy_sent s))"
proof -
  note i = sys_invD [OF inv]
  have a: "agent_inv W (sy_sent s) (sy_log s) p (sy_current s p) a" using i(4) [OF p] .
  then have c: "v_certain (ag_view a)" and cfg: "ag_cfg a = wd_config W p"
    using reads_certain [OF W i(1,2)] by (auto simp: agent_inv_def reads_log_def)
  have r: "r_Kind r = Claim \<or> wd_clock W p t < ag_deadline a \<and> r_Epoch r = ag_epoch a \<and>
      r_Holder r = c_Holder (wd_config W p)"
    using w tick_renews [OF _ c world_okD(12) [OF W]] cfg
    by (auto simp: agent_release_def newRecord_def believing_iff dropBelief_eq Let_def split: if_splits)
  show ?thesis
  proof (cases "r_Kind r = Claim")
    case False
    with r have d: "wd_clock W p t < ag_deadline a" "ag_deadline a \<noteq> 0"
      using world_okD(12) [OF W, of p t] by auto
    then obtain m where m: "\<not> released (sy_sent s) (c_Holder (wd_config W p)) (ag_epoch a)"
      "grants W (sy_log s) m (c_Holder (wd_config W p)) (ag_epoch a)"
      "ag_deadline a = wd_clock W p (sent_at (sy_sent s) (sy_log s) m) + (wd_ttl W - c_Margin (wd_config W p))"
      using a by (auto simp: agent_inv_def belief_inv_def backed_def)
    then have "m < length (sy_log s)" by (simp add: grants_def)
    with sent_at_append [OF i(2)] m d r False show ?thesis by (auto simp: rests_def)
  qed (simp add: rests_def)
qed

subsection \<open>Every renewal that lands is accepted\<close>

text \<open>The margin as docs/protocol.md has it, with the latency \<open>D\<close> of a record.\<close>

definition margin_covers :: "world \<Rightarrow> duration \<Rightarrow> bool" where
  "margin_covers W D \<longleftrightarrow> 0 \<le> D \<and> (\<forall>p. 2 * wd_skew W + wd_drift W + D \<le> c_Margin (wd_config W p))"

lemma in_time:
  assumes W: "world_ok W" and D: "margin_covers W D" and S: "0 \<le> t0" "0 \<le> t"
    and b: "wd_clock W p t < wd_clock W p t0 + (wd_ttl W - c_Margin (wd_config W p))"
    and now: "now \<le> t + D"
  shows "now + wd_skew W < t0 - wd_skew W + wd_ttl W"
proof -
  have m: "2 * wd_skew W + wd_drift W + D \<le> c_Margin (wd_config W p)" "0 \<le> D"
    using D by (auto simp: margin_covers_def)
  have o: "0 \<le> wd_skew W" "0 \<le> wd_drift W" "c_Margin (wd_config W p) < wd_ttl W"
    using world_okD(2,3) [OF W] world_okD(6,7) [OF W, of p] by (auto simp: timing_ok_def)
  show ?thesis
  proof (cases "t0 \<le> t")
    case True
    have "wd_clock W p t - wd_clock W p t0 < wd_ttl W" using b m o by simp
    with world_okD(13) [OF W S(1) True] have "t - t0 \<le> wd_clock W p t - wd_clock W p t0 + wd_drift W" .
    with b m now show ?thesis by simp
  qed (use m o now in simp)
qed

lemma renew_lands:
  assumes W: "world_ok W" and D: "margin_covers W D" and S: "sent_ok W now S"
    and L: "msgs_ok W now S (L @ [m])" and live: "live_terms W now S L"
    and rest: "rests W S L (ms_sent m)" and kind: "r_Kind (decoded m) = Renew"
    and land: "now \<le> sn_time (S ! ms_sent m) + D"
    and order: "\<forall>m' \<in> set L. sn_pid (S ! ms_sent m') = sn_pid (S ! ms_sent m) \<longrightarrow> ms_sent m' < ms_sent m"
  shows "verdict (wd_ttl W) (log_recs (L @ [m])) (length L) = Accepted"
proof -
  let ?x = "S ! ms_sent m" and ?r = "log_recs (L @ [m]) ! length L"
  let ?h = "r_Holder (sn_rec ?x)" and ?e = "r_Epoch (sn_rec ?x)"
  have k: "ms_sent m < length S" "decoded m = sn_rec ?x" using msgs_okD(1,2) [OF L, of "length L"] by auto
  have mb: "made_by W (sn_pid (S ! j)) (sn_rec (S ! j))" "0 \<le> sn_time (S ! j)" if "j < length S" for j
    using S that by (auto simp: sent_ok_def)
  obtain n where n: "grants W L n ?h ?e" "\<not> released (take (ms_sent m) S) ?h ?e"
    "wd_clock W (sn_pid ?x) (sn_time ?x) <
      wd_clock W (sn_pid ?x) (sent_at S L n) + (wd_ttl W - c_Margin (wd_config W (sn_pid ?x)))"
    using rest kind k(2) by (auto simp: rests_def Let_def)
  have L0: "msgs_ok W now S L" using L by (simp add: msgs_ok_def)
  have "\<not> freed L ?h ?e"
  proof
    assume "freed L ?h ?e"
    then obtain i where i: "i < length L" "r_Kind (decoded (L ! i)) = Release"
      "r_Holder (decoded (L ! i)) = ?h" "r_Epoch (decoded (L ! i)) = ?e"
      by (auto simp: freed_def in_set_conv_nth)
    note ki = msgs_okD(1,2) [OF L0 i(1)]
    have "sn_pid (S ! ms_sent (L ! i)) = sn_pid ?x"
      using mb(1) [OF ki(1)] mb(1) [OF k(1)] i(3) ki(2) world_okD(11) [OF W] by (simp add: made_by_def)
    then have "ms_sent (L ! i) < ms_sent m" using order i(1) by simp
    then have "released (take (ms_sent m) S) ?h ?e"
      using i ki k(1) by (force simp: released_def in_set_conv_nth intro!: bexI [of _ "S ! ms_sent (L ! i)"])
    with n(2) show False ..
  qed
  moreover have "n < length L" using n(1) by (simp add: grants_def)
  then have "now + wd_skew W < sent_at S L n - wd_skew W + wd_ttl W"
    using in_time [OF W D _ _ n(3) land] mb(2) msgs_okD(1) [OF L0] k(1) by (simp add: sent_at_def)
  ultimately obtain x where x: "now + wd_skew W < x"
    "abs_state (v_state (end_view W L)) = Held ?h ?e x"
    using live_termsD [OF live n(1)] by (metis order_less_le_trans)
  have v: "v_certain (end_view W L)" "v_ttl (end_view W L) = wd_ttl W" "v_clock (end_view W L) \<le> now + wd_skew W"
    using end_view_facts [OF W S L0] by auto
  have r: "proper ?r" "r_TTL ?r = wd_ttl W" "r_Kind ?r = Renew" "r_Holder ?r = ?h" "r_Epoch ?r = ?e"
    "r_Timestamp ?r = ms_ts m"
    using log_okD(2) [OF msgs_log_ok(1) [OF W S L], of "length L"] msgs_log_ok(2) [OF W S L, of "length L"] kind k
    by (auto simp: log_recs_nth)
  have "max (v_clock (end_view W L)) (r_Timestamp ?r) < x"
    using x(1) v(3) r(6) msgs_okD(5) [OF L, of "length L"] by simp
  with vr.moves_lease [OF v(1) r(1) end_view_snoc [OF W S L]] x(2) r v(2) world_okD(1) [OF W]
  show ?thesis by (simp add: lease_step_def ttl_ok_def)
qed

subsection \<open>The invariant\<close>

definition renewals_accepted :: "world \<Rightarrow> message list \<Rightarrow> bool" where
  "renewals_accepted W L \<longleftrightarrow>
     (\<forall>n < length L. r_Kind (log_recs L ! n) = Renew \<longrightarrow>
        verdict (wd_ttl W) (log_recs L) n = Accepted)"

definition timely_inv :: "world \<Rightarrow> system \<Rightarrow> bool" where
  "timely_inv W s \<longleftrightarrow>
     sys_inv W s \<and> clock_ok (log_recs (sy_log s)) \<and> renewals_accepted W (sy_log s) \<and>
     (\<forall>k < length (sy_sent s). rests W (sy_sent s) (sy_log s) k)"

lemma renewals_accepted_snoc:
  assumes "renewals_accepted W L"
    and "r_Kind (decoded m) = Renew \<Longrightarrow> verdict (wd_ttl W) (log_recs (L @ [m])) (length L) = Accepted"
  shows "renewals_accepted W (L @ [m])"
  unfolding renewals_accepted_def
proof (intro allI impI)
  fix n assume n: "n < length (L @ [m])" "r_Kind (log_recs (L @ [m]) ! n) = Renew"
  show "verdict (wd_ttl W) (log_recs (L @ [m])) n = Accepted"
  proof (cases "n = length L")
    case True
    with n assms(2) show ?thesis by (simp add: log_recs_nth)
  next
    case False
    with n assms(1) show ?thesis
      by (auto simp: renewals_accepted_def log_recs_snoc nth_append verdict_append)
  qed
qed

lemma clock_ok_snoc:
  assumes "clock_ok (log_recs L)" "\<forall>m' \<in> set L. ms_ts m' \<le> ms_ts m" "0 \<le> ms_ts m"
  shows "clock_ok (log_recs (L @ [m]))"
proof -
  have "r_Timestamp r \<le> ms_ts m" if "r \<in> set (log_recs L)" for r
    using that assms(2) by (auto simp: log_recs_def)
  with assms(1,3) show ?thesis by (auto simp: clock_ok_def log_recs_snoc sorted_append)
qed

lemma timely_inv_step:
  assumes W: "world_ok W" and D: "margin_covers W D" and inv: "timely_inv W s"
    and step: "sys_step W s s'" and land: "timely_landing D s s'"
  shows "timely_inv W s'"
proof -
  have i: "sys_inv W s" "clock_ok (log_recs (sy_log s))" "renewals_accepted W (sy_log s)"
    "\<And>k. k < length (sy_sent s) \<Longrightarrow> rests W (sy_sent s) (sy_log s) k"
    using inv by (auto simp: timely_inv_def)
  note si = sys_invD [OF i(1)] and i' = sys_inv_step [OF W i(1) step]
  note keep = rests_append [OF si(2) i(4)]
  from sys_step_grows [OF step] consider
      (same) "sy_sent s' = sy_sent s" "sy_log s' = sy_log s"
    | (wire) p a t r a' where "sy_log s' = sy_log s" "sy_agent s p = Some a"
      "sy_sent s' = sy_sent s @ [\<lparr>sn_pid = p, sn_time = t, sn_rec = r\<rparr>]"
      "agent_tick (wd_clock W p t) a = (Some r, a') \<or> agent_release (wd_clock W p t) a = (Some r, a')"
    | (log) m where "sy_sent s' = sy_sent s" "sy_log s' = sy_log s @ [m]" "sy_now s' = sy_now s"
      "ms_sent m < length (sy_sent s)" "0 \<le> ms_ts m"
    by blast
  then show ?thesis
  proof cases
    case same
    with i i' show ?thesis by (simp add: timely_inv_def)
  next
    case wire
    from rests_new [OF W i(1) wire(2,4)] keep [of _ _ "[]"] i i' wire show ?thesis
      by (auto simp: timely_inv_def less_Suc_eq)
  next
    case log
    have l: "sy_now s \<le> sn_time (sy_sent s ! ms_sent m) + D" "\<forall>m' \<in> set (sy_log s). ms_ts m' \<le> ms_ts m"
      "\<forall>m' \<in> set (sy_log s). sn_pid (sy_sent s ! ms_sent m') = sn_pid (sy_sent s ! ms_sent m) \<longrightarrow>
         ms_sent m' < ms_sent m"
      using land log(2) by (auto simp: timely_landing_def)
    have "msgs_ok W (sy_now s) (sy_sent s) (sy_log s @ [m])"
      using sys_invD(2) [OF i'] log by simp
    from renew_lands [OF W D si(1) this si(3) i(4) [OF log(4)] _ l(1,3)]
    have "renewals_accepted W (sy_log s @ [m])" by (rule renewals_accepted_snoc [OF i(3)])
    with clock_ok_snoc [OF i(2) l(2) log(5)] keep [of _ "[]" "[m]"] i' log show ?thesis
      by (simp add: timely_inv_def)
  qed
qed

lemma timely_reachable_inv:
  "timely_reachable W D s \<Longrightarrow> world_ok W \<Longrightarrow> margin_covers W D \<Longrightarrow> timely_inv W s"
proof (induction rule: timely_reachable.induct)
  case (start s)
  then have "sy_sent s = []" "sy_log s = []" by (auto simp: sys_init_def)
  with sys_inv_init [OF start(2,1)] show ?case
    by (simp add: timely_inv_def clock_ok_def renewals_accepted_def log_recs_def)
qed (blast intro: timely_inv_step)

text \<open>So the rule behind the anchor holds of what was written.\<close>

lemma written_anchors_hold:
  assumes W: "world_ok W" and inv: "timely_inv W s"
  shows "anchors_hold (wd_ttl W) (log_recs (sy_log s))"
proof -
  have i: "sys_inv W s" "renewals_accepted W (sy_log s)"
    "\<And>k. k < length (sy_sent s) \<Longrightarrow> rests W (sy_sent s) (sy_log s) k"
    using inv by (auto simp: timely_inv_def)
  note si = sys_invD [OF i(1)]
  let ?L = "sy_log s" and ?R = "log_recs (sy_log s)"
  note lok = msgs_log_ok(1) [OF W si(1,2)]
  have "verdict (wd_ttl W) ?R n = Accepted"
    if j: "j < length ?L" "n < j" and k: "r_Kind (?R ! n) \<noteq> Release" "r_Kind (?R ! j) \<noteq> Claim"
      and same: "rec_term (?R ! n) = rec_term (?R ! j)" for n j
  proof (cases "r_Kind (?R ! n) = Claim")
    case True
    let ?k = "ms_sent (?L ! j)"
    note kj = msgs_okD(1,2) [OF si(2) j(1)]
    have "r_Kind (sn_rec (sy_sent s ! ?k)) \<noteq> Claim" using k(2) kj(2) j(1) by (simp add: log_recs_nth)
    with i(3) [OF kj(1)] obtain m where
      "grants W ?L m (r_Holder (sn_rec (sy_sent s ! ?k))) (r_Epoch (sn_rec (sy_sent s ! ?k)))"
      by (auto simp: rests_def Let_def)
    from grants_claim [OF W si(1,2) this] obtain c where
      c: "r_Epoch (sn_rec (sy_sent s ! ?k)) = int c" "verdict (wd_ttl W) ?R c = Accepted" by blast
    have "snd (rec_term (?R ! j)) = int c"
      using c(1) kj(2) k(2) j(1) by (simp add: log_recs_nth rec_term_def)
    moreover have "snd (rec_term (?R ! n)) = int n"
      using True j log_okD(1) [OF lok, of n] by (simp add: rec_term_def)
    ultimately show ?thesis using same c(2) by simp
  next
    case False
    have "proper (?R ! n)" using log_okD(2) [OF lok] j by simp
    then have "r_Kind (?R ! n) = Renew" using False k(1) by (auto simp: proper_def known_kind_iff)
    then show ?thesis using i(2) j by (simp add: renewals_accepted_def)
  qed
  then show ?thesis by (auto simp: anchors_hold_def)
qed

subsection \<open>Properties\<close>

text \<open>C6: a reader that starts anywhere in a log the participants wrote, or skips any of its records
  (calling Gap at every hole), is right whenever it is certain: it and the reader of the whole log
  then report the lease held or free alike from its clock on, with the same holder, epoch and
  expiry. Records land once each, in the order their sender sent them and within the latency D,
  under timestamps that do not step back, and the margin is at least twice the skew plus drift plus
  D, the formula of docs/protocol.md; the rule behind the anchor then follows from the agents.\<close>
theorem late_reader_agrees:
  assumes "world_ok W" "margin_covers W D" "timely_reachable W D s"
    and "NewView (wd_ttl W) = Some v0" "n \<le> length (sy_log s)"
    and "part_of (log_recs (sy_log s)) rs" "rs \<noteq> []" "\<forall>r \<in> set rs. int n \<le> r_Offset r"
    and "v_certain (read_some v0 (int n) rs)"
  shows "agrees_with_log (wd_ttl W) (log_recs (sy_log s)) rs (read_some v0 (int n) rs)"
proof -
  have inv: "timely_inv W s" using timely_reachable_inv [OF assms(3,1,2)] .
  then have "sys_inv W s" and clock: "clock_ok (log_recs (sy_log s))" by (auto simp: timely_inv_def)
  then have ok: "log_ok (log_recs (sy_log s))"
    using msgs_log_ok(1) [OF assms(1)] sys_invD(1,2) by blast
  have "n \<le> length (log_recs (sy_log s))" using assms(5) by simp
  from read_some_agrees [OF ok clock world_okD(1) [OF assms(1)] written_anchors_hold [OF assms(1) inv]
      tracks_new [OF ok clock assms(4) this] assms(8,6,7,9)]
  show ?thesis .
qed

subsection \<open>A run to read\<close>

text \<open>
  Participant 0 of theory \<open>MutualExclusion\<close> claims at 100 s and renews at 103 s; the renewal takes
  a second to land. It is stopped at 104 s before it hears of it, and its release lands.
\<close>

definition timely_world :: world where
  "timely_world = run_world\<lparr>wd_skew := 500 * Millisecond\<rparr>"

definition renewing_agent :: agent where
  "renewing_agent = holding_agent\<lparr>ag_inflight :=
     Some \<lparr>if_kind = Renew, if_sentAt = 103 * Second, if_offset = -1\<rparr>, ag_lastSend := 103 * Second\<rparr>"

abbreviation run_term :: "kind \<Rightarrow> lrecord" where
  "run_term k \<equiv> run_claim\<lparr>r_Kind := k\<rparr>"

abbreviation timely_sent :: "gtime \<Rightarrow> kind \<Rightarrow> sent_record" where
  "timely_sent t k \<equiv> \<lparr>sn_pid = 0, sn_time = t, sn_rec = run_term k\<rparr>"

abbreviation timely_msg :: "gtime \<Rightarrow> kind \<Rightarrow> nat \<Rightarrow> message" where
  "timely_msg t k n \<equiv> \<lparr>ms_ts = t, ms_value = value_of (run_term k), ms_sent = n\<rparr>"

definition one_agent :: "gtime \<Rightarrow> sent_record list \<Rightarrow> message list \<Rightarrow> agent \<Rightarrow> nat \<Rightarrow> system" where
  "one_agent now S L a cur =
     \<lparr>sy_now = now, sy_sent = S, sy_log = L, sy_agent = [0 \<mapsto> a], sy_current = (\<lambda>p. 0)(0 := cur)\<rparr>"

abbreviation timely_sents :: "sent_record list" where
  "timely_sents \<equiv> [timely_sent (100 * Second) Claim, timely_sent (103 * Second) Renew,
                   timely_sent (104 * Second) Release]"

abbreviation timely_log :: "message list" where
  "timely_log \<equiv> [timely_msg (100 * Second) Claim 0, timely_msg (104 * Second) Renew 1,
                 timely_msg (104 * Second) Release 2]"

definition stopped_system :: system where
  "stopped_system = one_agent (104 * Second) timely_sents timely_log (renewing_agent\<lparr>ag_deadline := 0\<rparr>) 1"

lemma timely_world_simps [simp]:
  "wd_config timely_world = run_config" "wd_clock timely_world p t = max 0 t"
  "wd_ttl timely_world = 10 * Second" "wd_skew timely_world = 500 * Millisecond"
  "wd_drift timely_world = 0"
  by (simp_all add: timely_world_def run_world_def)

lemma timely_world_ok: "world_ok timely_world" "margin_covers timely_world Second"
proof -
  show "margin_covers timely_world Second"
    by (simp add: margin_covers_def run_config_def Second_def Millisecond_def)
  have "participant_ok timely_world p" "clock_drift_ok timely_world p" for p
    using run_world_ok
    by (auto simp: world_ok_def participant_ok_def clock_drift_ok_def timely_world_def)
      (simp_all add: run_world_def run_config_def Second_def Millisecond_def)
  then show "world_ok timely_world"
    using run_world_ok
    by (simp add: world_ok_def) (simp add: run_world_def Second_def Millisecond_def)
qed

lemma timely_wire:
  "known_kind k \<Longrightarrow> EncodeValue (run_term k) = Inr (value_of (run_term k))"
  "known_kind k \<Longrightarrow> DecodeValue (value_of (run_term k)) = Inr (run_term k)"
proof -
  assume "known_kind k"
  then have "made_by timely_world 0 (run_term k)"
    by (simp add: made_by_def run_claim_def run_config_def is_i64_def i64_min_def i64_max_def)
  from made_by_wire [OF timely_world_ok(1) this]
  show "EncodeValue (run_term k) = Inr (value_of (run_term k))"
    "DecodeValue (value_of (run_term k)) = Inr (run_term k)"
    using encode_value_of [of "run_term k"] decode_value_of [of "run_term k"] by simp_all
qed

lemma run_claim_term: "run_term Claim = run_claim"
  by (simp add: run_claim_def)

lemma renew_tick: "agent_tick (103 * Second) holding_agent = (Some (run_term Renew), renewing_agent)"
  by (simp add: agent_tick_def tickDeadline_eq tickSilence_def tickDecide_def believing_iff send_def
      newRecord_def holding_agent_def read_agent_def claimed_agent_def run_agent_def granted_view_def
      renewing_agent_def run_claim_def start_view_def run_config_def Second_def go_simps
      time_Sub_exact is_i64_def i64_min_def i64_max_def Let_def)

lemma stop_release:
  "agent_release (104 * Second) renewing_agent =
     (Some (run_term Release), renewing_agent\<lparr>ag_deadline := 0\<rparr>)"
  by (simp add: agent_release_def newRecord_def dropBelief_eq believing_iff renewing_agent_def
      holding_agent_def read_agent_def claimed_agent_def run_agent_def run_claim_def run_config_def
      Second_def go_simps Let_def)

lemma timely_quiet:
  "timely_reachable W D s \<Longrightarrow> sys_step W s s' \<Longrightarrow> sy_log s' = sy_log s \<Longrightarrow> timely_reachable W D s'"
  by (erule timely_reachable.step) (simp_all add: timely_landing_def)

lemma timely_lands:
  "timely_reachable W D s \<Longrightarrow> sys_step W s s' \<Longrightarrow> sy_log s' = sy_log s @ [m] \<Longrightarrow>
     sy_now s \<le> sn_time (sy_sent s ! ms_sent m) + D \<Longrightarrow>
     \<forall>m' \<in> set (sy_log s). ms_ts m' \<le> ms_ts m \<and> ms_sent m' < ms_sent m \<Longrightarrow> timely_reachable W D s'"
  by (erule timely_reachable.step) (simp_all add: timely_landing_def)

lemmas one_agent_simps = one_agent_def set_agent_def fun_upd_idem

lemma timely_claim:
  "timely_reachable timely_world Second
     (one_agent (100 * Second) [timely_sent (100 * Second) Claim] [] claimed_agent 0)"
proof -
  let ?s0 = "one_agent 0 [] [] (run_agent 0) 0" and ?s1 = "one_agent (100 * Second) [] [] (run_agent 0) 0"
  have "timely_reachable timely_world Second (?s0\<lparr>sy_agent := Map.empty\<rparr>)"
    by (rule timely_reachable.start) (simp add: sys_init_def one_agent_def)
  then have "timely_reachable timely_world Second ?s0"
    by (rule timely_quiet)
      (use sys_step.join [of 0 "?s0\<lparr>sy_agent := Map.empty\<rparr>" 0 timely_world 0 "run_agent 0"] run_join [of 0]
        in \<open>simp_all add: one_agent_simps\<close>)
  then have "timely_reachable timely_world Second ?s1"
    by (rule timely_quiet)
      (use sys_step.pass [of ?s0 "100 * Second"] in \<open>simp_all add: one_agent_simps Second_def\<close>)
  then show ?thesis
    by (rule timely_quiet)
      (use sys_step.produce [of "100 * Second" ?s1 0 "run_agent 0" timely_world run_claim claimed_agent] run_tick
        in \<open>simp_all add: one_agent_simps Second_def run_claim_term\<close>)
qed

lemma timely_hold:
  "timely_reachable timely_world Second
     (one_agent (100 * Second) [timely_sent (100 * Second) Claim] [timely_msg (100 * Second) Claim 0]
       holding_agent 0)"
proof -
  let ?S = "[timely_sent (100 * Second) Claim]" and ?m = "timely_msg (100 * Second) Claim 0"
  let ?s0 = "one_agent (100 * Second) ?S [] claimed_agent 0"
    and ?s1 = "one_agent (100 * Second) ?S [?m] claimed_agent 0"
    and ?s2 = "one_agent (100 * Second) ?S [?m] read_agent 0"
  have "timely_reachable timely_world Second ?s1"
    by (rule timely_lands [OF timely_claim, of _ ?m])
      (use sys_step.land [of 0 ?s0 "value_of (run_term Claim)" timely_world "100 * Second"] timely_wire(1) [of Claim]
        in \<open>simp_all add: one_agent_simps Second_def Millisecond_def i64_max_def\<close>)
  then have "timely_reachable timely_world Second ?s2"
    by (rule timely_quiet)
      (use sys_step.receive [of "100 * Second" ?s1 0 claimed_agent 0 timely_world None read_agent] run_read
        in \<open>simp_all add: one_agent_simps Second_def run_claim_term claimed_agent_def run_agent_def\<close>)
  then show ?thesis
    by (rule timely_quiet)
      (use sys_step.ack [of "100 * Second" ?s2 0 read_agent 0 timely_world] run_ack
        in \<open>simp_all add: one_agent_simps Second_def\<close>)
qed

lemma timely_renew:
  "timely_reachable timely_world Second
     (one_agent (104 * Second) [timely_sent (100 * Second) Claim, timely_sent (103 * Second) Renew]
       [timely_msg (100 * Second) Claim 0, timely_msg (104 * Second) Renew 1] renewing_agent 1)"
proof -
  let ?S = "[timely_sent (100 * Second) Claim]" and ?L = "[timely_msg (100 * Second) Claim 0]"
    and ?S' = "[timely_sent (100 * Second) Claim, timely_sent (103 * Second) Renew]"
    and ?m = "timely_msg (104 * Second) Renew 1"
  let ?s0 = "one_agent (100 * Second) ?S ?L holding_agent 0"
    and ?s1 = "one_agent (103 * Second) ?S ?L holding_agent 0"
    and ?s2 = "one_agent (103 * Second) ?S' ?L renewing_agent 1"
    and ?s3 = "one_agent (104 * Second) ?S' ?L renewing_agent 1"
  have "timely_reachable timely_world Second ?s1"
    by (rule timely_quiet [OF timely_hold])
      (use sys_step.pass [of ?s0 "103 * Second"] in \<open>simp_all add: one_agent_simps Second_def\<close>)
  then have "timely_reachable timely_world Second ?s2"
    by (rule timely_quiet)
      (use sys_step.produce [of "103 * Second" ?s1 0 holding_agent timely_world "run_term Renew" renewing_agent]
        renew_tick in \<open>simp_all add: one_agent_simps Second_def\<close>)
  then have "timely_reachable timely_world Second ?s3"
    by (rule timely_quiet)
      (use sys_step.pass [of ?s2 "104 * Second"] in \<open>simp_all add: one_agent_simps Second_def\<close>)
  then show ?thesis
    by (rule timely_lands [of _ _ _ _ ?m])
      (use sys_step.land [of 1 ?s3 "value_of (run_term Renew)" timely_world "104 * Second"] timely_wire(1) [of Renew]
        in \<open>simp_all add: one_agent_simps Second_def Millisecond_def i64_max_def\<close>)
qed

lemma timely_stopped: "timely_reachable timely_world Second stopped_system"
proof -
  let ?S = "[timely_sent (100 * Second) Claim, timely_sent (103 * Second) Renew]"
    and ?L = "[timely_msg (100 * Second) Claim 0, timely_msg (104 * Second) Renew 1]"
    and ?m = "timely_msg (104 * Second) Release 2" and ?a = "renewing_agent\<lparr>ag_deadline := 0\<rparr>"
  let ?s0 = "one_agent (104 * Second) ?S ?L renewing_agent 1"
    and ?s1 = "one_agent (104 * Second) timely_sents ?L ?a 1"
  have "timely_reachable timely_world Second ?s1"
    by (rule timely_quiet [OF timely_renew])
      (use sys_step.give_up [of "104 * Second" ?s0 0 renewing_agent timely_world "run_term Release" ?a]
        stop_release in \<open>simp_all add: one_agent_simps Second_def\<close>)
  then show ?thesis
    by (rule timely_lands [of _ _ _ _ ?m])
      (use sys_step.land [of 2 ?s1 "value_of (run_term Release)" timely_world "104 * Second"] timely_wire(1) [of Release]
        in \<open>simp_all add: one_agent_simps stopped_system_def Second_def Millisecond_def i64_max_def\<close>)
qed

text \<open>What the log says: the reader from offset 1 sees the renewal and the release.\<close>

definition stopped_log :: "lrecord list" where
  "stopped_log =
     [(run_term Claim)\<lparr>r_Timestamp := 100 * Second\<rparr>,
      (run_term Renew)\<lparr>r_Offset := 1, r_Timestamp := 104 * Second\<rparr>,
      (run_term Release)\<lparr>r_Offset := 2, r_Timestamp := 104 * Second\<rparr>]"

lemma stopped_log: "log_recs (sy_log stopped_system) = stopped_log"
  using timely_wire(2) [of Claim] timely_wire(2) [of Renew] timely_wire(2) [of Release]
  by (simp add: stopped_system_def one_agent_def stopped_log_def log_recs_def decoded_def
      upt_conv_Cons run_claim_def)

definition stopped_reader :: view where
  "stopped_reader =
     \<lparr>v_ttl = 10 * Second, v_certain = False, v_state = zero_state, v_clock = time_zero,
      v_lastOffset = -1, v_seen = False, v_pending = []\<rparr>"

theorem late_reader_agrees_witness:
  "timely_reachable timely_world Second stopped_system \<and>
   agrees_with_log (10 * Second) stopped_log (drop 1 stopped_log)
     (read_some stopped_reader (int 1) (drop 1 stopped_log))"
proof -
  have new: "NewView (wd_ttl timely_world) = Some stopped_reader"
    by (simp add: NewView_def stopped_reader_def Second_def)
  have "1 \<le> length (sy_log stopped_system)" by (simp add: stopped_system_def one_agent_def)
  moreover have "part_of stopped_log (drop 1 stopped_log)" "drop 1 stopped_log \<noteq> []"
    "\<forall>r \<in> set (drop 1 stopped_log). int 1 \<le> r_Offset r"
    "v_certain (read_some stopped_reader (int 1) (drop 1 stopped_log))"
    by code_simp+
  ultimately have "agrees_with_log (wd_ttl timely_world) stopped_log (drop 1 stopped_log)
      (read_some stopped_reader (int 1) (drop 1 stopped_log))"
    using late_reader_agrees [OF timely_world_ok timely_stopped new, of 1 "drop 1 stopped_log"]
    by (simp add: stopped_log)
  with timely_stopped show ?thesis by simp
qed

end
