(* ===== verification/AgentLiveness.thy ===== *)
theory AgentLiveness
  imports AgentRules
begin

section \<open>What the agent gets done\<close>

text \<open>
  The other side of the writer rules: an agent that finds the lease free takes it, and one that
  renews in time keeps it, when its record lands next and in time and both the record and the
  answer of the broker reach it, in either order.
\<close>

text \<open>The record is read at \<open>t1\<close> and the answer at \<open>t2\<close>.\<close>

definition both_orders :: "gtime \<Rightarrow> gtime \<Rightarrow> int \<Rightarrow> gtime \<Rightarrow> string \<Rightarrow> event list set" where
  "both_orders t1 t2 n ts val =
     {[Read t1 n ts val, Acked t2 (Some n)], [Acked t2 (Some n), Read t1 n ts val]}"

text \<open>The view shows the term \<open>(own holder, e)\<close> as live.\<close>

definition shows_term :: "agent \<Rightarrow> int \<Rightarrow> view \<Rightarrow> bool" where
  "shows_term a e v \<longleftrightarrow>
     st_Holder (v_state v) = c_Holder (ag_cfg a) \<and> st_Epoch (v_state v) = e \<and>
     HeldAt (v_state v) (v_clock v)"

lemma checkTerm_own:
  "shows_term a (ag_epoch a) (ag_view a) \<Longrightarrow> checkTerm now a = a"
  by (simp add: checkTerm_def shows_term_def Let_def)

text \<open>An own record in flight that the view accepts: the verdict counts in either order.\<close>

lemma own_record_counts:
  assumes wf: "agent_wf a" and f: "ag_inflight a = Some f" "if_offset f = -1"
    and n: "n = ag_nextOffset a" "0 \<le> n"
    and d: "DecodeValue val = Inr d" "r_Holder d = c_Holder (ag_cfg a)" "r_Kind d = if_kind f"
    and v: "Apply (ag_view a) (d\<lparr>r_Offset := n, r_Timestamp := ts\<rparr>) = Inr (Accepted, v)"
    and e: "e = (if if_kind f = Claim then n else ag_epoch a)" "shows_term a e v"
    and t: "0 \<le> t1" "if_kind f = Renew \<Longrightarrow> t1 < ag_deadline a \<and> t2 < ag_deadline a"
    and es: "es \<in> both_orders t1 t2 n ts val"
  shows "ag_deadline (agent_run es a) = if_sentAt f + (c_TTL (ag_cfg a) - c_Margin (ag_cfg a)) \<and>
    ag_epoch (agent_run es a) = e \<and> ag_inflight (agent_run es a) = None \<and> ag_view (agent_run es a) = v"
proof -
  have cfg: "timing_ok (ag_cfg a)" and k: "if_kind f = Claim \<or> if_kind f = Renew"
    and none: "ag_ownOutcomes a n = None" and dl: "if_kind f = Claim \<Longrightarrow> ag_deadline a = 0"
    using wf f n by (auto simp: agent_wf_def inflight_ok_def)
  have see: "ag_view (seeRecord t1 n ts b) = ag_view b" if "ag_nextOffset b = n" for b
    using that by simp
  have settle: "ag_deadline (settle t Accepted b) = if_sentAt f + (c_TTL (ag_cfg a) - c_Margin (ag_cfg a))"
    "ag_epoch (settle t Accepted b) = e"
    if "ag_inflight b = Some (f\<lparr>if_offset := n\<rparr>)" "ag_cfg b = ag_cfg a" "ag_deadline b = ag_deadline a"
      "ag_epoch b = ag_epoch a" "t = t1 \<or> t = t2" for t b
    using that k e(1) t(2) cfg by (auto simp: settle_def agent_simps Let_def)
  from es consider "es = [Read t1 n ts val, Acked t2 (Some n)]" | "es = [Acked t2 (Some n), Read t1 n ts val]"
    by (auto simp: both_orders_def)
  then show ?thesis
  proof cases
    case 1
    let ?b = "(seeRecord t1 n ts a)\<lparr>ag_view := v\<rparr>"
    let ?c = "?b\<lparr>ag_ownOutcomes := (ag_ownOutcomes a)(n \<mapsto> Accepted)\<rparr>"
    have "shows_term ?c e v" using e(2) by (simp add: shows_term_def)
    then have "checkTerm t1 ?c = ?c"
      using k e(1) dl t(1) by (cases "if_kind f = Claim") (auto simp: checkTerm_def agent_simps shows_term_def Let_def)
    moreover have "ownRecord t1 n (r_Kind d) Accepted ?b = ?c"
      using f d(3) by (simp add: ownRecord_def)
    ultimately have "snd (agent_record t1 n ts val a) = ?c"
      using agent_record_applied [of n a val d t1 ts Accepted v] n(1) d see v by simp
    then have "agent_run es a = settle t2 Accepted (?c\<lparr>ag_inflight := Some (f\<lparr>if_offset := n\<rparr>)\<rparr>)"
      using 1 f by (simp add: acked_def)
    then show ?thesis
      using settle [of "?c\<lparr>ag_inflight := Some (f\<lparr>if_offset := n\<rparr>)\<rparr>" t2] settle_inflight(1) by simp
  next
    case 2
    let ?a = "a\<lparr>ag_inflight := Some (f\<lparr>if_offset := n\<rparr>)\<rparr>"
    let ?b = "(seeRecord t1 n ts ?a)\<lparr>ag_view := v\<rparr>"
    have "acked t2 (Some n) a = ?a" using f none by (simp add: acked_def)
    moreover have "ownRecord t1 n (r_Kind d) Accepted ?b = settle t1 Accepted ?b"
      using n(2) d(3) by (simp add: ownRecord_def)
    moreover have s: "ag_deadline (settle t1 Accepted ?b) = if_sentAt f + (c_TTL (ag_cfg a) - c_Margin (ag_cfg a))"
      "ag_epoch (settle t1 Accepted ?b) = e" by (rule settle; simp)+
    moreover from s have "shows_term (settle t1 Accepted ?b) (ag_epoch (settle t1 Accepted ?b)) (ag_view (settle t1 Accepted ?b))"
      using e(2) by (simp add: shows_term_def)
    ultimately have "agent_run es a = settle t1 Accepted ?b"
      using 2 agent_record_applied [of n ?a val d t1 ts Accepted v] n(1) d see v
      by (simp add: checkTerm_own)
    then show ?thesis using s settle_inflight(1) [of ?b] by simp
  qed
qed

subsection \<open>The record on the wire\<close>

lemma wire_ttl:
  assumes "Millisecond \<le> ttl"
  shows "0 < Milliseconds ttl * Millisecond" "Milliseconds ttl * Millisecond \<le> ttl"
proof -
  have "Milliseconds ttl * Millisecond = ttl - ttl mod Millisecond"
    using assms by (intro Milliseconds_floor) (simp add: Millisecond_def)
  moreover have "0 \<le> ttl mod Millisecond" "ttl mod Millisecond < Millisecond"
    by (simp_all add: Millisecond_def)
  ultimately show "0 < Milliseconds ttl * Millisecond" "Milliseconds ttl * Millisecond \<le> ttl"
    using assms(1) by linarith+
qed

text \<open>Settings of a participant that can write: timed, at least a millisecond of TTL, a holder in UTF-8.\<close>

definition can_write :: "config \<Rightarrow> bool" where
  "can_write c \<longleftrightarrow>
     timing_ok c \<and> Millisecond \<le> c_TTL c \<and> c_Holder c \<noteq> [] \<and> valid_utf8 (c_Holder c)"

lemma own_encodable:
  assumes "can_write (ag_cfg a)" "known_kind k" "is_i64 e"
  shows "encodable (newRecord a k e)"
    "carried (newRecord a k e) =
      (newRecord a k e)\<lparr>r_TTL := Milliseconds (c_TTL (ag_cfg a)) * Millisecond\<rparr>"
  using assms timing_bounds(5) [of "ag_cfg a"]
  by (auto simp: encodable_def can_write_def newRecord_def carried_def go_simps Let_def
      is_i64_def i64_min_def i64_max_def)

lemma own_value:
  assumes "can_write (ag_cfg a)" "known_kind k" "is_i64 e"
  obtains b where "EncodeValue (newRecord a k e) = Inr b"
    "DecodeValue b = Inr ((newRecord a k e)\<lparr>r_TTL := Milliseconds (c_TTL (ag_cfg a)) * Millisecond\<rparr>)"
  using codec.encode_decode [OF own_encodable(1) [OF assms]] own_encodable(2) [OF assms] by auto

text \<open>What the view of a writer makes of its own record.\<close>

lemma own_claim_accepted:
  assumes "can_write (ag_cfg a)" "view_wf v" "v_ttl v = c_TTL (ag_cfg a)" "v_certain v" "v_lastOffset v < n"
    and "\<not> HeldAt (v_state v) (max (v_clock v) ts)"
  shows "\<exists>w. Apply v ((newRecord a Claim 0)\<lparr>r_TTL := Milliseconds (c_TTL (ag_cfg a)) * Millisecond,
      r_Offset := n, r_Timestamp := ts\<rparr>) = Inr (Accepted, w) \<and> shows_term a n w"
  using assms wire_ttl [of "c_TTL (ag_cfg a)"]
  by (simp add: Apply_shape fold_rec_def validTTL_def newRecord_def shows_term_def can_write_def
      HeldAt_iff go_simps Let_def)

lemma own_renew_accepted:
  assumes "can_write (ag_cfg a)" "view_wf v" "v_ttl v = c_TTL (ag_cfg a)" "v_certain v" "v_lastOffset v < n"
    and "shows_term a e v" "HeldAt (v_state v) (max (v_clock v) ts)"
  shows "\<exists>w. Apply v ((newRecord a Renew e)\<lparr>r_TTL := Milliseconds (c_TTL (ag_cfg a)) * Millisecond,
      r_Offset := n, r_Timestamp := ts\<rparr>) = Inr (Accepted, w) \<and> shows_term a e w"
  using assms wire_ttl [of "c_TTL (ag_cfg a)"]
  by (simp add: Apply_shape fold_rec_def validTTL_def newRecord_def shows_term_def can_write_def
      HeldAt_iff go_simps Let_def)

text \<open>The agent that waits for its record.\<close>

lemma send_wf:
  assumes "agent_wf a" "k = Claim \<or> k = Renew" "k = Claim \<Longrightarrow> ag_deadline a = 0"
    and "ag_deadline a = 0 \<or> ag_lastSend a \<le> now"
  shows "agent_wf (snd (send now k a))"
  using assms by (auto simp: agent_wf_def inflight_ok_def belief_ok_def send_def Let_def)

subsection \<open>Properties\<close>

text \<open>C15: a free lease is taken: an agent with a certain view on which nobody holds the lease, with
  nothing in flight and its back-off over, claims on its next tick; if the claim lands as the next
  record while the lease is still free, the agent believes once it has read the claim back and
  has the broker's answer, in either order, with the claim's offset for its epoch, and until a TTL
  less the margin after it sent the claim.\<close>
theorem free_lease_is_taken:
  assumes "agent_wf a" "can_write (ag_cfg a)" "v_certain (ag_view a)" "ag_inflight a = None"
    and "v_lastOffset (ag_view a) < ag_nextOffset a" "0 \<le> ag_nextOffset a"
    and "ag_deadline a \<le> now" "ag_nextClaimAt a < now" "\<not> HeldAt (v_state (ag_view a)) (brokerNow a now)"
    and "\<not> HeldAt (v_state (ag_view a)) (max (v_clock (ag_view a)) ts)" "0 \<le> t1" "0 \<le> now"
  shows "\<exists>r b. fst (agent_tick now a) = Some r \<and> EncodeValue r = Inr b \<and>
    (\<forall>es \<in> both_orders t1 t2 (ag_nextOffset a) ts b.
       ag_epoch (agent_run es (snd (agent_tick now a))) = ag_nextOffset a \<and>
       ag_inflight (agent_run es (snd (agent_tick now a))) = None \<and>
       (\<forall>t. believing (agent_run es (snd (agent_tick now a))) t \<longleftrightarrow>
          t < now + (c_TTL (ag_cfg a) - c_Margin (ag_cfg a))))"
proof -
  let ?a = "a\<lparr>ag_deadline := 0\<rparr>" and ?n = "ag_nextOffset a"
  let ?s = "snd (send now Claim ?a)"
  have "brokerNow ?a now = brokerNow a now" by (simp add: brokerNow_def)
  then have tick: "agent_tick now a = (Some (newRecord a Claim 0), ?s)"
    using assms(3,4,7-9,12)
    by (simp add: agent_tick_def tickDeadline_eq tickDecide_def believing_iff send_def
        newRecord_def go_simps Let_def)
  obtain b where b: "EncodeValue (newRecord a Claim 0) = Inr b"
    "DecodeValue b = Inr ((newRecord a Claim 0)\<lparr>r_TTL := Milliseconds (c_TTL (ag_cfg a)) * Millisecond\<rparr>)"
    using own_value [OF assms(2), of Claim 0] by (auto simp: is_i64_def i64_min_def i64_max_def)
  have view: "view_wf (ag_view a)" "v_ttl (ag_view a) = c_TTL (ag_cfg a)"
    using assms(1) by (simp_all add: agent_wf_def)
  from own_claim_accepted [OF assms(2) view assms(3,5,10)] obtain v where
    v: "Apply (ag_view ?s) (((newRecord a Claim 0)\<lparr>r_TTL := Milliseconds (c_TTL (ag_cfg a)) * Millisecond\<rparr>)
      \<lparr>r_Offset := ?n, r_Timestamp := ts\<rparr>) = Inr (Accepted, v)" "shows_term a ?n v"
    by (auto simp: send_def Let_def)
  have wf: "agent_wf ?s" using drop_wf [OF assms(1)] by (intro send_wf) simp_all
  have s: "shows_term ?s ?n v" "ag_cfg ?s = ag_cfg a" using v(2) by (simp_all add: shows_term_def send_def Let_def)
  have "ag_epoch (agent_run es ?s) = ?n \<and> ag_inflight (agent_run es ?s) = None \<and>
      ag_deadline (agent_run es ?s) = now + (c_TTL (ag_cfg a) - c_Margin (ag_cfg a))"
    if "es \<in> both_orders t1 t2 ?n ts b" for es
    using own_record_counts [OF wf _ _ _ assms(6) b(2) _ _ v(1) _ s(1) assms(11) _ that]
    by (simp add: send_def newRecord_def Let_def)
  then show ?thesis using tick b(1) by (auto simp: believing_iff)
qed

text \<open>C16: a renewal in time keeps the lease: a believer whose certain view shows its term, with
  nothing in flight and the renew interval over, renews on its next tick; if the renewal lands as
  the next record before the term ends and is read and answered while the agent believes, in
  either order, the belief lasts until a TTL less the margin after the renewal was sent.\<close>
theorem renewal_keeps_lease:
  assumes "agent_wf a" "can_write (ag_cfg a)" "v_certain (ag_view a)" "ag_inflight a = None"
    and "v_lastOffset (ag_view a) < ag_nextOffset a" "0 \<le> ag_nextOffset a" "is_i64 (ag_epoch a)"
    and "shows_term a (ag_epoch a) (ag_view a)" "c_RenewEvery (ag_cfg a) \<le> time_Sub now (ag_lastSend a)"
    and "HeldAt (v_state (ag_view a)) (max (v_clock (ag_view a)) ts)"
    and "0 \<le> t1" "now < ag_deadline a" "t1 < ag_deadline a" "t2 < ag_deadline a"
  shows "\<exists>r b. fst (agent_tick now a) = Some r \<and> EncodeValue r = Inr b \<and>
    (\<forall>es \<in> both_orders t1 t2 (ag_nextOffset a) ts b.
       ag_epoch (agent_run es (snd (agent_tick now a))) = ag_epoch a \<and>
       ag_inflight (agent_run es (snd (agent_tick now a))) = None \<and>
       (\<forall>t. believing (agent_run es (snd (agent_tick now a))) t \<longleftrightarrow>
          t < now + (c_TTL (ag_cfg a) - c_Margin (ag_cfg a))))"
proof -
  let ?e = "ag_epoch a" and ?n = "ag_nextOffset a"
  let ?s = "snd (send now Renew a)" and ?r = "newRecord a Renew (ag_epoch a)"
  have tick: "agent_tick now a = (Some ?r, ?s)"
    using assms(3,4,9,12)
    by (simp add: agent_tick_def tickDeadline_eq tickDecide_def believing_iff send_def
        newRecord_def go_simps Let_def)
  obtain b where b: "EncodeValue ?r = Inr b"
    "DecodeValue b = Inr (?r\<lparr>r_TTL := Milliseconds (c_TTL (ag_cfg a)) * Millisecond\<rparr>)"
    using own_value [OF assms(2) _ assms(7), of Renew] by auto
  have view: "view_wf (ag_view a)" "v_ttl (ag_view a) = c_TTL (ag_cfg a)"
    using assms(1) by (simp_all add: agent_wf_def)
  from own_renew_accepted [OF assms(2) view assms(3,5,8,10)] obtain v where
    v: "Apply (ag_view ?s) ((?r\<lparr>r_TTL := Milliseconds (c_TTL (ag_cfg a)) * Millisecond\<rparr>)
      \<lparr>r_Offset := ?n, r_Timestamp := ts\<rparr>) = Inr (Accepted, v)" "shows_term a ?e v"
    by (auto simp: send_def Let_def)
  have "0 \<le> c_RenewEvery (ag_cfg a)"
    using timing_bounds(3) assms(2) by (simp add: can_write_def)
  then have "ag_lastSend a \<le> now" using assms(9) by (auto simp: time_Sub_def i64_sat_def min_def max_def i64_min_def split: if_splits)
  then have wf: "agent_wf ?s" using assms(1) by (intro send_wf) simp_all
  have s: "shows_term ?s ?e v" "ag_cfg ?s = ag_cfg a" "ag_epoch ?s = ?e"
    using v(2) by (simp_all add: shows_term_def send_def Let_def)
  have "ag_epoch (agent_run es ?s) = ?e \<and> ag_inflight (agent_run es ?s) = None \<and>
      ag_deadline (agent_run es ?s) = now + (c_TTL (ag_cfg a) - c_Margin (ag_cfg a))"
    if "es \<in> both_orders t1 t2 ?n ts b" for es
    using own_record_counts [OF wf _ _ _ assms(6) b(2) _ _ v(1) _ s(1) assms(11) _ that] assms(13,14)
    by (simp add: send_def newRecord_def Let_def)
  then show ?thesis using tick b(1) by (auto simp: believing_iff)
qed

subsection \<open>Witnesses\<close>

text \<open>A reader of an empty log, and the holder of its first record a renew interval later.\<close>

definition first_agent :: agent where
  "first_agent =
     \<lparr>ag_cfg = sample_config ''a'', ag_view = sample_view\<lparr>v_state := \<lparr>st_Holder = [], st_Epoch = -1,
        st_Expires = 0\<rparr>, v_clock := 0, v_lastOffset := -1, v_seen := False\<rparr>, ag_nextOffset = 0,
      ag_highWater = 0, ag_ownOutcomes = Map.empty, ag_epoch = -1, ag_deadline = 0, ag_inflight = None,
      ag_lastSend = 0, ag_nextClaimAt = 0, ag_connected = True, ag_fetchedOnce = True,
      ag_caughtUpAt = 0, ag_lastRecordAt = 0, ag_lastRecordBroker = 0\<rparr>"

lemma sample_can_write: "can_write (sample_config ''a'')"
proof -
  have "plain_key ''a''" by code_simp
  then show ?thesis
    using plain_key_quote sample_timing [of "''a''"]
    by (simp add: can_write_def sample_config_def Second_def Millisecond_def)
qed

theorem free_lease_is_taken_witness:
  "\<exists>b. ag_epoch (agent_run [Acked 3 (Some 0), Read 4 0 5 b] (snd (agent_tick 2 first_agent))) = 0 \<and>
     believing (agent_run [Acked 3 (Some 0), Read 4 0 5 b] (snd (agent_tick 2 first_agent))) (7 * Second)"
proof -
  have "agent_wf first_agent"
    using sample_timing by (simp add: agent_wf_def first_agent_def view_wf_def inflight_ok_def
        belief_ok_def sample_view_def sample_config_def Second_def)
  moreover have "can_write (ag_cfg first_agent)" using sample_can_write by (simp add: first_agent_def)
  moreover have "[Acked 3 (Some 0), Read 4 0 5 b] \<in> both_orders 4 3 0 5 b" for b
    by (simp add: both_orders_def)
  ultimately show ?thesis
    using free_lease_is_taken [of first_agent 2 5 4 3]
    by (fastforce simp: first_agent_def sample_view_def sample_config_def HeldAt_iff Second_def)
qed

definition due_agent :: agent where
  "due_agent = sample_agent\<lparr>ag_inflight := None\<rparr>"

theorem renewal_keeps_lease_witness:
  "\<exists>b. believing (agent_run [Read (101 * Second) 7 (200 * Second) b, Acked (102 * Second) (Some 7)]
     (snd (agent_tick (100 * Second) due_agent))) (107 * Second)"
proof -
  have "agent_wf due_agent"
    using sample_timing by (simp add: agent_wf_def due_agent_def sample_agent_def view_wf_def
        inflight_ok_def belief_ok_def sample_view_def sample_config_def Second_def)
  moreover have "can_write (ag_cfg due_agent)"
    using sample_can_write by (simp add: due_agent_def sample_agent_def)
  moreover have "[Read (101 * Second) 7 (200 * Second) b, Acked (102 * Second) (Some 7)] \<in>
      both_orders (101 * Second) (102 * Second) 7 (200 * Second) b" for b
    by (simp add: both_orders_def)
  ultimately show ?thesis
    using renewal_keeps_lease [of due_agent "100 * Second" "200 * Second" "101 * Second" "102 * Second"]
    by (fastforce simp: due_agent_def sample_agent_def sample_view_def sample_config_def HeldAt_iff
        shows_term_def Second_def is_i64_def i64_min_def i64_max_def time_Sub_def i64_sat_def)
qed

end
