(* ===== verification/MachineIntegers.thy ===== *)
theory MachineIntegers
  imports AgentInvariant
begin

section \<open>The 64-bit numbers of the agent\<close>

text \<open>
  Offsets, epochs and durations are int64 in lease/record.go, lease/view.go and lease/agent.go. The
  model keeps them as integers, with Go's wrap-around where it computes durations; it adds to an
  offset without. The theorem says that this is the program: whatever bytes are on the topic,
  every such number of a decoded record, of a view and of an agent stays an int64.
\<close>

definition record_typed :: "lrecord \<Rightarrow> bool" where
  "record_typed r \<longleftrightarrow> is_i64 (r_Offset r) \<and> is_i64 (r_Epoch r) \<and> is_i64 (r_TTL r)"

definition view_typed :: "view \<Rightarrow> bool" where
  "view_typed v \<longleftrightarrow>
     is_i64 (v_ttl v) \<and> is_i64 (v_lastOffset v) \<and> is_i64 (st_Epoch (v_state v)) \<and>
     (\<forall>r \<in> set (v_pending v). record_typed r)"

definition config_typed :: "config \<Rightarrow> bool" where
  "config_typed c \<longleftrightarrow> is_i64 (c_TTL c) \<and> is_i64 (c_Margin c) \<and> is_i64 (c_RenewEvery c)"

definition agent_typed :: "agent \<Rightarrow> bool" where
  "agent_typed a \<longleftrightarrow>
     config_typed (ag_cfg a) \<and> view_typed (ag_view a) \<and> is_i64 (ag_nextOffset a) \<and>
     is_i64 (ag_highWater a) \<and> is_i64 (ag_epoch a) \<and>
     (\<forall>f \<in> set_option (ag_inflight a). is_i64 (if_offset f))"

text \<open>What arrives: int64 offsets; a record's offset has a successor.\<close>

fun event_typed :: "event \<Rightarrow> bool" where
  "event_typed (Fetched now hw) = is_i64 hw"
| "event_typed (Read now off ts val) = (is_i64 off \<and> off < i64_max)"
| "event_typed (Acked now res) = (\<forall>off \<in> set_option res. is_i64 off)"
| "event_typed _ = True"

lemma i64_consts [simp]: "is_i64 0" "is_i64 (-1)"
  by (simp_all add: is_i64_def i64_min_def i64_max_def)

subsection \<open>Decoded records\<close>

lemma set_int_typed: "set_int j old = Some x \<Longrightarrow> is_i64 old \<Longrightarrow> is_i64 x"
  by (auto simp: set_int_def parse_int64_def Let_def split: json.splits if_splits prod.splits)

definition wire_typed :: "wire_record \<Rightarrow> bool" where
  "wire_typed w \<longleftrightarrow> is_i64 (w_Version w) \<and> is_i64 (w_Epoch w) \<and> is_i64 (w_TTLMs w)"

lemma set_field_typed: "set_field k j w = Some w' \<Longrightarrow> wire_typed w \<Longrightarrow> wire_typed w'"
  by (auto simp: set_field_def wire_typed_def Let_def split: if_splits dest: set_int_typed)

lemma set_fields_typed: "set_fields kjs w = Some w' \<Longrightarrow> wire_typed w \<Longrightarrow> wire_typed w'"
  by (induction kjs w rule: set_fields.induct) (auto split: option.splits dest: set_field_typed)

lemma unmarshal_wire_typed: "unmarshal_wire b = Some w \<Longrightarrow> wire_typed w"
proof -
  have "wire_typed zero_wire" by (simp add: wire_typed_def zero_wire_def)
  then show "unmarshal_wire b = Some w \<Longrightarrow> wire_typed w"
    by (auto simp: unmarshal_wire_def split: option.splits json.splits dest: set_fields_typed)
qed

lemma DecodeValue_typed: "DecodeValue b = Inr d \<Longrightarrow> record_typed d"
  by (auto simp: DecodeValue_def record_typed_def wire_typed_def i64_mul_def
      split: option.splits if_splits dest!: unmarshal_wire_typed)

subsection \<open>The view\<close>

lemma fold_rec_typed: "view_typed v \<Longrightarrow> record_typed r \<Longrightarrow> view_typed (snd (fold_rec v r))"
  by (auto simp: view_typed_def record_typed_def fold_rec_def Let_def split: kind.splits)

lemma replay_typed: "view_typed v \<Longrightarrow> \<forall>r \<in> set rs. record_typed r \<Longrightarrow> view_typed (replay v rs)"
  by (induction rs arbitrary: v) (simp_all add: fold_rec_typed)

lemma setFree_typed: "view_typed v \<Longrightarrow> view_typed (setFree v)"
  by (simp add: view_typed_def setFree_def Let_def)

lemma Gap_typed: "view_typed v \<Longrightarrow> view_typed (Gap v)"
  by (simp add: view_typed_def)

lemma Quiet_typed: "view_typed v \<Longrightarrow> view_typed (snd (Quiet v d))"
  by (simp add: Quiet_def setFree_typed)

lemma keepPending_typed: "view_typed v \<Longrightarrow> record_typed r \<Longrightarrow> view_typed (snd (keepPending v r))"
  by (fastforce simp: view_typed_def keepPending_def prunePending_def Let_def dest: set_dropWhileD)

lemma applyUncertain_typed:
  assumes v: "view_typed v" and r: "record_typed r"
  shows "view_typed (snd (applyUncertain v r))"
proof (cases "find_anchor (fst (rec_term r)) (snd (rec_term r)) (v_pending v)")
  case None
  with v r show ?thesis by (simp add: applyUncertain_def keepPending_typed)
next
  case (Some p)
  obtain q rest where p: "p = (q, rest)" by (metis surj_pair)
  obtain front where f: "v_pending v = front @ q # rest" "rec_term q = rec_term r"
    using find_anchor_Some [OF Some [unfolded p]] by auto
  have "is_i64 (snd (rec_term r))" using r by (auto simp: record_typed_def rec_term_def)
  with v f have "view_typed (v\<lparr>v_state := \<lparr>st_Holder = fst (rec_term r), st_Epoch = snd (rec_term r),
      st_Expires = time_Add (r_Timestamp q) (r_TTL q)\<rparr>, v_certain := True, v_pending := []\<rparr>)"
    "\<forall>x \<in> set rest. record_typed x"
    by (auto simp: view_typed_def)
  then show ?thesis
    using v r p Some by (simp add: applyUncertain_def keepPending_typed fold_rec_typed replay_typed)
qed

lemma Apply_typed:
  assumes "view_typed v" "record_typed r" "Apply v r = Inr (out, v')"
  shows "view_typed v'"
proof -
  have "view_typed (stamped v r)" "record_typed (clamped v r)"
    using assms(1,2) by (auto simp: view_typed_def record_typed_def)
  then have "view_typed (snd (if v_certain v then fold_rec (stamped v r) (clamped v r)
      else if silent_before v r then fold_rec (setFree (stamped v r)) (clamped v r)
      else applyUncertain (stamped v r) (clamped v r)))"
    using fold_rec_typed setFree_typed applyUncertain_typed by simp
  moreover have "v' = snd (if v_certain v then fold_rec (stamped v r) (clamped v r)
      else if silent_before v r then fold_rec (setFree (stamped v r)) (clamped v r)
      else applyUncertain (stamped v r) (clamped v r))"
    using assms(3) by (auto simp: Apply_shape split: if_splits dest: sym)
  ultimately show ?thesis by simp
qed

subsection \<open>The agent\<close>

lemma view_agent_typed: "agent_typed a \<Longrightarrow> view_typed v \<Longrightarrow> agent_typed (a\<lparr>ag_view := v\<rparr>)"
  by (simp add: agent_typed_def)

lemma settle_typed: "agent_typed a \<Longrightarrow> agent_typed (settle now out a)"
  by (auto simp: agent_typed_def settle_def extendBelief_def dropBelief_def Let_def split: option.splits)

lemma ownRecord_typed: "agent_typed a \<Longrightarrow> agent_typed (ownRecord now off k out a)"
  using settle_typed [of a now out] by (simp add: ownRecord_def agent_typed_def split: option.splits)

lemma acked_typed:
  assumes "agent_typed a" "\<forall>off \<in> set_option res. is_i64 off"
  shows "agent_typed (acked now res a)"
proof (cases "ag_inflight a")
  case (Some f)
  have ok: "agent_typed (a\<lparr>ag_inflight := Some (f\<lparr>if_offset := off\<rparr>)\<rparr>)" if "res = Some off" for off
    using assms that by (simp add: agent_typed_def)
  have none: "agent_typed (a\<lparr>ag_inflight := None\<rparr>)" "agent_typed (a\<lparr>ag_inflight := None, ag_nextClaimAt := t\<rparr>)"
    for t using assms(1) by (simp_all add: agent_typed_def)
  show ?thesis
    using Some ok none settle_typed [OF ok] by (simp add: acked_def Let_def split: option.splits)
qed (use assms in \<open>simp add: acked_def\<close>)

lemma checkTerm_typed: "agent_typed a \<Longrightarrow> agent_typed (checkTerm now a)"
  by (simp add: agent_typed_def)

lemma seeRecord_typed:
  "agent_typed a \<Longrightarrow> is_i64 off \<Longrightarrow> off < i64_max \<Longrightarrow> agent_typed (seeRecord now off ts a)"
  using Gap_typed by (auto simp: agent_typed_def is_i64_def seeRecord_def)

lemma agent_record_typed:
  assumes a: "agent_typed a" and off: "is_i64 off" "off < i64_max"
  shows "agent_typed (snd (agent_record now off ts val a))"
proof -
  let ?s = "seeRecord now off ts a"
  have s: "agent_typed ?s" by (rule seeRecord_typed [OF a off])
  have "agent_typed (?s\<lparr>ag_view := v\<rparr>)"
    if "DecodeValue val = Inr d" "Apply (ag_view ?s) (d\<lparr>r_Offset := off, r_Timestamp := ts\<rparr>) = Inr (out, v)"
    for d out v
  proof (rule view_agent_typed [OF s Apply_typed [OF _ _ that(2)]])
    show "view_typed (ag_view ?s)" using s by (simp add: agent_typed_def)
    show "record_typed (d\<lparr>r_Offset := off, r_Timestamp := ts\<rparr>)"
      using DecodeValue_typed [OF that(1)] off(1) by (simp add: record_typed_def)
  qed
  with s a ownRecord_typed checkTerm_typed show ?thesis
    by (auto simp: agent_record_def Let_def split: sum.splits simp del: seeRecord_frame(9))
qed

lemma tickDeadline_typed: "agent_typed a \<Longrightarrow> agent_typed (tickDeadline now a)"
  by (simp add: tickDeadline_eq agent_typed_def)

lemma tickSilence_typed: "agent_typed a \<Longrightarrow> agent_typed (tickSilence now a)"
  using Quiet_typed by (simp add: tickSilence_def agent_typed_def)

lemma send_typed:
  "agent_typed a \<Longrightarrow> agent_typed (snd (send now k a)) \<and> record_typed (fst (send now k a))"
  by (simp add: send_def newRecord_def agent_typed_def config_typed_def record_typed_def Let_def)

lemma agent_step_typed:
  assumes "agent_typed a" "event_typed e"
  shows "agent_typed (snd (agent_step e a)) \<and> (\<forall>r \<in> set_option (fst (agent_step e a)). record_typed r)"
proof (cases e)
  case FetchFailed
  with assms show ?thesis by (simp add: fetchFailed_def agent_typed_def)
next
  case (Fetched now hw)
  with assms show ?thesis by (auto simp: fetched_def agent_typed_def Let_def max_def)
next
  case (Read now off ts val)
  with assms agent_record_typed show ?thesis by simp
next
  case (Acked now res)
  with assms acked_typed show ?thesis by simp
next
  case (Tick now)
  have "agent_typed (tickSilence now (tickDeadline now a))"
    using assms tickDeadline_typed tickSilence_typed by blast
  from send_typed [OF this] this Tick show ?thesis
    by (auto simp: agent_tick_def tickDecide_def Let_def case_prod_unfold)
next
  case (Stop now)
  with assms show ?thesis
    by (auto simp: agent_release_def dropBelief_eq newRecord_def agent_typed_def config_typed_def
        record_typed_def Let_def)
qed

lemma newAgent_typed:
  "newAgent cfg start endOff now = Some a \<Longrightarrow> config_typed cfg \<Longrightarrow> is_i64 start \<Longrightarrow> is_i64 endOff \<Longrightarrow>
     agent_typed a"
  by (auto simp: newAgent_def NewViewFromStart_def NewView_def agent_typed_def view_typed_def
      config_typed_def Let_def split: if_splits)

lemma agent_run_typed: "agent_typed a \<Longrightarrow> \<forall>e \<in> set es. event_typed e \<Longrightarrow> agent_typed (agent_run es a)"
  by (induction es arbitrary: a) (simp_all add: agent_step_typed)

subsection \<open>All runs\<close>

text \<open>For 64-bit settings, offsets and high watermarks every offset, epoch and TTL the agent keeps, in
  its view and of the records it remembers included, stays a 64-bit number whatever it reads, and
  so does every record it writes: the model's integers never leave the program's types.\<close>
lemma numbers_stay_int64:
  assumes "newAgent cfg start endOff now = Some a" "config_typed cfg" "is_i64 start" "is_i64 endOff"
    and "\<forall>e \<in> set es. event_typed e" "event_typed e"
  shows "agent_typed (agent_run es a) \<and>
    (\<forall>r. fst (agent_step e (agent_run es a)) = Some r \<longrightarrow> record_typed r)"
  using agent_run_typed [OF newAgent_typed [OF assms(1-4)] assms(5)] agent_step_typed [OF _ assms(6)]
  by fastforce

end
