(* ===== verification/HolderNames.thy ===== *)
theory HolderNames
  imports AgentRules MachineIntegers
begin

section \<open>Names that are not UTF-8\<close>

text \<open>
  A holder is any non-empty string (lease/candidate.go, \<open>withDefaults\<close>), but what encoding/json reads
  is always valid UTF-8: \<open>parse_str\<close> decodes to runes whatever the bytes. So a participant whose
  holder is not valid UTF-8 never finds a record of its own in the log.
\<close>

subsection \<open>What a string decodes to\<close>

text \<open>One encoded rune.\<close>

definition rune :: "string \<Rightarrow> bool" where
  "rune x \<longleftrightarrow> x \<noteq> [] \<and> utf8_len x = length x"

lemma valid_Nil [simp]: "valid_utf8 []"
  by (simp add: valid_utf8.simps)

lemma valid_rune: "rune x \<Longrightarrow> valid_utf8 y \<Longrightarrow> valid_utf8 (x @ y)"
proof -
  assume x: "rune x" and y: "valid_utf8 y"
  then have "utf8_len (x @ y) = length x"
    using utf8_len_take [of x "length x" y] by (simp add: rune_def del: utf8_len.simps)
  with x y show "valid_utf8 (x @ y)"
    by (subst valid_utf8.simps) (simp add: rune_def del: utf8_len.simps)
qed

lemma rune_ascii: "byte c < 128 \<Longrightarrow> rune [c]"
  by (simp add: rune_def)

lemma rune_take: "utf8_len s \<noteq> 0 \<Longrightarrow> rune (take (utf8_len s) s)"
  using utf8_len_take [of s "utf8_len s" "[]"] by (auto simp: rune_def simp del: utf8_len.simps)

lemma rune_error: "rune RuneError"
  unfolding rune_def RuneError_def by code_simp

lemma rune_enc_2: "128 \<le> r \<Longrightarrow> r < 2048 \<Longrightarrow> rune (utf8_enc r)"
proof -
  assume r: "128 \<le> r" "r < 2048"
  then have "2 \<le> r div 64" "r div 64 < 32" by (simp_all add: less_mult_imp_div_less le_div_geq)
  with r show ?thesis
    by (simp add: rune_def utf8_enc_def byte_char_of cont_def)
qed

lemma base64: "q = 64 * (q div 64) + q mod 64 \<and> q mod 64 < 64" for q :: nat
  by simp

lemma rune_enc_3:
  assumes "2048 \<le> r" "r < 65536" "\<not> surrogate r"
  shows "rune (utf8_enc r)"
proof -
  define q where "q = r div 64"
  have q: "r div 4096 = q div 64" "32 \<le> q" "q < 1024"
    using assms by (simp_all add: q_def div_mult2_eq [of r 64 64, symmetric])
  have "q < 864 \<or> 896 \<le> q" using assms(3) by (auto simp: surrogate_def q_def)
  with q base64 [of q] have "q div 64 < 16" "q div 64 = 0 \<Longrightarrow> 32 \<le> q mod 64" "q div 64 = 13 \<Longrightarrow> q mod 64 \<le> 31"
    by linarith+
  with assms show ?thesis
    unfolding rune_def utf8_enc_def q(1) q_def [symmetric]
    by (auto simp: byte_char_of cont_def Let_def)
qed

lemma rune_enc_4:
  assumes "65536 \<le> r" "r < 1114112"
  shows "rune (utf8_enc r)"
proof -
  define q where "q = r div 4096"
  have q: "r div 262144 = q div 64" "16 \<le> q" "q < 272"
    using assms by (simp_all add: q_def div_mult2_eq [of r 4096 64, symmetric])
  with base64 [of q] have "q div 64 \<le> 4" "q div 64 = 0 \<Longrightarrow> 16 \<le> q mod 64" "q div 64 = 4 \<Longrightarrow> q mod 64 \<le> 15"
    by linarith+
  with assms show ?thesis
    unfolding rune_def utf8_enc_def q(1) q_def [symmetric]
    by (auto simp: byte_char_of cont_def Let_def)
qed

lemma rune_enc: "r < 1114112 \<Longrightarrow> \<not> surrogate r \<Longrightarrow> rune (utf8_enc r)"
  using rune_enc_2 rune_enc_3 rune_enc_4 rune_ascii [of "char_of r"]
  by (cases "r < 128"; cases "r < 2048"; cases "r < 65536") (auto simp: utf8_enc_def byte_char_of)

lemma hex_val_lt: "hex_val c = Some x \<Longrightarrow> x < 16"
  by (auto simp: hex_val_def Let_def split: if_splits)

lemma hex4_lt: "hex4 s = Some (r, rest) \<Longrightarrow> r < 65536"
  by (cases s rule: hex4.cases) (auto split: bind_splits dest!: hex_val_lt)

lemma rune_unescape: "unescape_u s = Some (x, rest) \<Longrightarrow> rune x"
proof -
  assume u: "unescape_u s = Some (x, rest)"
  then obtain r t where h: "hex4 s = Some (r, t)" by (auto simp: unescape_u_def split: option.splits)
  have pair: "rune (utf8_enc ((r - 55296) * 1024 + (r2 - 56320) + 65536))"
    if "r < 56320" "r2 < 57344" "surrogate r" "56320 \<le> r2" for r2
    using that by (intro rune_enc) (auto simp: surrogate_def)
  show "rune x"
    using u h hex4_lt [OF h] rune_enc [of r] rune_error pair
    by (auto simp: unescape_u_def split: if_splits list.splits option.splits)
qed

lemma rune_step: "unquote_step s = Some (x, rest) \<Longrightarrow> rune x"
proof -
  have "byte QUOTE < 128" "byte BSLASH < 128" "byte (CHR ''/'') < 128" by code_simp+
  moreover have "byte c < 128" if "0 < utf8_len [c]" for c using that by (simp add: Let_def split: if_splits)
  ultimately show "unquote_step s = Some (x, rest) \<Longrightarrow> rune x"
    using rune_take rune_error
    by (auto simp: unquote_step_def byte_char_of split: list.splits if_splits
        dest: rune_unescape intro: rune_ascii simp del: utf8_len.simps)
qed

lemma parse_str_utf8: "parse_str s = Some (x, rest) \<Longrightarrow> valid_utf8 x"
proof (induction s arbitrary: x rest rule: parse_str.induct)
  case (1 s)
  show ?case
  proof (cases "s \<noteq> [] \<and> hd s = QUOTE")
    case True
    with 1(2) show ?thesis by (subst (asm) parse_str.simps) simp
  next
    case False
    with 1(2) obtain y t z where "unquote_step s = Some (y, t)" "parse_str t = Some (z, rest)" "x = y @ z"
      by (subst (asm) parse_str.simps) (auto split: option.splits if_splits)
    with 1(1) [OF False] rune_step valid_rune show ?thesis by metis
  qed
qed

subsection \<open>What a record says\<close>

fun strings_utf8 :: "json \<Rightarrow> bool" where
  "strings_utf8 (JStr s) = valid_utf8 s"
| "strings_utf8 (JArr js) = (\<forall>j \<in> set js. strings_utf8 j)"
| "strings_utf8 (JObj kjs) = (\<forall>kj \<in> set kjs. strings_utf8 (snd kj))"
| "strings_utf8 _ = True"

lemma parse_utf8:
  "(\<forall>d s v r. parse_value f d s = Some (v, r) \<longrightarrow> strings_utf8 v) \<and>
   (\<forall>d s vs r. parse_elems f d s = Some (vs, r) \<longrightarrow> (\<forall>v \<in> set vs. strings_utf8 v)) \<and>
   (\<forall>d s ms r. parse_members f d s = Some (ms, r) \<longrightarrow> (\<forall>m \<in> set ms. strings_utf8 (snd m)))"
proof (induction f)
  case (Suc f)
  then have IH: "parse_value f d s = Some (v, r) \<Longrightarrow> strings_utf8 v"
    "parse_elems f d s = Some (vs, r) \<Longrightarrow> \<forall>v \<in> set vs. strings_utf8 v"
    "parse_members f d s = Some (ms, r) \<Longrightarrow> \<forall>m \<in> set ms. strings_utf8 (snd m)"
    for d s v vs ms r by blast+
  have "strings_utf8 v" if "parse_value (Suc f) d s = Some (v, r)" for d s v r
    using that by (auto simp: literal_def split: list.splits if_splits dest!: IH parse_str_utf8)
  moreover have "\<forall>v \<in> set vs. strings_utf8 v" if "parse_elems (Suc f) d s = Some (vs, r)" for d s vs r
    using that by (auto split: list.splits if_splits option.splits dest!: IH)
  moreover have "\<forall>m \<in> set ms. strings_utf8 (snd m)" if "parse_members (Suc f) d s = Some (ms, r)" for d s ms r
    using that by (auto split: list.splits if_splits option.splits dest!: IH) force
  ultimately show ?case by blast
qed simp

lemma parse_json_utf8: "parse_json b = Some j \<Longrightarrow> strings_utf8 j"
  by (auto simp: parse_json_def split: option.splits if_splits simp del: parse_value.simps
      dest!: conjunct1 [OF parse_utf8, rule_format])

lemma set_field_utf8:
  "set_field k j w = Some w' \<Longrightarrow> strings_utf8 j \<Longrightarrow> valid_utf8 (w_Holder w) \<Longrightarrow> valid_utf8 (w_Holder w')"
  by (auto simp: set_field_def set_string_def Let_def split: if_splits json.splits)

lemma set_fields_utf8:
  "set_fields kjs w = Some w' \<Longrightarrow> \<forall>kj \<in> set kjs. strings_utf8 (snd kj) \<Longrightarrow> valid_utf8 (w_Holder w) \<Longrightarrow>
     valid_utf8 (w_Holder w')"
  by (induction kjs w rule: set_fields.induct) (auto split: option.splits dest: set_field_utf8)

lemma DecodeValue_utf8:
  assumes "DecodeValue b = Inr d"
  shows "valid_utf8 (r_Holder d)"
proof -
  obtain w where w: "unmarshal_wire b = Some w" "r_Holder d = w_Holder w"
    using assms by (auto simp: DecodeValue_def split: option.splits if_splits)
  have "valid_utf8 (w_Holder zero_wire)" by (simp add: zero_wire_def)
  then have "valid_utf8 (w_Holder w)"
    using w(1) by (auto simp: unmarshal_wire_def split: option.splits json.splits
        dest!: parse_json_utf8 dest: set_fields_utf8)
  with w(2) show ?thesis by simp
qed

subsection \<open>Properties\<close>

lemma foreign_record:
  assumes "\<not> valid_utf8 (c_Holder (ag_cfg a))" "ag_ownOutcomes a = Map.empty"
  shows "ag_ownOutcomes (snd (agent_record now off ts val a)) = Map.empty"
  using assms DecodeValue_utf8 [of val]
  by (auto simp: agent_record_def Let_def split: sum.splits simp del: seeRecord_frame(9))

lemma foreign_step:
  assumes "\<not> valid_utf8 (c_Holder (ag_cfg a))" "ag_ownOutcomes a = Map.empty"
  shows "ag_ownOutcomes (snd (agent_step e a)) = Map.empty"
proof (cases e)
  case (Read now off ts val)
  with foreign_record [OF assms] show ?thesis by simp
next
  case (Acked now res)
  with assms show ?thesis by (simp add: acked_def Let_def split: option.splits)
qed (use assms in \<open>auto simp: agent_tick_def tickDecide_def tickDeadline_eq agent_release_def dropBelief_eq
      send_def Let_def\<close>)

lemma foreign_belief:
  assumes "\<not> valid_utf8 (c_Holder (ag_cfg a))" "ag_ownOutcomes a = Map.empty" "timing_ok (ag_cfg a)"
    and "ag_deadline a = 0"
  shows "ag_deadline (snd (agent_step e a)) = 0"
proof (rule ccontr)
  assume ne: "ag_deadline (snd (agent_step e a)) \<noteq> 0"
  have "r_Holder d \<noteq> c_Holder (ag_cfg a)" if "DecodeValue b = Inr d" for b d
    using DecodeValue_utf8 [OF that] assms(1) by auto
  then have "\<not> own_accepted e a a' f off" for a' f off
    using assms(2) by (auto simp: own_accepted_def reads_back_def split: event.splits option.splits sum.splits)
  moreover have "\<exists>f off. own_accepted e a (snd (agent_step e a)) f off"
  proof (cases e)
    case (Read now off ts val)
    with record_belief [of _ now off ts val a] ne assms(3,4) show ?thesis by auto
  next
    case (Acked now res)
    with acked_belief [of now res a] ne assms(3,4) show ?thesis by auto
  next
    case (Tick now)
    with tick_belief [of now a] ne assms(4) show ?thesis by (simp split: if_splits)
  next
    case (Stop now)
    with release_belief [of now a] ne assms(4) show ?thesis by (simp split: if_splits)
  qed (use ne assms(4) in simp_all)
  ultimately show False by blast
qed

lemma foreign_run:
  "\<not> valid_utf8 (c_Holder (ag_cfg a)) \<Longrightarrow> ag_ownOutcomes a = Map.empty \<Longrightarrow> timing_ok (ag_cfg a) \<Longrightarrow>
     ag_deadline a = 0 \<Longrightarrow> ag_deadline (agent_run es a) = 0"
  by (induction es arbitrary: a) (simp_all add: foreign_step foreign_belief)

text \<open>C27: whatever bytes are on the topic, DecodeValue gives an error or a record every participant could
  have written: a claim, renew or release with a non-empty holder in valid UTF-8, 64-bit numbers, no
  epoch on a claim, which EncodeValue writes again with the same meaning up to whole milliseconds.\<close>
theorem decoded_is_encodable:
  "case DecodeValue b of
     Inl e \<Rightarrow> e \<noteq> CannotEncode k
   | Inr r \<Rightarrow> encodable r \<and> (if r_Kind r = Claim then r_Epoch r = 0 else True) \<and>
       r_Offset r = 0 \<and> r_Timestamp r = 0 \<and>
       (\<exists>b'. EncodeValue r = Inr b' \<and>
          DecodeValue b' = Inr (r\<lparr>r_TTL := Milliseconds (r_TTL r) * Millisecond\<rparr>))"
proof (cases "DecodeValue b")
  case (Inl e)
  then show ?thesis by (auto simp: DecodeValue_def split: option.splits if_splits)
next
  case (Inr r)
  then have r: "known_kind (r_Kind r)" "r_Holder r \<noteq> []" "r_Kind r = Claim \<longrightarrow> r_Epoch r = 0"
    "r_Offset r = 0" "r_Timestamp r = 0"
    by (auto simp: DecodeValue_def kind_of_wire_def time_zero_def split: option.splits if_splits)
  with DecodeValue_utf8 [OF Inr] DecodeValue_typed [OF Inr] have "encodable r"
    by (simp add: encodable_def record_typed_def)
  moreover have "carried r = r\<lparr>r_TTL := Milliseconds (r_TTL r) * Millisecond\<rparr>"
    using r by (simp add: carried_def time_zero_def)
  ultimately show ?thesis using codec.encode_decode [of r] r Inr by simp
qed

text \<open>C31: validation lets through a holder that can never hold: the configuration check only asks that
  the holder is not empty, but a participant whose holder is not valid UTF-8 never believes,
  whatever happens, because no value decodes to its holder.\<close>
theorem invalid_holder_never_believes:
  assumes "withDefaults host rand c = Inr cfg" "\<not> valid_utf8 (c_Holder cfg)" "timing_ok cfg"
    and "newAgent cfg start endOff t = Some a" "0 \<le> now"
  shows "\<not> believing (agent_run es a) now"
proof -
  have "ag_cfg a = cfg" "ag_ownOutcomes a = Map.empty" "ag_deadline a = 0"
    using assms(4) by (auto simp: newAgent_def Let_def go_simps split: option.splits if_splits)
  with foreign_run [of a es] assms(2,3,5) show ?thesis by (simp add: believing_iff)
qed

theorem invalid_holder_never_believes_witness:
  "\<exists>a. newAgent (sample_config [CHR 0xFF]) 0 0 0 = Some a \<and>
     \<not> believing (agent_run [Tick (20 * Second), Acked (21 * Second) (Some 0)] a) (22 * Second)"
proof -
  let ?c = "sample_config [CHR 0xFF]"
  have "withDefaults [] None ?c = Inr ?c"
    by (simp add: withDefaults_def sample_config_def Second_def i64_add_def i64_wrap_def Let_def)
  moreover have "\<not> valid_utf8 [CHR 0xFF]" by code_simp
  moreover obtain a where a: "newAgent ?c 0 0 0 = Some a"
    by (simp add: newAgent_def NewView_def NewViewFromStart_def sample_config_def Second_def)
  moreover have "(0 :: gtime) \<le> 22 * Second" by (simp add: Second_def)
  ultimately show ?thesis
    using invalid_holder_never_believes [of "[]" None ?c ?c 0 0 0 a "22 * Second"
        "[Tick (20 * Second), Acked (21 * Second) (Some 0)]"] sample_timing
    by (simp add: sample_config_def)
qed

end
