(* ===== verification/Counterexamples.thy ===== *)
theory Counterexamples
  imports Agreement AgentLiveness
begin

section \<open>Where the code falls short of the protocol\<close>

text \<open>
  What lease/view.go, lease/agent.go, lease/record.go and lease/candidate.go do in situations
  docs/protocol.md promises otherwise about: theorems on whole classes of situations, each with an
  example, and closed computations of the model.
\<close>

subsection \<open>Logs\<close>

definition late_view :: "duration \<Rightarrow> view" where
  "late_view ttl = \<lparr>v_ttl = ttl, v_certain = False, v_state = zero_state, v_clock = time_zero,
     v_lastOffset = -1, v_seen = False, v_pending = []\<rparr>"

lemma late_view_new: "0 < ttl \<Longrightarrow> NewView ttl = Some (late_view ttl)"
  by (simp add: NewView_def late_view_def)

definition log_rec :: "int \<Rightarrow> gtime \<Rightarrow> kind \<Rightarrow> string \<Rightarrow> int \<Rightarrow> lrecord" where
  "log_rec off ts k h e =
     \<lparr>r_Offset = off, r_Timestamp = ts, r_Kind = k, r_Holder = h, r_Epoch = e, r_TTL = 10\<rparr>"

text \<open>The leader changes after the first record, and the new one's clock is 5 behind.\<close>

definition step_back_log :: "lrecord list" where
  "step_back_log =
     [log_rec 0 100 Claim ''a'' 0, log_rec 1 95 Renew ''a'' 0, log_rec 2 96 Renew ''a'' 0,
      log_rec 3 107 Claim ''b'' 0, log_rec 4 111 Claim ''c'' 0, log_rec 5 114 Renew ''c'' 4,
      log_rec 6 118 Renew ''c'' 4]"

text \<open>Broker timestamps that step back make certain readers disagree for good. Each reader
  clamps to the largest timestamp it has seen itself, so a reader that joined after the first
  record ends a's term earlier, accepts b's claim and rejects every record of c, who holds the
  lease for the reader of the whole log; the writers followed the rule behind the anchor.\<close>
lemma step_back_splits_readers:
  "log_ok step_back_log \<and> anchors_hold 10 step_back_log \<and>
   v_certain (read_some (late_view 10) 1 (drop 1 step_back_log)) \<and>
   st_Holder (v_state (read_some (late_view 10) 1 (drop 1 step_back_log))) = ''b'' \<and>
   st_Holder (v_state (full_at 10 step_back_log 7)) = ''c'' \<and>
   HeldAt (v_state (full_at 10 step_back_log 7)) 118 \<and>
   \<not> agrees_with_log 10 step_back_log (drop 1 step_back_log)
       (read_some (late_view 10) 1 (drop 1 step_back_log))"
  by code_simp

subsection \<open>Silence without a fetch\<close>

text \<open>A candidate joins a log of which the first record, b's claim, is compacted away.\<close>

definition joiner :: agent where
  "joiner =
     \<lparr>ag_cfg = sample_config ''a'', ag_view = late_view (10 * Second), ag_nextOffset = 1,
      ag_highWater = 1, ag_ownOutcomes = Map.empty, ag_epoch = -1, ag_deadline = time_zero,
      ag_inflight = None, ag_lastSend = time_zero, ag_nextClaimAt = time_zero, ag_connected = True,
      ag_fetchedOnce = False, ag_caughtUpAt = 100 * Second, ag_lastRecordAt = time_zero,
      ag_lastRecordBroker = time_zero\<rparr>"

lemma joiner_new: "newAgent (sample_config ''a'') 1 1 (100 * Second) = Some joiner"
  by (simp add: newAgent_def NewView_def joiner_def late_view_def sample_config_def Second_def)

definition said :: "kind \<Rightarrow> string \<Rightarrow> int \<Rightarrow> lrecord" where
  "said k h e = \<lparr>r_Offset = 0, r_Timestamp = 0, r_Kind = k, r_Holder = h, r_Epoch = e,
                 r_TTL = 10 * Second\<rparr>"

lemma said_decodes:
  "DecodeValue (value_of (said Renew ''b'' 0)) = Inr (said Renew ''b'' 0)"
  "DecodeValue (value_of (said Claim ''a'' 0)) = Inr (said Claim ''a'' 0)"
proof -
  have "plain_key ''a''" "plain_key ''b''" by code_simp+
  then have "encodable (said Renew ''b'' 0)" "encodable (said Claim ''a'' 0)"
    using plain_key_quote
    by (simp_all add: encodable_def said_def is_i64_def i64_min_def i64_max_def Second_def)
  moreover have "carried (said Renew ''b'' 0) = said Renew ''b'' 0"
    "carried (said Claim ''a'' 0) = said Claim ''a'' 0"
    by (simp_all add: carried_def said_def Milliseconds_def Second_def Millisecond_def go_simps)
  ultimately show
    "DecodeValue (value_of (said Renew ''b'' 0)) = Inr (said Renew ''b'' 0)"
    "DecodeValue (value_of (said Claim ''a'' 0)) = Inr (said Claim ''a'' 0)"
    using decode_value_of by metis+
qed

definition frozen_log :: "lrecord list" where
  "frozen_log =
     (said Claim ''b'' 0)\<lparr>r_Timestamp := 200 * Second\<rparr> #
     map (\<lambda>i. (said Renew ''b'' 0)\<lparr>r_Offset := i, r_Timestamp := (200 + 3 * i) * Second\<rparr>) [1, 2, 3]"

text \<open>The step of \<open>record\<close> on what its value decodes to.\<close>

definition read_decoded :: "gtime \<Rightarrow> int \<Rightarrow> gtime \<Rightarrow> lrecord \<Rightarrow> agent \<Rightarrow> agent" where
  "read_decoded now off ts d a =
     (if off < ag_nextOffset a then a
      else let a1 = seeRecord now off ts a in
        case Apply (ag_view a1) (d\<lparr>r_Offset := off, r_Timestamp := ts\<rparr>) of
          Inl e \<Rightarrow> a1
        | Inr (out, v) \<Rightarrow>
            checkTerm now (if r_Holder d = c_Holder (ag_cfg a)
              then ownRecord now off (r_Kind d) out (a1\<lparr>ag_view := v\<rparr>) else a1\<lparr>ag_view := v\<rparr>))"

lemma read_decoded:
  "DecodeValue val = Inr d \<Longrightarrow> snd (agent_record now off ts val a) = read_decoded now off ts d a"
  by (simp add: agent_record_def read_decoded_def Let_def split: sum.splits)

text \<open>
  Messages of the log with the instants at which they are read, one offset after the other, and the
  records they carry.
\<close>

fun reads :: "int \<Rightarrow> (gtime \<times> gtime \<times> string) list \<Rightarrow> event list" where
  "reads n [] = []"
| "reads n ((u, ts, val) # ms) = Read u n ts val # reads (n + 1) ms"

definition carries :: "gtime \<times> gtime \<times> string \<Rightarrow> lrecord \<Rightarrow> bool" where
  "carries m r \<longleftrightarrow>
     (case m of (u, ts, val) \<Rightarrow>
        \<exists>d. DecodeValue val = Inr d \<and> r = d\<lparr>r_Offset := r_Offset r, r_Timestamp := ts\<rparr>)"

text \<open>An agent that takes the lease for free and waits for its claim, sent at \<open>t\<close>.\<close>

definition claimant :: "config \<Rightarrow> gtime \<Rightarrow> int \<Rightarrow> agent \<Rightarrow> bool" where
  "claimant cfg t n a \<longleftrightarrow>
     agent_wf a \<and> ag_cfg a = cfg \<and> ag_nextOffset a = n \<and> v_certain (ag_view a) \<and>
     st_Holder (v_state (ag_view a)) = [] \<and> v_lastOffset (ag_view a) < n \<and>
     ag_inflight a = Some \<lparr>if_kind = Claim, if_sentAt = t, if_offset = -1\<rparr>"

text \<open>It rejects the renewals and releases of the term it does not know of.\<close>

lemma claimant_reads:
  assumes "claimant cfg t n a" "carries (u, ts, val) r" "r_Offset r = n" "r_Kind r \<noteq> Claim"
    and "proper r" "r_Holder r \<noteq> c_Holder cfg"
  shows "claimant cfg t (n + 1) (snd (agent_record u n ts val a))"
proof -
  let ?s = "seeRecord u n ts a"
  obtain d where d: "DecodeValue val = Inr d" "r = d\<lparr>r_Offset := n, r_Timestamp := ts\<rparr>"
    using assms(2,3) by (auto simp: carries_def)
  have a: "ag_nextOffset a = n" "v_certain (ag_view a)" "st_Holder (v_state (ag_view a)) = []"
    "v_lastOffset (ag_view a) < n" "ag_cfg a = cfg" "agent_wf a"
    using assms(1) by (auto simp: claimant_def)
  have k: "r_Kind r = Renew \<or> r_Kind r = Release" "r_Kind r = r_Kind d" "r_Holder r = r_Holder d"
    using assms(4,5) d(2) by (auto simp: proper_def known_kind_iff)
  then have "fold_rec (stamped (ag_view a) r) (clamped (ag_view a) r) = (Rejected, stamped (ag_view a) r)"
    using a(3) by (auto simp: fold_rec_def HeldAt_iff Let_def)
  then have app: "Apply (ag_view ?s) (d\<lparr>r_Offset := n, r_Timestamp := ts\<rparr>) =
      Inr (Rejected, stamped (ag_view a) r)"
    using a assms(3,5) d(2) by (simp add: Apply_shape proper_def)
  have "agent_record u n ts val a = (None, checkTerm u (?s\<lparr>ag_view := stamped (ag_view a) r\<rparr>))"
    using agent_record_applied [OF _ d(1) app] a assms(6) k(3) by simp
  moreover have "agent_wf (snd (agent_record u n ts val a))" using agent_record_wf [OF a(6)] .
  ultimately show ?thesis using assms(1,3) by (simp add: claimant_def)
qed

lemma claimant_run:
  assumes "list_all2 carries ms rs"
  shows "claimant cfg t n a \<Longrightarrow>
    \<forall>i < length rs. r_Offset (rs ! i) = n + int i \<and> r_Kind (rs ! i) \<noteq> Claim \<and> proper (rs ! i) \<and>
      r_Holder (rs ! i) \<noteq> c_Holder cfg \<Longrightarrow>
    claimant cfg t (n + int (length rs)) (agent_run (reads n ms) a)"
  using assms
proof (induction ms rs arbitrary: n a rule: list_all2_induct)
  case (Cons m ms r rs)
  obtain u ts val where m: "m = (u, ts, val)" by (cases m)
  have r: "r_Offset r = n" "r_Kind r \<noteq> Claim" "proper r" "r_Holder r \<noteq> c_Holder cfg"
    using Cons.prems(2) by force+
  have "r_Offset (rs ! i) = (n + 1) + int i \<and> r_Kind (rs ! i) \<noteq> Claim \<and> proper (rs ! i) \<and>
      r_Holder (rs ! i) \<noteq> c_Holder cfg" if "i < length rs" for i
    using Cons.prems(2) [rule_format, of "Suc i"] that by simp
  with Cons.IH [OF claimant_reads [OF Cons.prems(1) Cons.hyps(1) [unfolded m] r]] m
  show ?case by (simp add: ac_simps)
qed simp

lemma agent_run_append: "agent_run (es @ fs) a = agent_run fs (agent_run es a)"
  by (induction es arbitrary: a) simp_all

text \<open>Ticks alone make a participant that joined a truncated log claim.\<close>

lemma ticks_claim:
  assumes "timing_ok cfg" "newAgent cfg start endOff t0 = Some a" "0 < start" "endOff \<le> start" "0 \<le> t0"
    and "\<forall>u \<in> set us. u < t0 + (c_TTL cfg + c_Margin cfg)" "t0 + (c_TTL cfg + c_Margin cfg) \<le> t"
  shows "fst (agent_tick t (agent_run (map Tick us) a)) = Some (newRecord a Claim 0)"
    "claimant cfg t start (snd (agent_tick t (agent_run (map Tick us) a)))"
    "ag_fetchedOnce (snd (agent_tick t (agent_run (map Tick us) a))) = False" "ag_cfg a = cfg"
proof -
  let ?d = "c_TTL cfg + c_Margin cfg"
  have a: "a = \<lparr>ag_cfg = cfg, ag_view = late_view (c_TTL cfg), ag_nextOffset = start, ag_highWater = endOff,
      ag_ownOutcomes = Map.empty, ag_epoch = -1, ag_deadline = 0, ag_inflight = None, ag_lastSend = 0,
      ag_nextClaimAt = 0, ag_connected = True, ag_fetchedOnce = False, ag_caughtUpAt = t0,
      ag_lastRecordAt = 0, ag_lastRecordBroker = 0\<rparr>"
    using assms(1-3) by (auto simp: newAgent_def late_view_new timing_ok_def go_simps Let_def)
  have d: "?d \<le> i64_max" "i64_min < ?d" "0 < ?d" "i64_add (c_TTL cfg) (c_Margin cfg) = ?d"
    using timing_bounds [OF assms(1)] by (auto simp: is_i64_def i64_min_def go_simps)
  have since: "silentSince a = t0" using assms(5) by (simp add: a silentSince_def go_simps)
  have wf: "agent_wf a" using newAgent_wf [OF assms(2,1)] .
  have quiet: "agent_tick u a = (None, a)" if "u < t0 + ?d" for u
  proof -
    have "\<not> ?d \<le> time_Sub u t0" using that d(1,2) time_Sub_ge [of ?d u t0] by simp
    with since d(4) show ?thesis
      by (simp add: a agent_tick_def tickDeadline_eq tickSilence_def tickDecide_def late_view_def)
  qed
  have run: "agent_run (map Tick us) a = a"
    using assms(6) by (induction us) (simp_all add: quiet)
  have "?d \<le> time_Sub t t0" using assms(7) d(1,2) time_Sub_ge [of ?d t t0] by simp
  then have "tickSilence t (tickDeadline t a) = a\<lparr>ag_view := setFree (late_view (c_TTL cfg))\<rparr>"
    using d(4) assms(4,5)
    by (simp add: a tickDeadline_eq tickSilence_def Quiet_def late_view_def silentSince_def go_simps)
  then have tick: "agent_tick t a =
      (Some (newRecord a Claim 0), a\<lparr>ag_view := setFree (late_view (c_TTL cfg)),
         ag_inflight := Some \<lparr>if_kind = Claim, if_sentAt = t, if_offset = -1\<rparr>, ag_lastSend := t\<rparr>)"
    using assms(5,7) d(3)
    by (simp add: a agent_tick_def tickDecide_def believing_iff send_def newRecord_def go_simps Let_def)
  have "agent_wf (snd (agent_tick t a))" using agent_tick_wf [OF wf] .
  moreover have "ag_cfg a = cfg" "ag_nextOffset a = start" "\<not> ag_fetchedOnce a"
    by (simp_all add: a)
  moreover have "v_lastOffset (setFree (late_view (c_TTL cfg))) = -1" by (simp add: late_view_def)
  ultimately show "fst (agent_tick t (agent_run (map Tick us) a)) = Some (newRecord a Claim 0)"
    "claimant cfg t start (snd (agent_tick t (agent_run (map Tick us) a)))"
    "ag_fetchedOnce (snd (agent_tick t (agent_run (map Tick us) a))) = False" "ag_cfg a = cfg"
    using tick assms(3) by (simp_all add: run claimant_def)
qed

text \<open>C28: silence at the end of the log is measured on the clock alone, not over fetches. A
  participant that joins a truncated log at its end and only ticks (frozen for a TTL and the
  margin, or its polls only time out) claims without one successful fetch. Whatever renewals of
  another holder it then reads, it believes once its claim is read back and answered, in either
  order; also when the other holds the lease as the claim lands and the claim is rejected by the
  reader of the whole log.\<close>
theorem silence_without_fetch:
  assumes "can_write cfg" "newAgent cfg (int m) endOff t0 = Some a" "0 < m" "endOff \<le> int m" "0 \<le> t0"
    and "\<forall>u \<in> set us. u < t0 + (c_TTL cfg + c_Margin cfg)" "t0 + (c_TTL cfg + c_Margin cfg) \<le> t"
    and "m \<le> length L" "list_all2 carries ms (drop m L)"
    and "\<forall>r \<in> set (drop m L). r_Kind r \<noteq> Claim \<and> r_Holder r \<noteq> c_Holder cfg"
    and "q = (newRecord a Claim 0)\<lparr>r_TTL := Milliseconds (c_TTL cfg) * Millisecond,
      r_Offset := int (length L), r_Timestamp := ts\<rparr>"
    and "log_ok L" "clock_ok (L @ [q])" "HeldAt (v_state (full_at (c_TTL cfg) L (length L))) ts" "0 \<le> t1"
  shows "\<exists>b. fst (agent_tick t (agent_run (map Tick us) a)) = Some (newRecord a Claim 0) \<and>
    \<not> ag_fetchedOnce (snd (agent_tick t (agent_run (map Tick us) a))) \<and>
    EncodeValue (newRecord a Claim 0) = Inr b \<and>
    (\<forall>es \<in> both_orders t1 t2 (int (length L)) ts b. \<forall>now.
       believing (agent_run (map Tick us @ [Tick t, Fetched tf hw] @ reads (int m) ms @ es) a) now \<longleftrightarrow>
         now < t + (c_TTL cfg - c_Margin cfg)) \<and>
    verdict (c_TTL cfg) (L @ [q]) (length L) = Rejected"
proof -
  let ?n = "int (length L)" and ?ttl = "c_TTL cfg"
  have cfg: "timing_ok cfg" "0 < ?ttl" using assms(1) by (auto simp: can_write_def timing_ok_def)
  note claim = ticks_claim [OF cfg(1) assms(2) _ assms(4-7)]
  have ag: "ag_cfg a = cfg" using claim(4) assms(3) by simp
  let ?c = "snd (agent_tick t (agent_run (map Tick us) a))"
  have "claimant cfg t (int m) (fetched tf hw ?c)"
    using claim(2) assms(3) by (simp add: claimant_def fetched_wf)
  moreover have "\<forall>i < length (drop m L). r_Offset (drop m L ! i) = int m + int i \<and>
      r_Kind (drop m L ! i) \<noteq> Claim \<and> proper (drop m L ! i) \<and> r_Holder (drop m L ! i) \<noteq> c_Holder cfg"
    using log_okD [OF assms(12)] bspec [OF assms(10) nth_mem] by simp
  ultimately have c: "claimant cfg t ?n (agent_run (reads (int m) ms) (fetched tf hw ?c))"
    (is "claimant _ _ _ ?e") using claimant_run [OF assms(9)] assms(8) by fastforce
  then have e: "agent_wf ?e" "ag_cfg ?e = cfg" "ag_nextOffset ?e = ?n" "v_certain (ag_view ?e)"
    "st_Holder (v_state (ag_view ?e)) = []" "v_lastOffset (ag_view ?e) < ?n"
    "ag_inflight ?e = Some \<lparr>if_kind = Claim, if_sentAt = t, if_offset = -1\<rparr>"
    by (auto simp: claimant_def)
  have rec: "newRecord ?e Claim 0 = newRecord a Claim 0" using e(2) ag by (simp add: newRecord_def)
  obtain b where b: "EncodeValue (newRecord a Claim 0) = Inr b"
    "DecodeValue b = Inr ((newRecord a Claim 0)\<lparr>r_TTL := Milliseconds ?ttl * Millisecond\<rparr>)"
    using own_value [of a Claim 0] assms(1) ag by (auto simp: is_i64_def i64_min_def i64_max_def)
  have v: "view_wf (ag_view ?e)" "v_ttl (ag_view ?e) = c_TTL (ag_cfg ?e)"
    "\<not> HeldAt (v_state (ag_view ?e)) (max (v_clock (ag_view ?e)) ts)" "can_write (ag_cfg ?e)"
    using e assms(1) by (auto simp: agent_wf_def HeldAt_iff)
  from own_claim_accepted [OF v(4,1,2) e(4,6) v(3), unfolded e(2) rec] obtain w where
    w: "Apply (ag_view ?e) (((newRecord a Claim 0)\<lparr>r_TTL := Milliseconds ?ttl * Millisecond\<rparr>)
      \<lparr>r_Offset := ?n, r_Timestamp := ts\<rparr>) = Inr (Accepted, w)" "shows_term ?e ?n w"
    by auto
  have "ag_deadline (agent_run es ?e) = t + (?ttl - c_Margin cfg)"
    if "es \<in> both_orders t1 t2 ?n ts b" for es
    using own_record_counts [OF e(1,7) _ _ _ b(2) _ _ w(1) _ w(2) assms(15) _ that] e(2,3) ag
    by (simp add: newRecord_def Let_def)
  moreover have "verdict ?ttl (L @ [q]) (length L) = Rejected"
  proof -
    have lok: "log_ok (L @ [q])"
      using assms(1,11,12) ag
      by (auto simp: log_ok_def proper_def can_write_def newRecord_def nth_append less_Suc_eq Let_def)
    have "full_at ?ttl (L @ [q]) (length L) = full_at ?ttl L (length L)" by (simp add: full_at_def)
    with full_step(1) [OF lok assms(13) cfg(2), of "length L"] assms(14)
    show ?thesis using assms(11) by (simp add: fold_rec_def newRecord_def Let_def)
  qed
  ultimately show ?thesis
    using claim(1,3) b(1) assms(3) by (intro exI [of _ b]) (simp add: agent_run_append believing_iff)
qed

definition frozen_msgs :: "(gtime \<times> gtime \<times> string) list" where
  "frozen_msgs =
     map (\<lambda>i. (113 * Second, (200 + 3 * i) * Second, value_of (said Renew ''b'' 0))) [1, 2, 3]"

definition frozen_claim :: lrecord where
  "frozen_claim = (said Claim ''a'' 0)\<lparr>r_Offset := 4, r_Timestamp := 210 * Second\<rparr>"

theorem silence_without_fetch_witness:
  "newAgent (sample_config ''a'') 1 1 (100 * Second) = Some joiner \<and>
   st_Holder (v_state (full_at (10 * Second) frozen_log 4)) = ''b'' \<and>
   verdict (10 * Second) (frozen_log @ [frozen_claim]) 4 = Rejected \<and>
   (\<exists>b. believing (agent_run (map Tick [105 * Second] @ [Tick (112 * Second), Fetched (113 * Second) 5] @
      reads 1 frozen_msgs @ [Read (113 * Second) 4 (210 * Second) b, Acked (113 * Second) (Some 4)]) joiner)
      (119 * Second))"
proof -
  have ttl: "c_TTL (sample_config ''a'') = 10 * Second" "c_Margin (sample_config ''a'') = 2 * Second"
    by (simp_all add: sample_config_def)
  have new: "newAgent (sample_config ''a'') (int 1) 1 (100 * Second) = Some joiner"
    using joiner_new by simp
  have "list_all2 carries frozen_msgs (drop 1 frozen_log)"
    using said_decodes(1) by (simp add: frozen_msgs_def frozen_log_def carries_def said_def)
  moreover have "\<forall>r \<in> set (drop 1 frozen_log). r_Kind r \<noteq> Claim \<and> r_Holder r \<noteq> c_Holder (sample_config ''a'')"
    by (simp add: frozen_log_def said_def sample_config_def)
  moreover have "frozen_claim = (newRecord joiner Claim 0)
      \<lparr>r_TTL := Milliseconds (c_TTL (sample_config ''a'')) * Millisecond,
       r_Offset := int (length frozen_log), r_Timestamp := 210 * Second\<rparr>"
    by (simp add: frozen_claim_def said_def newRecord_def joiner_def frozen_log_def sample_config_def
        Milliseconds_def Second_def Millisecond_def go_simps Let_def)
  moreover have l: "length frozen_log = 4" by (simp add: frozen_log_def)
  moreover have "log_ok frozen_log" "clock_ok (frozen_log @ [frozen_claim])"
    "HeldAt (v_state (full_at (10 * Second) frozen_log 4)) (210 * Second)"
    and b: "st_Holder (v_state (full_at (10 * Second) frozen_log 4)) = ''b''"
    by code_simp+
  ultimately obtain b where r: "verdict (10 * Second) (frozen_log @ [frozen_claim]) 4 = Rejected"
    "\<forall>es \<in> both_orders (113 * Second) (113 * Second) 4 (210 * Second) b. \<forall>now.
       believing (agent_run (map Tick [105 * Second] @ [Tick (112 * Second), Fetched (113 * Second) 5] @
          reads (int 1) frozen_msgs @ es) joiner) now \<longleftrightarrow>
        now < 112 * Second + (10 * Second - 2 * Second)"
    using silence_without_fetch [OF sample_can_write new, of "[105 * Second]" "112 * Second" frozen_log frozen_msgs
        frozen_claim "210 * Second" "113 * Second" "113 * Second" "113 * Second" 5]
    by (auto simp: ttl Second_def)
  have "[Read (113 * Second) 4 (210 * Second) b, Acked (113 * Second) (Some 4)] \<in>
      both_orders (113 * Second) (113 * Second) 4 (210 * Second) b"
    by (simp add: both_orders_def)
  from bspec [OF r(2) this] have
    "believing (agent_run (map Tick [105 * Second] @ [Tick (112 * Second), Fetched (113 * Second) 5] @
      reads (int 1) frozen_msgs @ [Read (113 * Second) 4 (210 * Second) b, Acked (113 * Second) (Some 4)])
      joiner) (119 * Second)"
    by (simp only:) (simp add: Second_def)
  with r(1) b joiner_new show ?thesis by auto
qed

subsection \<open>A release beside a renewal\<close>

text \<open>Where a record of the agent lands: what its value decodes to, under the broker's timestamp.\<close>

definition landed :: "agent \<Rightarrow> lrecord \<Rightarrow> int \<Rightarrow> gtime \<Rightarrow> lrecord" where
  "landed a r off ts =
     r\<lparr>r_TTL := Milliseconds (c_TTL (ag_cfg a)) * Millisecond, r_Offset := off, r_Timestamp := ts\<rparr>"

text \<open>A reader that starts with a renewal and the release of its term is certain, and the lease free.\<close>

lemma fresh_reader_free:
  assumes ttl: "0 < ttl" "is_i64 (-2 * ttl)" and q: "proper q" "r_Kind q = Renew" "ttl_ok ttl q"
    and q': "proper q'" "r_Kind q' = Release" "r_Holder q' = r_Holder q" "r_Epoch q' = r_Epoch q"
    and off: "0 \<le> r_Offset q" "r_Offset q' = r_Offset q + 1"
    and ts: "0 \<le> r_Timestamp q" "r_Timestamp q \<le> r_Timestamp q'"
  shows "v_certain (read_some (late_view ttl) (r_Offset q) [q, q']) \<and>
    \<not> HeldAt (v_state (read_some (late_view ttl) (r_Offset q) [q, q'])) (r_Timestamp q') \<and>
    v_clock (read_some (late_view ttl) (r_Offset q) [q, q']) = r_Timestamp q'"
proof -
  let ?v = "(late_view ttl)\<lparr>v_clock := r_Timestamp q, v_lastOffset := r_Offset q, v_seen := True, v_pending := [q]\<rparr>"
  have c: "clamped (late_view ttl) q = q" "clamped ?v q' = q'"
    using ts by (simp_all add: clamped_def late_view_def go_simps)
  have mul: "i64_mul (-2) ttl = -2 * ttl" using ttl(2) by (simp add: go_simps)
  have "Apply (late_view ttl) q = Inr (Pending, ?v)"
    using assms c(1) mul
    by (simp add: Apply_shape late_view_def proper_def silent_before_def applyUncertain_def keepPending_def
        prunePending_def stamped_def validTTL_def ttl_ok_def go_simps Let_def)
  then have one: "apply_step (late_view ttl) q = ?v" by (simp add: apply_step_def)
  have two: "read_some (late_view ttl) (r_Offset q) [q, q'] = apply_step ?v q'"
    using off(2) by (simp add: one)
  obtain out w where w: "Apply ?v q' = Inr (out, w)"
    using Apply_Inr_iff [of ?v q'] q'(1) off(2) by (auto simp: proper_def)
  have clock: "v_clock w = r_Timestamp q'" using Apply_Inr(4) [OF w] ts by simp
  have "v_certain w \<and> \<not> HeldAt (v_state w) (r_Timestamp q')"
  proof (cases "silent_before ?v q'")
    case True
    from Apply_Inr(8) [OF w True] c(2) have
      "w = snd (fold_rec (setFree (stamped ?v q')) q')" by (metis snd_conv)
    then show ?thesis using q'(2) by (simp add: fold_rec_def HeldAt_iff Let_def)
  next
    case False
    have "find_anchor (r_Holder q') (r_Epoch q') [q] = Some (q, [])"
      using q q' by (simp add: rec_term_def)
    then have "w = snd (fold_rec ((stamped ?v q')\<lparr>v_state := \<lparr>st_Holder = r_Holder q, st_Epoch = r_Epoch q,
        st_Expires = time_Add (r_Timestamp q) (r_TTL q)\<rparr>, v_certain := True, v_pending := []\<rparr>) q')"
      using Apply_Inr(9) [OF w _ False] c(2) q q'
      by (simp add: late_view_def applyUncertain_def rec_term_def) (metis snd_conv)
    then show ?thesis
      using q' by (auto simp: fold_rec_def validTTL_def HeldAt_iff Let_def)
  qed
  with two w clock show ?thesis by (simp add: apply_step_def)
qed

text \<open>When both land after the lease was taken by another, the reader of the whole log rejects them.\<close>

lemma late_pair_splits_readers:
  assumes ttl: "0 < ttl" "is_i64 (-2 * ttl)" and L: "log_ok L" "clock_ok (L @ [q1, q2])"
    and q1: "proper q1" "r_Kind q1 = Renew" "ttl_ok ttl q1" "r_Epoch q1 = ep" "r_Offset q1 = int (length L)"
    and q2: "proper q2" "r_Kind q2 = Release" "r_Holder q2 = r_Holder q1" "r_Epoch q2 = ep"
      "r_Offset q2 = int (length L) + 1"
    and held: "HeldAt (v_state (full_at ttl L (length L))) (r_Timestamp q2)"
      "st_Epoch (v_state (full_at ttl L (length L))) \<noteq> ep"
  shows "v_state (full_at ttl (L @ [q1, q2]) (length L + 2)) = v_state (full_at ttl L (length L))"
    and "v_certain (read_some (late_view ttl) (int (length L)) [q1, q2]) \<and>
      \<not> HeldAt (v_state (read_some (late_view ttl) (int (length L)) [q1, q2])) (r_Timestamp q2) \<and>
      \<not> agrees_with_log ttl (L @ [q1, q2]) [q1, q2] (read_some (late_view ttl) (int (length L)) [q1, q2])"
proof -
  let ?n = "length L" and ?L = "L @ [q1, q2]"
  let ?w = "full_at ttl L ?n"
  have lok: "log_ok ?L"
    using L(1) q1(1,5) q2(1,5) by (auto simp: log_ok_def nth_append nth_Cons less_Suc_eq split: nat.splits)
  have ts: "0 \<le> r_Timestamp q1" "r_Timestamp q1 \<le> r_Timestamp q2"
    using L(2) by (auto simp: clock_ok_def sorted_append)
  have pre: "full_at ttl ?L ?n = ?w" by (simp add: full_at_def)
  have h: "HeldAt (v_state ?w) (r_Timestamp q1)" using held(1) HeldAt_antimono ts(2) by auto
  have one: "v_state (full_at ttl ?L (Suc ?n)) = v_state ?w"
    using full_step(2) [OF lok L(2) ttl(1), of ?n] h held(2) q1 pre by (simp add: fold_rec_def Let_def)
  then have two: "v_state (full_at ttl ?L (Suc (Suc ?n))) = v_state ?w"
    using full_step(2) [OF lok L(2) ttl(1), of "Suc ?n"] held q2 by (simp add: fold_rec_def nth_append Let_def)
  then show "v_state (full_at ttl ?L (?n + 2)) = v_state ?w" by simp
  have fresh: "v_certain (read_some (late_view ttl) (int ?n) [q1, q2])"
    "\<not> HeldAt (v_state (read_some (late_view ttl) (int ?n) [q1, q2])) (r_Timestamp q2)"
    "v_clock (read_some (late_view ttl) (int ?n) [q1, q2]) = r_Timestamp q2"
    using fresh_reader_free [OF ttl q1(1-3) q2(1-3)] q1(4,5) q2(4,5) ts by simp_all
  then show "v_certain (read_some (late_view ttl) (int ?n) [q1, q2]) \<and>
      \<not> HeldAt (v_state (read_some (late_view ttl) (int ?n) [q1, q2])) (r_Timestamp q2) \<and>
      \<not> agrees_with_log ttl ?L [q1, q2] (read_some (late_view ttl) (int ?n) [q1, q2])"
    using held(1) two q2(5) by (simp add: agrees_with_log_def same_lease_def nat_add_distrib)
qed

text \<open>C29: release does not wait for the record in flight (writer rule 2). A believer ticks when a renewal
  is due and is stopped before the broker answers; both records are encoded and, when they land
  behind each other after another participant has taken the lease, the reader of the whole log
  rejects both and finds the lease held, while a reader that starts with them is certain that it
  is free: the pair is an anchor, so the two do not agree, against docs/protocol.md.\<close>
theorem release_breaks_anchor:
  assumes "agent_wf a" "can_write (ag_cfg a)" "is_i64 (ag_epoch a)" "v_certain (ag_view a)"
    and "ag_inflight a = None" "c_RenewEvery (ag_cfg a) \<le> time_Sub t1 (ag_lastSend a)"
    and "0 \<le> t1" "t1 < ag_deadline a" "t2 < ag_deadline a"
    and "log_ok L" "clock_ok (L @ [landed a r1 (int (length L)) ts1, landed a r2 (int (length L) + 1) ts2])"
    and "r1 = newRecord a Renew (ag_epoch a)" "r2 = newRecord a Release (ag_epoch a)"
    and "HeldAt (v_state (full_at (c_TTL (ag_cfg a)) L (length L))) ts2"
    and "st_Epoch (v_state (full_at (c_TTL (ag_cfg a)) L (length L))) \<noteq> ag_epoch a"
    and "q1 = landed a r1 (int (length L)) ts1" "q2 = landed a r2 (int (length L) + 1) ts2"
    and "ttl = c_TTL (ag_cfg a)"
  shows "fst (agent_tick t1 a) = Some r1 \<and>
    fst (agent_release t2 (snd (agent_tick t1 a))) = Some r2 \<and>
    ag_inflight (snd (agent_tick t1 a)) \<noteq> None \<and>
    (\<exists>b1 b2. EncodeValue r1 = Inr b1 \<and> EncodeValue r2 = Inr b2 \<and>
       DecodeValue b1 = Inr (landed a r1 0 0) \<and> DecodeValue b2 = Inr (landed a r2 0 0)) \<and>
    v_state (full_at ttl (L @ [q1, q2]) (length L + 2)) = v_state (full_at ttl L (length L)) \<and>
    (\<exists>v0. NewView ttl = Some v0 \<and>
       v_certain (read_some v0 (int (length L)) [q1, q2]) \<and>
       \<not> HeldAt (v_state (read_some v0 (int (length L)) [q1, q2])) ts2 \<and>
       \<not> agrees_with_log ttl (L @ [q1, q2]) [q1, q2] (read_some v0 (int (length L)) [q1, q2]))"
proof -
  have cfg: "timing_ok (ag_cfg a)" and ttl: "0 < ttl" "is_i64 (-2 * ttl)"
    using assms(1,18) timing_bounds [of "ag_cfg a"] by (auto simp: agent_wf_def)
  note r = assms(12,13) and q = assms(16,17)
  have tick: "agent_tick t1 a = (Some r1, a\<lparr>ag_inflight := Some \<lparr>if_kind = Renew, if_sentAt = t1, if_offset = -1\<rparr>,
      ag_lastSend := t1\<rparr>)"
    using assms(4-8)
    by (simp add: agent_tick_def tickDeadline_eq tickDecide_def believing_iff send_def r(1) newRecord_def Let_def)
  have release: "fst (agent_release t2 (snd (agent_tick t1 a))) = Some r2"
    using assms(9) by (simp add: tick agent_release_def believing_iff dropBelief_eq r(2) newRecord_def Let_def)
  have kinds: "r_Kind r1 = Renew" "r_Kind r2 = Release" "r_Holder r1 = c_Holder (ag_cfg a)"
    "r_Holder r2 = c_Holder (ag_cfg a)" "r_Epoch r1 = ag_epoch a" "r_Epoch r2 = ag_epoch a"
    "r_Offset r1 = 0" "r_Offset r2 = 0" "r_Timestamp r1 = 0" "r_Timestamp r2 = 0"
    by (simp_all add: r newRecord_def go_simps Let_def)
  have zero: "x\<lparr>r_TTL := d\<rparr> = landed a x 0 0"
    if "r_Offset x = 0" "r_Timestamp x = 0" "d = Milliseconds (c_TTL (ag_cfg a)) * Millisecond" for x d
    using that by (simp add: landed_def)
  obtain b1 where b1: "EncodeValue r1 = Inr b1" "DecodeValue b1 = Inr (landed a r1 0 0)"
    using own_value [OF assms(2) _ assms(3), of Renew] zero [of r1] kinds r(1) by auto
  obtain b2 where b2: "EncodeValue r2 = Inr b2" "DecodeValue b2 = Inr (landed a r2 0 0)"
    using own_value [OF assms(2) _ assms(3), of Release] zero [of r2] kinds r(2) by auto
  have h: "c_Holder (ag_cfg a) \<noteq> []" "Millisecond \<le> ttl"
    using assms(2,18) by (auto simp: can_write_def)
  have ok: "ttl_ok ttl q1" using wire_ttl [OF h(2)] assms(18) by (simp add: q landed_def ttl_ok_def)
  have "clock_ok (L @ [q1, q2])" using assms(11) q by simp
  from late_pair_splits_readers [OF ttl assms(10) this _ _ ok]
  have split: "v_state (full_at ttl (L @ [q1, q2]) (length L + 2)) = v_state (full_at ttl L (length L))"
    "v_certain (read_some (late_view ttl) (int (length L)) [q1, q2]) \<and>
      \<not> HeldAt (v_state (read_some (late_view ttl) (int (length L)) [q1, q2])) ts2 \<and>
      \<not> agrees_with_log ttl (L @ [q1, q2]) [q1, q2] (read_some (late_view ttl) (int (length L)) [q1, q2])"
    using kinds h(1) assms(14,15,18) by (simp_all add: q landed_def proper_def)
  then show ?thesis using tick release b1 b2 late_view_new [OF ttl(1)] by auto
qed

text \<open>a holds epoch 4 as far as it has read (offset 6); then b takes the lease, and a's renewal and
  release land behind b's claim.\<close>

definition idle_holder :: agent where
  "idle_holder = sample_agent\<lparr>ag_inflight := None\<rparr>"

definition retaken_log :: "lrecord list" where
  "retaken_log =
     [(said Claim ''c'' 0)\<lparr>r_Timestamp := 100 * Second\<rparr>,
      (said Renew ''c'' 0)\<lparr>r_Offset := 1, r_Timestamp := 103 * Second\<rparr>,
      (said Renew ''c'' 0)\<lparr>r_Offset := 2, r_Timestamp := 106 * Second\<rparr>,
      (said Release ''c'' 0)\<lparr>r_Offset := 3, r_Timestamp := 107 * Second\<rparr>,
      (said Claim ''a'' 0)\<lparr>r_Offset := 4, r_Timestamp := 190 * Second\<rparr>,
      (said Renew ''a'' 4)\<lparr>r_Offset := 5, r_Timestamp := 192 * Second\<rparr>,
      (said Renew ''a'' 4)\<lparr>r_Offset := 6, r_Timestamp := 195 * Second\<rparr>,
      (said Claim ''b'' 0)\<lparr>r_Offset := 7, r_Timestamp := 206 * Second\<rparr>]"

theorem release_breaks_anchor_witness:
  "ag_view idle_holder = sample_view \<and> v_state (full_at (10 * Second) retaken_log 7) = v_state sample_view \<and>
   fst (agent_tick (101 * Second) idle_holder) = Some (said Renew ''a'' 4) \<and>
   fst (agent_release (102 * Second) (snd (agent_tick (101 * Second) idle_holder))) =
     Some (said Release ''a'' 4)"
proof -
  let ?r1 = "said Renew ''a'' 4" and ?r2 = "said Release ''a'' 4"
  have cfg: "ag_cfg idle_holder = sample_config ''a''" "c_TTL (sample_config ''a'') = 10 * Second"
    by (simp_all add: idle_holder_def sample_agent_def sample_config_def)
  have wf: "agent_wf idle_holder"
  proof -
    have "view_wf sample_view" by (simp add: view_wf_def sample_view_def Second_def)
    then show ?thesis
      by (simp add: agent_wf_def idle_holder_def sample_agent_def sample_timing inflight_ok_def belief_ok_def)
        (simp add: sample_config_def sample_view_def Second_def)
  qed
  have l: "landed idle_holder ?r1 8 (207 * Second) = ?r1\<lparr>r_Offset := 8, r_Timestamp := 207 * Second\<rparr>"
    "landed idle_holder ?r2 9 (208 * Second) = ?r2\<lparr>r_Offset := 9, r_Timestamp := 208 * Second\<rparr>"
    by (simp_all add: landed_def cfg said_def Milliseconds_def Second_def Millisecond_def go_simps)
  have "length retaken_log = 8" by (simp add: retaken_log_def)
  moreover have "is_i64 (ag_epoch idle_holder)" "v_certain (ag_view idle_holder)" "ag_inflight idle_holder = None"
    "c_RenewEvery (ag_cfg idle_holder) \<le> time_Sub (101 * Second) (ag_lastSend idle_holder)"
    "0 \<le> 101 * Second" "101 * Second < ag_deadline idle_holder" "102 * Second < ag_deadline idle_holder"
    "log_ok retaken_log"
    "clock_ok (retaken_log @ [?r1\<lparr>r_Offset := 8, r_Timestamp := 207 * Second\<rparr>,
       ?r2\<lparr>r_Offset := 9, r_Timestamp := 208 * Second\<rparr>])"
    "HeldAt (v_state (full_at (10 * Second) retaken_log 8)) (208 * Second)"
    "st_Epoch (v_state (full_at (10 * Second) retaken_log 8)) \<noteq> ag_epoch idle_holder"
    by code_simp+
  moreover have "?r1 = newRecord idle_holder Renew (ag_epoch idle_holder)"
    "?r2 = newRecord idle_holder Release (ag_epoch idle_holder)"
    by (simp_all add: said_def newRecord_def cfg idle_holder_def sample_agent_def sample_config_def go_simps Let_def)
  ultimately have "fst (agent_tick (101 * Second) idle_holder) = Some ?r1"
    "fst (agent_release (102 * Second) (snd (agent_tick (101 * Second) idle_holder))) = Some ?r2"
    using release_breaks_anchor [OF wf, of "101 * Second" "102 * Second" retaken_log ?r1 "207 * Second"
        ?r2 "208 * Second"] sample_can_write cfg l by simp_all
  moreover have "v_state (full_at (10 * Second) retaken_log 7) = v_state sample_view" by code_simp
  ultimately show ?thesis by (simp add: idle_holder_def sample_agent_def)
qed

subsection \<open>A read-back that never comes\<close>

text \<open>The record in flight is acknowledged at an offset the reader has already passed.\<close>

definition passed_by :: "agent \<Rightarrow> bool" where
  "passed_by a \<longleftrightarrow>
     ag_inflight a \<noteq> None \<and> 0 \<le> if_offset (the (ag_inflight a)) \<and>
     if_offset (the (ag_inflight a)) < ag_nextOffset a"

lemma passed_by_ownRecord:
  "passed_by a \<Longrightarrow> ag_nextOffset a = off + 1 \<Longrightarrow> if_offset (the (ag_inflight a)) \<noteq> off \<Longrightarrow>
     passed_by (ownRecord now off k out a)"
  by (auto simp: passed_by_def ownRecord_def split: option.splits)

lemma passed_by_record:
  assumes "passed_by a"
  shows "passed_by (snd (agent_record now off ts val a))"
proof (cases "off < ag_nextOffset a")
  case True
  with assms show ?thesis by (simp add: agent_record_old)
next
  case False
  let ?s = "seeRecord now off ts a"
  have s: "passed_by (?s\<lparr>ag_view := v\<rparr>)" "passed_by ?s" "if_offset (the (ag_inflight a)) \<noteq> off" for v
    using assms False by (auto simp: passed_by_def split: option.splits)
  then have own: "passed_by (ownRecord now off k out (?s\<lparr>ag_view := v\<rparr>))" for k out v
    by (intro passed_by_ownRecord) simp_all
  have check: "passed_by (checkTerm now b) = passed_by b" for b by (simp add: passed_by_def)
  show ?thesis
    using s own check False
    by (simp add: agent_record_def Let_def split: sum.splits prod.splits del: seeRecord_frame(9))
qed

lemma passed_by_step:
  "passed_by a \<Longrightarrow> \<not> answers e \<Longrightarrow> passed_by (snd (agent_step e a))"
proof (cases e)
  case (Read now off ts val)
  then show "passed_by a \<Longrightarrow> \<not> answers e \<Longrightarrow> passed_by (snd (agent_step e a))"
    by (simp add: passed_by_record)
qed (auto simp: agent_tick_def tickDecide_def tickDeadline_eq agent_release_def dropBelief_eq
      passed_by_def Let_def)

text \<open>C30: when the reader skips the offset of the record in flight (a hole), the agent is stuck: the
  record stays in flight through any further events, since each produce is answered only once, so
  no tick ever writes again and the participant neither renews nor claims until it is restarted.\<close>
theorem lost_readback_blocks_forever:
  assumes "passed_by a" "list_all (\<lambda>e. \<not> answers e) es"
  shows "ag_inflight (agent_run es a) \<noteq> None \<and> fst (agent_tick now (agent_run es a)) = None"
proof -
  have "passed_by (agent_run es a)"
    using assms by (induction es arbitrary: a) (simp_all add: passed_by_step)
  then have "ag_inflight (agent_run es a) \<noteq> None" by (simp add: passed_by_def)
  then show ?thesis by (simp add: tick_blocked)
qed

definition hole_agent :: agent where
  "hole_agent = snd (agent_record (100 * Second) 9 (197 * Second) (value_of sample_renew) sample_agent)"

theorem lost_readback_blocks_forever_witness:
  "fst (agent_tick (900 * Second)
     (agent_run [Fetched (101 * Second) 10, Tick (200 * Second), Tick (300 * Second)] hole_agent)) = None"
proof -
  have "passed_by hole_agent"
  proof -
    have "snd (agent_record (100 * Second) 9 (197 * Second) (value_of sample_renew) sample_agent) =
        read_decoded (100 * Second) 9 (197 * Second) sample_renew sample_agent"
      by (rule read_decoded [OF sample_renew_decodes])
    moreover have "passed_by (read_decoded (100 * Second) 9 (197 * Second) sample_renew sample_agent)"
      by code_simp
    ultimately show ?thesis by (simp add: hole_agent_def)
  qed
  from lost_readback_blocks_forever [OF this, of "[Fetched (101 * Second) 10, Tick (200 * Second),
      Tick (300 * Second)]"] show ?thesis by simp
qed

subsection \<open>Durations\<close>

text \<open>The shortest wire TTL that wraps to a valid one: 585 years.\<close>

definition wrapping_claim :: wire_record where
  "wrapping_claim = \<lparr>w_Version = 1, w_Kind = ''claim'', w_Holder = ''a'', w_Epoch = 0,
                     w_TTLMs = 18446744073710\<rparr>"

definition wrapped_claim :: lrecord where
  "wrapped_claim = \<lparr>r_Offset = 0, r_Timestamp = 0, r_Kind = Claim, r_Holder = ''a'', r_Epoch = 0,
                    r_TTL = 448384\<rparr>"

text \<open>DecodeValue multiplies the wire's milliseconds in 64-bit nanoseconds without a range
  check: the well-formed claim for ttl_ms 18446744073710 (585 years), which asks for more than the
  lease TTL and which everyone should reject, decodes to a TTL of 448384 ns, and a view of a lease
  with a TTL of 10 s accepts it.\<close>
lemma decode_ttl_wraps:
  "DecodeValue (marshal_wire wrapping_claim) = Inr wrapped_claim \<and>
   (\<exists>v. Apply (start_view (10 * Second)) wrapped_claim = Inr (Accepted, v) \<and>
      st_Holder (v_state v) = ''a'')"
proof
  have "plain_key ''claim''" "plain_key ''a''" by code_simp+
  then have "unmarshal_wire (marshal_wire wrapping_claim) = Some wrapping_claim"
    using plain_key_quote
    by (intro unmarshal_marshal)
      (auto simp: wrapping_claim_def is_i64_def i64_min_def i64_max_def)
  then show "DecodeValue (marshal_wire wrapping_claim) = Inr wrapped_claim"
    by (simp add: DecodeValue_def wrapping_claim_def wrapped_claim_def wireVersion_def
        kind_of_wire_def i64_mul_def i64_wrap_def Millisecond_def time_zero_def)
  show "\<exists>v. Apply (start_view (10 * Second)) wrapped_claim = Inr (Accepted, v) \<and>
      st_Holder (v_state v) = ''a''"
    by (simp add: Apply_def wrapped_claim_def start_view_def fold_rec_def validTTL_def HeldAt_iff
        Second_def go_simps Let_def)
qed

definition odd_config :: "duration \<Rightarrow> duration \<Rightarrow> duration \<Rightarrow> config" where
  "odd_config ttl margin renew = (sample_config ''a'')
     \<lparr>c_TTL := ttl, c_Margin := margin, c_RenewEvery := renew\<rparr>"

text \<open>The sum of margin and renew interval is checked after it wrapped around: two intervals of
  146 years pass for a lease of 10 s.\<close>
lemma margin_check_wraps:
  "withDefaults host rand (odd_config (10 * Second) 4611686018427387904 4611686018427387904) =
     Inr (odd_config (10 * Second) 4611686018427387904 4611686018427387904)"
  by (simp add: withDefaults_def odd_config_def sample_config_def Second_def i64_add_def
      i64_wrap_def Let_def)

text \<open>A TTL is truncated to whole milliseconds on the wire but not in the belief: with a TTL of
  1.5 ms and the default margin the configuration is valid, the claim that travels asks for 1 ms,
  its term ends 1 ms after it landed, and the belief only 1.2 ms after it was sent.\<close>
lemma belief_outlives_truncated_term:
  "withDefaults host rand (odd_config 1500000 0 0) = Inr (odd_config 1500000 300000 500000) \<and>
   r_TTL (carried (newRecord (joiner\<lparr>ag_cfg := odd_config 1500000 300000 500000\<rparr>) Claim 0)) = 1000000 \<and>
   ag_deadline (extendBelief t (joiner\<lparr>ag_cfg := odd_config 1500000 300000 500000\<rparr>)) = t + 1200000"
  by (simp add: withDefaults_def odd_config_def sample_config_def i64_add_def i64_sub_def
      i64_wrap_def newRecord_def carried_def joiner_def extendBelief_def Milliseconds_def
      Millisecond_def go_simps Let_def)

end
