(* ===== verification/ViewRules.thy ===== *)
theory ViewRules
  imports LeaseSpec
begin

section \<open>Properties of the view (lease/view.go)\<close>

text \<open>
  The view against the abstract lease of theory \<open>LeaseSpec\<close>: the invariant over any sequence of its
  operations, the refinement of whole logs, and what uncertainty can end in.
\<close>

subsection \<open>Any sequence of operations\<close>

text \<open>What a client can do to a view; a record that \<open>Apply\<close> refuses leaves the view as it is.\<close>

datatype view_op = DoApply lrecord | DoGap | DoQuiet duration

fun do_op :: "view_op \<Rightarrow> view \<Rightarrow> view" where
  "do_op (DoApply r) v = (case Apply v r of Inl _ \<Rightarrow> v | Inr (_, v') \<Rightarrow> v')"
| "do_op DoGap v = Gap v"
| "do_op (DoQuiet d) v = snd (Quiet v d)"

lemma view_op_step:
  assumes "view_wf v"
  shows "view_wf (do_op p v)" "v_ttl (do_op p v) = v_ttl v" "v_clock v \<le> v_clock (do_op p v)"
    "v_lastOffset v \<le> v_lastOffset (do_op p v)"
proof -
  have "view_wf (do_op p v) \<and> v_ttl (do_op p v) = v_ttl v \<and> v_clock v \<le> v_clock (do_op p v) \<and>
    v_lastOffset v \<le> v_lastOffset (do_op p v)"
  proof (cases p)
    case (DoApply r)
    show ?thesis
    proof (cases "Apply v r")
      case (Inr x)
      then obtain out v' where "Apply v r = Inr (out, v')" by (cases x) simp
      with DoApply Apply_wf [OF assms this] Apply_Inr [OF this] show ?thesis by simp
    qed (use DoApply assms in simp)
  qed (use assms in \<open>simp_all add: Gap_wf Quiet_def setFree_wf\<close>)
  then show "view_wf (do_op p v)" "v_ttl (do_op p v) = v_ttl v"
    "v_clock v \<le> v_clock (do_op p v)" "v_lastOffset v \<le> v_lastOffset (do_op p v)" by auto
qed

lemma view_ops:
  "view_wf v \<Longrightarrow> view_wf (fold do_op ps v) \<and> v_ttl (fold do_op ps v) = v_ttl v \<and>
     v_clock v \<le> v_clock (fold do_op ps v) \<and> v_lastOffset v \<le> v_lastOffset (fold do_op ps v)"
proof (induction ps arbitrary: v)
  case (Cons p ps)
  with view_op_step [OF Cons.prems, of p] Cons.IH [of "do_op p v"] show ?case by force
qed simp

text \<open>C13: a new view keeps its invariant through every sequence of Apply, Gap and Quiet: its TTL is
  fixed, its clock and offset never step back, the pending records are in log order, known, of a
  valid TTL and not newer than the clock, there are none when it is certain, and a term it is
  certain of ends at most one TTL after its clock.\<close>
theorem view_keeps_invariant:
  assumes "NewView ttl = Some v"
  shows "view_wf (fold do_op ps v) \<and> v_ttl (fold do_op ps v) = ttl \<and>
    v_clock (fold do_op ps v) \<le> v_clock (fold do_op (ps @ qs) v) \<and>
    v_lastOffset (fold do_op ps v) \<le> v_lastOffset (fold do_op (ps @ qs) v)"
proof -
  have "view_wf v" "v_ttl v = ttl" using assms NewView_wf by (auto simp: NewView_def split: if_splits)
  with view_ops [of v ps] view_ops [of "fold do_op ps v" qs] show ?thesis by simp
qed

theorem view_keeps_invariant_witness:
  "\<exists>v. NewView 10 = Some v \<and> view_wf (fold do_op [DoQuiet 10, DoApply
     \<lparr>r_Offset = 0, r_Timestamp = 5, r_Kind = Claim, r_Holder = ''a'', r_Epoch = 0, r_TTL = 10\<rparr>, DoGap] v)"
proof -
  obtain v where v: "NewView 10 = Some v" by (simp add: NewView_def)
  from view_keeps_invariant [OF v] v show ?thesis by blast
qed

subsection \<open>Whole logs against the abstract lease\<close>

fun view_run :: "view \<Rightarrow> lrecord list \<Rightarrow> view_error + (outcome list \<times> view)" where
  "view_run v [] = Inr ([], v)"
| "view_run v (r # rs) =
     (case Apply v r of
        Inl e \<Rightarrow> Inl e
      | Inr (out, v') \<Rightarrow> map_sum id (\<lambda>(outs, w). (out # outs, w)) (view_run v' rs))"

text \<open>The protocol's fold: a clock that never steps back, and one \<open>lease_step\<close> per record.\<close>

fun lease_run :: "duration \<Rightarrow> gtime \<Rightarrow> lease \<Rightarrow> lrecord list \<Rightarrow> outcome list \<times> gtime \<times> lease" where
  "lease_run ttl t L [] = ([], t, L)"
| "lease_run ttl t L (r # rs) =
     (let t' = max t (r_Timestamp r);
          (out, L') = lease_step ttl L (r\<lparr>r_Timestamp := t'\<rparr>);
          (outs, t'', L'') = lease_run ttl t' L' rs
      in (out # outs, t'', L''))"

text \<open>C10: a certain view implements the protocol's fold (docs/protocol.md): over any records in offset
  order it gives each the verdict of the abstract lease and ends with the same lease and clock.\<close>
theorem view_refines_lease:
  assumes "v_certain v" "list_all proper rs"
    and "sorted_wrt (<) (v_lastOffset v # map r_Offset rs)"
  shows "\<exists>outs w. view_run v rs = Inr (outs, w) \<and> v_certain w \<and>
    lease_run (v_ttl v) (v_clock v) (abs_state (v_state v)) rs = (outs, v_clock w, abs_state (v_state w))"
  using assms
proof (induction rs arbitrary: v)
  case (Cons r rs)
  then have p: "proper r" and off: "v_lastOffset v < r_Offset r" by auto
  obtain out v' where a: "Apply v r = Inr (out, v')" using vr.accepts_next [OF off p] by blast
  note n = vr.offset_next [OF a] vr.clock_next [OF a] vr.ttl_next [OF a]
    vr.stays_certain [OF Cons.prems(1) a]
  have "sorted_wrt (<) (v_lastOffset v' # map r_Offset rs)" using Cons.prems(3) n(1) by simp
  then obtain outs w where w: "view_run v' rs = Inr (outs, w)" "v_certain w"
    "lease_run (v_ttl v') (v_clock v') (abs_state (v_state v')) rs =
       (outs, v_clock w, abs_state (v_state w))"
    using Cons.IH [of v'] n(4) Cons.prems(2) by auto
  have st: "lease_step (v_ttl v) (abs_state (v_state v))
      (r\<lparr>r_Timestamp := max (v_clock v) (r_Timestamp r)\<rparr>) = (out, abs_state (v_state v'))"
    using vr.moves_lease [OF Cons.prems(1) p a] by simp
  have "lease_run (v_ttl v) (v_clock v) (abs_state (v_state v)) (r # rs) =
      (out # outs, v_clock w, abs_state (v_state w))"
    using w(3) n(2,3) by (simp add: st Let_def)
  with a w show ?case by simp
qed simp

definition two_claims :: "lrecord list" where
  "two_claims =
     [\<lparr>r_Offset = 0, r_Timestamp = 5, r_Kind = Claim, r_Holder = ''a'', r_Epoch = 0, r_TTL = 10\<rparr>,
      \<lparr>r_Offset = 1, r_Timestamp = 4, r_Kind = Claim, r_Holder = ''b'', r_Epoch = 0, r_TTL = 10\<rparr>]"

theorem view_refines_lease_witness:
  "\<exists>v outs w. NewViewFromStart 10 = Some v \<and> view_run v two_claims = Inr (outs, w) \<and>
     outs = [Accepted, Rejected] \<and> abs_state (v_state w) = Held ''a'' 0 15"
proof -
  obtain v where v: "NewViewFromStart 10 = Some v" "v_certain v" "v_lastOffset v = -1"
    "v_ttl v = 10" "v_clock v = 0" "abs_state (v_state v) = Free"
    by (simp add: NewViewFromStart_def NewView_def abs_state_def go_simps)
  have "list_all proper two_claims" by code_simp
  moreover have "sorted_wrt (<) (v_lastOffset v # map r_Offset two_claims)"
    by (simp add: v two_claims_def)
  ultimately obtain outs w where "view_run v two_claims = Inr (outs, w)"
    "lease_run 10 0 Free two_claims = (outs, v_clock w, abs_state (v_state w))"
    using view_refines_lease [OF v(2), of two_claims] v by auto
  moreover have "lease_run 10 0 Free two_claims = ([Accepted, Rejected], 5, Held ''a'' 0 15)"
    by code_simp
  ultimately show ?thesis using v(1) by auto
qed

end
