(* ===== verification/AuthRules.thy ===== *)
theory AuthRules
  imports Auth Config
begin

section \<open>Properties of authentication and configuration (lease/auth.go, lease/candidate.go)\<close>










text \<open>The getter of a secret file drops trailing line ends only, not all trailing whitespace, as its
  comment says: a password file that ends in a space and a newline yields a password with the space.\<close>
lemma secret_keeps_trailing_space:
  "read_secret (\<lambda>f. Some (''pw '' @ [CHR 0x0A])) (FileSecret ''f'' ''password'') = Inr ''pw ''"
  by (simp add: trim_crlf_def)

text \<open>C35: a configuration that passes has the timing the protocol needs, as long as its durations are
  below 73 years: TTL positive, margin and renew interval together below it, defaults of a fifth
  and a third, and a poll interval within the renew interval; it names brokers, a topic and a
  holder, and keeps the holder it was given.\<close>
theorem accepted_config_is_timed:
  assumes "withDefaults host rand c = Inr c'" "c_TTL c \<le> 2305843009213693951"
    and "c_Margin c \<le> 2305843009213693951" "c_RenewEvery c \<le> 2305843009213693951"
  shows "timing_ok c' \<and> c_TTL c' = c_TTL c \<and>
    c_Margin c' = (if c_Margin c = 0 then c_TTL c div 5 else c_Margin c) \<and>
    c_RenewEvery c' = (if c_RenewEvery c = 0 then c_TTL c div 3 else c_RenewEvery c) \<and>
    pollEvery c' \<le> c_RenewEvery c' \<and> c_Brokers c' \<noteq> [] \<and> c_Topic c' \<noteq> [] \<and> c_Holder c' \<noteq> [] \<and>
    (c_Holder c \<noteq> [] \<longrightarrow> c_Holder c' = c_Holder c)"
proof -
  note w = withDefaults_cases [OF assms(1)]
  have d: "0 \<le> c_TTL c" using w(3,7) by simp
  have "c_Margin c' \<le> 2305843009213693951" "c_RenewEvery c' \<le> 2305843009213693951"
    using w(8,9) assms(2-4) d i64_div_le [of "c_TTL c" 5] i64_div_le [of "c_TTL c" 3] by auto
  then have "is_i64 (c_Margin c' + c_RenewEvery c')"
    using w(10,11) by (simp add: is_i64_def i64_min_def i64_max_def)
  then have "c_Margin c' + c_RenewEvery c' < c_TTL c'" using w(12) by (simp add: go_simps)
  then have t: "timing_ok c'" using w assms(2) by (simp add: timing_ok_def)
  then show ?thesis using w d pollEvery_bounds [OF t] by (simp add: i64_div_nonneg)
qed

definition short_config :: config where
  "short_config =
     \<lparr>c_Brokers = [''b:9092''], c_Topic = ''t'', c_Partition = 0, c_CreateTopic = False, c_Holder = [],
      c_TTL = 10 * Second, c_Margin = 0, c_RenewEvery = 0, c_Auth = zero_auth, c_Logger = None,
      c_ClientOpts = []\<rparr>"

theorem accepted_config_is_timed_witness:
  "\<exists>c'. withDefaults ''h'' (Some [1, 2, 3, 255]) short_config = Inr c' \<and> c_Margin c' = 2 * Second \<and>
     timing_ok c'"
proof -
  obtain c' where c: "withDefaults ''h'' (Some [1, 2, 3, 255]) short_config = Inr c'"
    by (simp add: withDefaults_def short_config_def Second_def i64_add_def i64_wrap_def
        i64_div_nonneg Let_def)
  have "c_TTL short_config \<le> 2305843009213693951" "c_Margin short_config \<le> 2305843009213693951"
    "c_RenewEvery short_config \<le> 2305843009213693951"
    by (simp_all add: short_config_def Second_def)
  from accepted_config_is_timed [OF c this] c show ?thesis
    by (auto simp: short_config_def Second_def)
qed

end
