(* ===== verification/Spec2Isabelle.thy ===== *)
theory Spec2Isabelle
  imports FencedWorkload TimelyReaders AgentLiveness HolderNames MachineIntegers Counterexamples
    ViewRules AuthRules
begin

text \<open>
  kfklease: a lease on a Kafka partition (Go), its KEDA scaler and a fenced example workload.

  THE PROGRAM. Participants write claim, renew and release records to one partition; the state of
  the lease is a fold over that log (docs/protocol.md). lease/record.go encodes records,
  lease/view.go is the fold and what a reader of a truncated log may conclude, lease/agent.go the
  writer rules on top of a view, lease/candidate.go the Kafka client around the agent,
  lease/topic.go and lease/auth.go the topic and the connection. scaler/ serves a candidate's
  status to KEDA and over HTTP, cmd/kfklease-scaler puts it together, examples/heartbeat is a
  workload that fences by epoch and the report that checks it.

  THE THEORIES.
  Prelude: Go's 64-bit integers (\<open>i64_wrap\<close> and what is built on it), durations and instants in
  nanoseconds, decimal digits, lemmas on lists. LeaseRecord, Json, JsonRoundtrip, LeaseCodec:
  lease/record.go down to the bytes (a Go string is a list of bytes), with what encoding/json does
  for the wire record. The interface \<open>value_codec\<close> (an encodable record decodes to what it carries)
  is interpreted on EncodeValue and DecodeValue. View, ViewInvariant, ViewRules: lease/view.go, one
  definition per method (\<open>fold_rec\<close> is fold, \<open>replay\<close> and \<open>find_anchor\<close> are the loops of
  applyUncertain), its invariant \<open>view_wf\<close>. LeaseSpec: the abstract lease of docs/protocol.md and
  the interface \<open>lease_reader\<close> of a reader of the log, interpreted on the view; the proofs about
  whole logs use only that interface. Agreement: readers of any part of a log. Auth, Config, Topic,
  AuthRules: lease/auth.go, Config with withDefaults, lease/topic.go. Agent, AgentInvariant,
  AgentRules, AgentLiveness: lease/agent.go, one definition per method (\<open>agent_record\<close> is record,
  \<open>agent_tick\<close> is tick in three parts in source order), the invariant \<open>agent_wf\<close>, the writer rules
  as theorems on steps, and what an agent gets done; \<open>event\<close> lists what can happen to an agent.
  MachineIntegers, HolderNames: that its numbers stay int64, and that what it decodes is UTF-8.
  Protocol, LiveTerms, Safety, MutualExclusion: a transition system of infinitely many agents with
  drifting clocks around one log, invariants by induction over \<open>reachable\<close>, and the promise of
  docs/protocol.md. Counterexamples: where the code falls short of the document, as computations
  of the model. Candidate, CandidateRules: lease/candidate.go; the interface \<open>lease_source\<close>
  (scaler.Source) is interpreted on a candidate's Status and change signal. Fleet,
  FleetRefinement, FleetSafety: candidates around one partition, each somewhere in its Run; every
  step of this system is simulated by the system of agents (\<open>agents_of\<close>), so its promise carries
  over to what Status reports. Scaler, Http, ScalerMain: scaler/server.go, scaler/http.go and
  cmd/kfklease-scaler/main.go. Heartbeat, HeartbeatCodec, HeartbeatMain: examples/heartbeat/main.go,
  with the interface \<open>beat_codec\<close>, a special case of \<open>value_codec\<close>. FencedWorkload: fleet, /status,
  workload and report together.

  WHAT IS SHOWN. Safety of the whole: at most one candidate reports that it holds the lease and at
  most one scaler activates its cluster (C1, C2), and the report rejects no heartbeat that was not
  overtaken by a later one (C3). Below it, with \<open>2 * skew + drift \<le> margin\<close> and one TTL of whole
  milliseconds, no two participants believe at the same time, a believer's term is the live term at
  the end of the log, and epochs are fencing tokens (C4, C5, C8), for any delays, losses and
  duplications of records and acknowledgements, frozen processes and late joiners of an untruncated
  log included; candidates refine that system, turn by turn of the loop (C7, C9). Readers of a
  truncated log are right when certain (C6), under timestamps that do not step back and the
  writers' rule behind the anchor; the view implements the abstract fold (C10) and keeps its
  invariant (C13). Single steps of the agent: what starts a belief (C11), what and when it writes
  (C12), how it takes a free lease and keeps it (C15, C16), silence, holes and back-off (C18, C19,
  C37), the range of its numbers (C23). The candidate: its status is the belief at any later time
  (C17), its stop releases (C20), its loop keeps the agent's invariant (C21), its signal is not lost
  on one receiver (C34). Encoding round trips and the decoding of arbitrary bytes (C14, C27, C40).
  The scaler, HTTP, workload, report, configuration, authentication, topic and command (C22, C24 to
  C26, C32, C33, C35, C36, C38, C39). Findings are C28 to C31 and the lemmas of theory
  \<open>Counterexamples\<close> and \<open>signal_reaches_one_receiver\<close>, \<open>expiry_not_signalled\<close>, \<open>beat_panics\<close>,
  \<open>report_final_on_busy_topic\<close>, \<open>overlap_overstated\<close>, \<open>secret_keeps_trailing_space\<close>.

  CONVENTIONS. A panic is \<open>None\<close> or a missing result, an error a value of an error datatype in a sum
  or an option. Instants are integers (nanoseconds since year 1, the zero time is 0); Sub saturates
  as Go's does. Whatever a call reads from its surroundings (clock, files, broker, another process)
  is an argument. The JSON parser has fuel, twice the length of the input and one more, which
  \<open>parse_fuel\<close> shows to be always enough. The loop of the report is a partial function, which C24
  shows to end; every other recursion is structural or has a measure.

  NOT MODELLED. Logging, printing, metrics registration, gRPC and HTTP servers, signals and
  goroutines: they are library calls or I/O, and what they deliver is a parameter. The Kafka, admin
  and HTTP clients, the JSON of the status response, PEM and X.509 parsers and the parsers of
  durations and times are parameters. float64 seconds are exact rationals. The mutex-protected
  sections of a candidate are single steps. The generated protobuf code is modelled as far as the
  scaler uses it. Mutual exclusion for participants that join a truncated log is not claimed: C28,
  C29 and \<open>step_back_splits_readers\<close> show why it needs assumptions the code does not meet.
\<close>

end
